(* ===== verification/Prelude.thy ===== *)
theory Prelude
  imports Main "HOL-Library.Word" "HOL-Library.List_Lexorder" "HOL-Library.Sublist"
begin

text \<open>
  What every component of the development shares.

  \<^item> Rust's \<open>Result\<close> is the sum type, the error on the left; \<open>rbind\<close> is the question-mark operator,
    \<open>ok_or\<close> and \<open>ensure\<close> are the two other ways the code leaves a function early.
  \<^item> Fixed-width integers are words: \<open>+\<close> and \<open>-\<close> wrap as the release build does (the workspace
    does not switch overflow checks on), and \<open>checked_add\<close>, \<open>checked_sub\<close>, \<open>saturating_add\<close> and
    \<open>saturating_sub\<close> are the methods of the same name.
  \<^item> A \<open>str\<close> is its UTF-8 bytes, and byte strings are compared lexicographically, which is the
    order of both \<open>[u8]\<close> and \<open>str\<close>.
  \<^item> An instant (\<open>DateTime<Utc>\<close>) is a number of nanoseconds since the epoch.
  \<^item> \<open>be_bytes\<close> is \<open>to_be_bytes\<close>: the big-endian digits of a number, with the three facts the
    index keys rest on (length, injectivity, order).
\<close>

named_theorems result_simps \<open>characterisations of success and failure of the error monad\<close>
named_theorems key_simps \<open>shape, length and injectivity of index keys\<close>

section \<open>Results\<close>

type_synonym ('e, 'a) result = "'e + 'a"

definition rbind :: "('e, 'a) result \<Rightarrow> ('a \<Rightarrow> ('e, 'b) result) \<Rightarrow> ('e, 'b) result" where
  "rbind m f = (case m of Inl e \<Rightarrow> Inl e | Inr x \<Rightarrow> f x)"

definition ok_or :: "'a option \<Rightarrow> 'e \<Rightarrow> ('e, 'a) result" where
  "ok_or x e = (case x of None \<Rightarrow> Inl e | Some y \<Rightarrow> Inr y)"

definition ensure :: "bool \<Rightarrow> 'e \<Rightarrow> ('e, unit) result" where
  "ensure b e = (if b then Inr () else Inl e)"

definition map_err :: "('e \<Rightarrow> 'f) \<Rightarrow> ('e, 'a) result \<Rightarrow> ('f, 'a) result" where
  "map_err h m = (case m of Inl e \<Rightarrow> Inl (h e) | Inr x \<Rightarrow> Inr x)"

lemma rbind_simps [simp]:
  "rbind (Inl e) f = Inl e" "rbind (Inr x) f = f x"
  by (simp_all add: rbind_def)

lemma rbind_Inr [result_simps]: "rbind m f = Inr y \<longleftrightarrow> (\<exists>x. m = Inr x \<and> f x = Inr y)"
  by (cases m) auto

lemma rbind_assoc: "rbind (rbind m f) g = rbind m (\<lambda>x. rbind (f x) g)"
  by (cases m) auto

lemma ok_or_simps [simp]: "ok_or None e = Inl e" "ok_or (Some y) e = Inr y"
  by (simp_all add: ok_or_def)

lemma ok_or_Inr [result_simps]: "ok_or x e = Inr y \<longleftrightarrow> x = Some y"
  by (cases x) auto

lemma ensure_simps [simp]: "ensure True e = Inr ()" "ensure False e = Inl e"
  by (simp_all add: ensure_def)

lemma ensure_Inr [result_simps]: "ensure b e = Inr u \<longleftrightarrow> b"
  by (cases b) auto

lemma map_err_simps [simp]: "map_err h (Inl e) = Inl (h e)" "map_err h (Inr x) = Inr x"
  by (simp_all add: map_err_def)

lemma map_err_Inr [result_simps]: "map_err h m = Inr y \<longleftrightarrow> m = Inr y"
  by (cases m) auto

text \<open>
  \<open>post m Q\<close>: whenever \<open>m\<close> succeeds, its value satisfies \<open>Q\<close>. Its rules walk through a function one
  question mark at a time, which is how the effect of a transaction is read off its definition.
\<close>

definition post :: "('e, 'a) result \<Rightarrow> ('a \<Rightarrow> bool) \<Rightarrow> bool" where
  "post m Q \<longleftrightarrow> (\<forall>x. m = Inr x \<longrightarrow> Q x)"

lemma post_Inl [result_simps]: "post (Inl e) Q"
  by (simp add: post_def)

lemma post_Inr [result_simps]: "post (Inr x) Q \<longleftrightarrow> Q x"
  by (simp add: post_def)

lemma post_rbind [result_simps]: "post (rbind m f) Q \<longleftrightarrow> post m (\<lambda>x. post (f x) Q)"
  by (auto simp: post_def rbind_Inr)

lemma post_ok_or [result_simps]: "post (ok_or y e) Q \<longleftrightarrow> (\<forall>x. y = Some x \<longrightarrow> Q x)"
  by (simp add: post_def ok_or_Inr)

lemma post_ensure [result_simps]: "post (ensure b e) Q \<longleftrightarrow> (b \<longrightarrow> Q ())"
  by (simp add: post_def ensure_Inr)

lemma post_map_err [result_simps]: "post (map_err h m) Q \<longleftrightarrow> post m Q"
  by (simp add: post_def map_err_Inr)

lemma post_if [result_simps]: "post (if b then m else m') Q \<longleftrightarrow> (b \<longrightarrow> post m Q) \<and> (\<not> b \<longrightarrow> post m' Q)"
  by simp

lemma post_case_prod [result_simps]: "post (case x of (a, b) \<Rightarrow> f a b) Q \<longleftrightarrow> (case x of (a, b) \<Rightarrow> post (f a b) Q)"
  by (cases x) simp

lemma postD: "post m Q \<Longrightarrow> m = Inr x \<Longrightarrow> Q x"
  by (simp add: post_def)

lemma post_mono: "post m P \<Longrightarrow> (\<And>x. P x \<Longrightarrow> Q x) \<Longrightarrow> post m Q"
  by (simp add: post_def)

lemma post_conj: "post m (\<lambda>x. P x \<and> Q x) \<longleftrightarrow> post m P \<and> post m Q"
  by (auto simp: post_def)

lemma post_trivial [simp]: "post m (\<lambda>x. True)"
  by (simp add: post_def)

section \<open>Fixed-width integers\<close>

type_synonym u8 = "8 word"
type_synonym u16 = "16 word"
type_synonym u32 = "32 word"
type_synonym u64 = "64 word"

definition checked_add :: "'w::len word \<Rightarrow> 'w word \<Rightarrow> 'w word option" where
  "checked_add a b = (if unat a + unat b < 2 ^ LENGTH('w) then Some (a + b) else None)"

definition checked_sub :: "'w::len word \<Rightarrow> 'w word \<Rightarrow> 'w word option" where
  "checked_sub a b = (if b \<le> a then Some (a - b) else None)"

definition saturating_add :: "'w::len word \<Rightarrow> 'w word \<Rightarrow> 'w word" where
  "saturating_add a b = (if unat a + unat b < 2 ^ LENGTH('w) then a + b else - 1)"

definition saturating_sub :: "'w::len word \<Rightarrow> 'w word \<Rightarrow> 'w word" where
  "saturating_sub a b = (if b \<le> a then a - b else 0)"

lemma checked_add_Some [result_simps]:
  "checked_add a b = Some c \<longleftrightarrow> unat a + unat b < 2 ^ LENGTH('w) \<and> c = a + b" for a :: "'w::len word"
  by (auto simp: checked_add_def)

lemma checked_sub_Some [result_simps]: "checked_sub a b = Some c \<longleftrightarrow> b \<le> a \<and> c = a - b"
  by (auto simp: checked_sub_def)

lemma unat_add_no_wrap:
  "unat a + unat b < 2 ^ LENGTH('w) \<Longrightarrow> unat (a + b) = unat a + unat b" for a :: "'w::len word"
  by (simp add: unat_word_ariths)

lemma unat_sub_no_wrap: "b \<le> a \<Longrightarrow> unat (a - b) = unat a - unat b" for a :: "'w::len word"
  by (rule unat_sub)

lemma unat_saturating_add:
  "unat (saturating_add a b) = min (unat a + unat b) (2 ^ LENGTH('w) - 1)" for a :: "'w::len word"
proof (cases "unat a + unat b < 2 ^ LENGTH('w)")
  case True
  then show ?thesis by (simp add: saturating_add_def unat_add_no_wrap)
next
  case False
  then show ?thesis by (simp add: saturating_add_def unsigned_minus_1_eq_mask mask_eq_exp_minus_1)
qed

section \<open>Strings, bytes and instants\<close>

type_synonym bytes = "u8 list"
type_synonym str = bytes
type_synonym datetime = int

text \<open>The bytes of a literal.\<close>

definition lit :: "string \<Rightarrow> str" where
  "lit s = map (\<lambda>c. of_nat (of_char c)) s"

text \<open>\<open>timestamp_micros\<close> floors, because the sub-second part of an instant is never negative.\<close>

definition timestamp_micros :: "datetime \<Rightarrow> int" where
  "timestamp_micros t = t div 1000"

lemma timestamp_micros_mono: "a \<le> b \<Longrightarrow> timestamp_micros a \<le> timestamp_micros b"
  by (simp add: timestamp_micros_def zdiv_mono1)

section \<open>Big-endian encodings\<close>

fun be_bytes :: "nat \<Rightarrow> nat \<Rightarrow> bytes" where
  "be_bytes 0 n = []"
| "be_bytes (Suc w) n = be_bytes w (n div 256) @ [of_nat (n mod 256)]"

lemma length_be_bytes [simp, key_simps]: "length (be_bytes w n) = w"
  by (induction w arbitrary: n) auto

lemma of_nat_byte_inject: "a < 256 \<Longrightarrow> b < 256 \<Longrightarrow> (of_nat a :: u8) = of_nat b \<longleftrightarrow> a = b"
  by (simp add: word_of_nat_eq_iff take_bit_eq_mod)

lemma of_nat_byte_less: "a < 256 \<Longrightarrow> b < 256 \<Longrightarrow> (of_nat a :: u8) < of_nat b \<longleftrightarrow> a < b"
  by (simp add: word_of_nat_less_iff take_bit_eq_mod)

lemma be_bytes_inject:
  "a < 256 ^ w \<Longrightarrow> b < 256 ^ w \<Longrightarrow> be_bytes w a = be_bytes w b \<longleftrightarrow> a = b"
proof (induction w arbitrary: a b)
  case 0
  then show ?case by simp
next
  case (Suc w)
  then have "a div 256 < 256 ^ w" "b div 256 < 256 ^ w"
    by (auto simp: less_mult_imp_div_less mult.commute)
  with Suc.IH have "be_bytes w (a div 256) = be_bytes w (b div 256) \<longleftrightarrow> a div 256 = b div 256"
    by blast
  moreover have "a = b \<longleftrightarrow> a div 256 = b div 256 \<and> a mod 256 = b mod 256"
    by (metis div_mult_mod_eq)
  ultimately show ?case by (auto simp: of_nat_byte_inject)
qed

lemma list_less_append_same_length:
  "length xs = length ys \<Longrightarrow> xs @ us < ys @ vs \<longleftrightarrow> xs < ys \<or> xs = ys \<and> us < vs"
  for xs ys us vs :: "'a::linorder list"
  by (induction xs ys rule: list_induct2) auto

lemma be_bytes_less:
  "a < 256 ^ w \<Longrightarrow> b < 256 ^ w \<Longrightarrow> be_bytes w a < be_bytes w b \<longleftrightarrow> a < b"
proof (induction w arbitrary: a b)
  case 0
  then show ?case by simp
next
  case (Suc w)
  then have bounds: "a div 256 < 256 ^ w" "b div 256 < 256 ^ w"
    by (auto simp: less_mult_imp_div_less mult.commute)
  have "a = 256 * (a div 256) + a mod 256" "b = 256 * (b div 256) + b mod 256"
    "a mod 256 < 256" "b mod 256 < 256" by simp_all
  then have "a < b \<longleftrightarrow> a div 256 < b div 256 \<or> a div 256 = b div 256 \<and> a mod 256 < b mod 256"
    by linarith
  with bounds show ?case
    by (simp add: list_less_append_same_length Suc.IH be_bytes_inject of_nat_byte_less)
qed

section \<open>Lists\<close>

lemma append_prefix_inject:
  "length xs = length ys \<Longrightarrow> xs @ us = ys @ vs \<longleftrightarrow> xs = ys \<and> us = vs"
  by (rule append_eq_append_conv) simp

end
