(* ===== verification/Table.thy ===== *)
theory Table
  imports Prelude
begin

text \<open>
  Ordered key-value tables.

  Every component keeps its durable state in tables of an embedded ordered store: a table is a
  finite map whose keys are kept in order and which can be scanned over a range of keys. The
  model of a table is the list of its entries in strictly ascending key order, as a type of its
  own, so that two tables with the same contents are equal and a scan is a filter.

  The locale \<open>ordered_table\<close> is the interface the components rely on: what a lookup returns after
  an insertion or a removal, that a scan lists exactly the entries of its range and lists them in
  order, and how a total over the entries changes. It is interpreted on the list model.
\<close>

section \<open>The list model\<close>

typedef (overloaded) ('k::linorder, 'v) table =
  "{xs :: ('k \<times> 'v) list. sorted_wrt (<) (map fst xs)}"
  morphisms t_iter Table
  by (rule exI [of _ "[]"]) simp

setup_lifting type_definition_table

fun put_entry :: "'k::linorder \<Rightarrow> 'v \<Rightarrow> ('k \<times> 'v) list \<Rightarrow> ('k \<times> 'v) list" where
  "put_entry k v [] = [(k, v)]"
| "put_entry k v ((a, w) # xs) =
     (if k < a then (k, v) # (a, w) # xs
      else if k = a then (k, v) # xs
      else (a, w) # put_entry k v xs)"

lemma fst_set_put_entry: "fst ` set (put_entry k v xs) = insert k (fst ` set xs)"
  by (induction k v xs rule: put_entry.induct) auto

lemma put_entry_sorted: "sorted_wrt (<) (map fst xs) \<Longrightarrow> sorted_wrt (<) (map fst (put_entry k v xs))"
proof (induction k v xs rule: put_entry.induct)
  case (2 k v a w xs)
  have "x \<in> set (put_entry k v xs) \<Longrightarrow> fst x = k \<or> fst x \<in> fst ` set xs" for x
    using fst_set_put_entry [of k v xs] by blast
  with 2 show ?case by fastforce
qed simp

lemma sorted_filter_keys: "sorted_wrt (<) (map fst xs) \<Longrightarrow> sorted_wrt (<) (map fst (filter P xs))"
  by (simp add: sorted_wrt_map sorted_wrt_filter)

lift_definition t_empty :: "('k::linorder, 'v) table" is "[]"
  by simp

lift_definition t_get :: "('k::linorder, 'v) table \<Rightarrow> 'k \<Rightarrow> 'v option" is map_of .

lift_definition t_insert :: "'k::linorder \<Rightarrow> 'v \<Rightarrow> ('k, 'v) table \<Rightarrow> ('k, 'v) table" is put_entry
  by (rule put_entry_sorted)

lift_definition t_remove :: "'k::linorder \<Rightarrow> ('k, 'v) table \<Rightarrow> ('k, 'v) table"
  is "\<lambda>k. filter (\<lambda>e. fst e \<noteq> k)"
  by (rule sorted_filter_keys)

text \<open>The three scans the code uses: \<open>lo..hi\<close>, \<open>lo..\<close> and \<open>..=hi\<close>.\<close>

definition t_range :: "('k::linorder, 'v) table \<Rightarrow> 'k \<Rightarrow> 'k \<Rightarrow> ('k \<times> 'v) list" where
  "t_range t lo hi = filter (\<lambda>e. lo \<le> fst e \<and> fst e < hi) (t_iter t)"

definition t_from :: "('k::linorder, 'v) table \<Rightarrow> 'k \<Rightarrow> ('k \<times> 'v) list" where
  "t_from t lo = filter (\<lambda>e. lo \<le> fst e) (t_iter t)"

definition t_upto :: "('k::linorder, 'v) table \<Rightarrow> 'k \<Rightarrow> ('k \<times> 'v) list" where
  "t_upto t hi = filter (\<lambda>e. fst e \<le> hi) (t_iter t)"

text \<open>Removing several keys, one after the other.\<close>

fun t_remove_all :: "'k::linorder list \<Rightarrow> ('k, 'v) table \<Rightarrow> ('k, 'v) table" where
  "t_remove_all [] t = t"
| "t_remove_all (k # ks) t = t_remove_all ks (t_remove k t)"

text \<open>A total over the values of a table; the code never computes it, the accounting invariant does.\<close>

definition t_total :: "('v \<Rightarrow> nat) \<Rightarrow> ('k::linorder, 'v) table \<Rightarrow> nat" where
  "t_total f t = sum_list (map (\<lambda>e. f (snd e)) (t_iter t))"

section \<open>Laws\<close>

lemma distinct_keys: "sorted_wrt (<) (map fst xs) \<Longrightarrow> distinct (map fst xs)" for xs :: "('k::linorder \<times> 'v) list"
  by (simp add: strict_sorted_iff)

lemma t_iter_sorted: "sorted_wrt (<) (map fst (t_iter t))"
  using t_iter [of t] by simp

lemma t_get_iff: "t_get t k = Some v \<longleftrightarrow> (k, v) \<in> set (t_iter t)"
proof -
  have "distinct (map fst (t_iter t))"
    by (rule distinct_keys [OF t_iter_sorted])
  then show ?thesis
    by (simp add: t_get.rep_eq)
qed

lemma map_of_put_entry: "map_of (put_entry k v xs) = (map_of xs)(k \<mapsto> v)"
  by (induction k v xs rule: put_entry.induct) auto

lemma map_of_without: "map_of (filter (\<lambda>e. fst e \<noteq> k) xs) = (map_of xs)(k := None)"
  by (induction xs) auto

lemma t_get_empty [simp]: "t_get t_empty k = None"
  by transfer simp

lemma t_get_insert [simp]: "t_get (t_insert k v t) k' = (if k' = k then Some v else t_get t k')"
  by transfer (simp add: map_of_put_entry)

lemma t_get_remove [simp]: "t_get (t_remove k t) k' = (if k' = k then None else t_get t k')"
  by transfer (simp add: map_of_without)

lemma t_get_remove_all: "t_get (t_remove_all ks t) k = (if k \<in> set ks then None else t_get t k)"
  by (induction ks arbitrary: t) auto

lemma total_put_entry:
  fixes f :: "'v \<Rightarrow> nat"
  assumes "sorted_wrt (<) (map fst xs)"
  shows "sum_list (map (\<lambda>e. f (snd e)) (put_entry k v xs))
         + (case map_of xs k of None \<Rightarrow> 0 | Some w \<Rightarrow> f w)
       = sum_list (map (\<lambda>e. f (snd e)) xs) + f v"
  using assms
proof (induction k v xs rule: put_entry.induct)
  case (2 k v a w xs)
  then have "k < a \<Longrightarrow> map_of xs k = None"
    by (auto simp: map_of_eq_None_iff)
  with 2 show ?case by (auto split: option.splits)
qed simp

lemma total_without:
  fixes f :: "'v \<Rightarrow> nat"
  assumes "distinct (map fst xs)"
  shows "sum_list (map (\<lambda>e. f (snd e)) (filter (\<lambda>e. fst e \<noteq> k) xs))
         + (case map_of xs k of None \<Rightarrow> 0 | Some w \<Rightarrow> f w)
       = sum_list (map (\<lambda>e. f (snd e)) xs)"
  using assms
proof (induction xs)
  case (Cons e xs)
  show ?case
  proof (cases "fst e = k")
    case True
    with Cons.prems have "map_of xs k = None"
      by (auto simp: map_of_eq_None_iff)
    with Cons True show ?thesis by (cases e) auto
  next
    case False
    with Cons show ?thesis by (cases e) auto
  qed
qed simp

locale ordered_table =
  fixes empty :: "'t"
    and get :: "'t \<Rightarrow> 'k::linorder \<Rightarrow> 'v option"
    and ins :: "'k \<Rightarrow> 'v \<Rightarrow> 't \<Rightarrow> 't"
    and rem :: "'k \<Rightarrow> 't \<Rightarrow> 't"
    and iter :: "'t \<Rightarrow> ('k \<times> 'v) list"
  assumes get_empty: "get empty k = None"
    and get_ins: "get (ins k v t) k' = (if k' = k then Some v else get t k')"
    and get_rem: "get (rem k t) k' = (if k' = k then None else get t k')"
    and get_iter: "get t k = Some v \<longleftrightarrow> (k, v) \<in> set (iter t)"
    and iter_sorted: "sorted_wrt (<) (map fst (iter t))"
begin

lemma iter_unique:
  assumes "sorted_wrt (<) (map fst xs)" and "set xs = set (iter t)"
  shows "xs = iter t"
proof -
  have "sorted (map fst xs)" "sorted (map fst (iter t))"
    "distinct (map fst xs)" "distinct (map fst (iter t))"
    using assms(1) iter_sorted [of t] by (auto simp: strict_sorted_iff)
  with assms(2) show ?thesis
    by (intro map_sorted_distinct_set_unique [of fst]) (auto simp: distinct_map)
qed

lemma iter_eqI:
  assumes "\<And>k. get s k = get t k"
  shows "iter s = iter t"
proof (rule iter_unique [OF iter_sorted])
  show "set (iter s) = set (iter t)"
    using assms by (auto simp: get_iter [symmetric])
qed

lemma ins_ins: "iter (ins k v (ins k w t)) = iter (ins k v t)"
  by (rule iter_eqI) (simp add: get_ins)

lemma ins_commute: "k \<noteq> k' \<Longrightarrow> iter (ins k v (ins k' w t)) = iter (ins k' w (ins k v t))"
  by (rule iter_eqI) (simp add: get_ins)

lemma rem_ins: "get t k = None \<Longrightarrow> iter (rem k (ins k v t)) = iter t"
  by (rule iter_eqI) (simp add: get_ins get_rem)

text \<open>The first entry of a scan is the entry with the least key that satisfies the scan's condition.\<close>

lemma first_of_scan:
  assumes "filter (\<lambda>e. P (fst e)) (iter t) = (k, v) # rest"
  shows "get t k = Some v \<and> P k \<and> (\<forall>k' v'. get t k' = Some v' \<and> P k' \<longrightarrow> k \<le> k')"
proof -
  have "sorted_wrt (<) (map fst (filter (\<lambda>e. P (fst e)) (iter t)))"
    using iter_sorted by (rule sorted_filter_keys)
  with assms have least: "\<forall>e \<in> set rest. k < fst e"
    by auto
  have mem: "set (filter (\<lambda>e. P (fst e)) (iter t)) = insert (k, v) (set rest)"
    using assms by simp
  have "get t k' = Some v' \<Longrightarrow> P k' \<Longrightarrow> k \<le> k'" for k' v'
  proof -
    assume "get t k' = Some v'" "P k'"
    then have "(k', v') \<in> insert (k, v) (set rest)"
      unfolding mem [symmetric] by (simp add: get_iter)
    with least show "k \<le> k'" by auto
  qed
  moreover have "(k, v) \<in> set (filter (\<lambda>e. P (fst e)) (iter t))"
    unfolding mem by simp
  ultimately show ?thesis by (auto simp: get_iter)
qed

lemma empty_scan:
  "filter (\<lambda>e. P (fst e)) (iter t) = [] \<longleftrightarrow> (\<forall>k v. get t k = Some v \<longrightarrow> \<not> P k)"
  by (fastforce simp: filter_empty_conv get_iter)

end

interpretation tbl: ordered_table t_empty t_get t_insert t_remove t_iter
  by unfold_locales (simp_all add: t_get_iff t_iter_sorted)

lemma table_eqI: "(\<And>k. t_get s k = t_get t k) \<Longrightarrow> s = t"
  using tbl.iter_eqI [of s t] by (simp add: t_iter_inject)

lemma t_insert_insert [simp]: "t_insert k v (t_insert k w t) = t_insert k v t"
  by (rule table_eqI) simp

lemma t_insert_commute: "k \<noteq> k' \<Longrightarrow> t_insert k v (t_insert k' w t) = t_insert k' w (t_insert k v t)"
  by (rule table_eqI) simp

lemma t_insert_same: "t_get t k = Some v \<Longrightarrow> t_insert k v t = t"
  by (rule table_eqI) simp

lemma t_remove_absent: "t_get t k = None \<Longrightarrow> t_remove k t = t"
  by (rule table_eqI) simp

lemma t_insert_remove [simp]: "t_insert k v (t_remove k t) = t_insert k v t"
  by (rule table_eqI) simp

lemma t_remove_insert [simp]: "t_remove k (t_insert k v t) = t_remove k t"
  by (rule table_eqI) simp

lemma t_remove_remove [simp]: "t_remove k (t_remove k t) = t_remove k t"
  by (rule table_eqI) simp

lemma t_total_empty [simp]: "t_total f t_empty = 0"
  by (simp add: t_total_def t_empty.rep_eq)

lemma t_total_insert:
  "t_total f (t_insert k v t) + (case t_get t k of None \<Rightarrow> 0 | Some w \<Rightarrow> f w) = t_total f t + f v"
  unfolding t_total_def t_get.rep_eq t_insert.rep_eq
  by (rule total_put_entry [OF t_iter_sorted])

lemma t_total_insert_new: "t_get t k = None \<Longrightarrow> t_total f (t_insert k v t) = t_total f t + f v"
  using t_total_insert [of f k v t] by simp

lemma t_total_remove:
  "t_total f (t_remove k t) + (case t_get t k of None \<Rightarrow> 0 | Some w \<Rightarrow> f w) = t_total f t"
  unfolding t_total_def t_get.rep_eq t_remove.rep_eq
  by (rule total_without [OF distinct_keys [OF t_iter_sorted]])

lemma t_total_remove_some: "t_get t k = Some w \<Longrightarrow> t_total f (t_remove k t) + f w = t_total f t"
  using t_total_remove [of f k t] by simp

lemma t_total_ge: "t_get t k = Some w \<Longrightarrow> f w \<le> t_total f t"
  using t_total_remove_some [of t k w f] by simp

lemma t_total_mono: "(\<And>k v. t_get t k = Some v \<Longrightarrow> f v \<le> g v) \<Longrightarrow> t_total f t \<le> t_total g t"
  unfolding t_total_def by (rule sum_list_mono) (auto simp: t_get_iff)

lemma t_total_cong: "(\<And>k v. t_get t k = Some v \<Longrightarrow> f v = g v) \<Longrightarrow> t_total f t = t_total g t"
  by (intro antisym t_total_mono) simp_all

lemma t_total_zero: "t_total f t = 0 \<longleftrightarrow> (\<forall>k v. t_get t k = Some v \<longrightarrow> f v = 0)"
  by (fastforce simp: t_total_def t_get_iff)

lemma t_total_keep:
  assumes "\<And>k v. t_get t' k = Some v \<longleftrightarrow> t_get t k = Some v \<and> P v"
  shows "t_total f t' = t_total (\<lambda>v. if P v then f v else 0) t"
proof -
  have sum: "t_total g u = (\<Sum>e\<in>set (t_iter u). g (snd e))" for g :: "'b \<Rightarrow> nat" and u :: "('a, 'b) table"
    using distinct_keys [OF t_iter_sorted, of u] by (simp add: t_total_def sum_list_distinct_conv_sum_set distinct_map)
  have set: "set (t_iter t') = {e \<in> set (t_iter t). P (snd e)}"
    using assms by (auto simp: t_get_iff)
  show ?thesis unfolding sum set by (simp add: sum.inter_filter)
qed

lemma set_t_range: "(k, v) \<in> set (t_range t lo hi) \<longleftrightarrow> t_get t k = Some v \<and> lo \<le> k \<and> k < hi"
  by (auto simp: t_range_def t_get_iff)

lemma t_range_sorted: "sorted_wrt (<) (map fst (t_range t lo hi))"
  unfolding t_range_def by (rule sorted_filter_keys [OF t_iter_sorted])

lemma t_range_first:
  "t_range t lo hi = (k, v) # rest \<Longrightarrow>
     t_get t k = Some v \<and> lo \<le> k \<and> k < hi
     \<and> (\<forall>k' v'. t_get t k' = Some v' \<and> lo \<le> k' \<and> k' < hi \<longrightarrow> k \<le> k')"
  unfolding t_range_def by (drule tbl.first_of_scan) blast

lemma t_range_empty: "t_range t lo hi = [] \<longleftrightarrow> (\<forall>k v. t_get t k = Some v \<longrightarrow> \<not> (lo \<le> k \<and> k < hi))"
  unfolding t_range_def by (rule tbl.empty_scan)

end
