(* ===== verification/Object_Lock.thy ===== *)
theory Object_Lock
  imports Prelude
begin

text \<open>
  Object Lock: retention periods and legal holds on immutable versions
  (\<^verbatim>\<open>crates/record-store-core/src/object_lock.rs\<close>).

  The retention modes, the state of one version, the rule that decides whether a version may be
  deleted at an instant, the rule that decides whether a lock may be changed, the bounded default
  periods of a bucket, and the state a new version starts with. The calendar addition of the date
  library, which fails outside its representable range, is the parameter \<open>add\<close> of the definitions
  that use it; \<open>calendar_add\<close> is its documented behaviour.
\<close>

section \<open>Errors of the domain model\<close>

datatype CoreError =
    InvalidIdentifier str str
  | InvalidBucketName str
  | InvalidObjectKey str
  | InvalidChecksum str
  | InvalidETag str
  | InvalidPartNumber str
  | InvalidLifecycleRule str
  | InvalidByteRange str
  | InvalidErasureProfile str
  | InvalidReplicationProfile str
  | InvalidObjectLock str
  | InvalidCorsRule str
  | InvalidStorageClass str

section \<open>Retention\<close>

datatype RetentionMode = Governance | Compliance

fun mode_as_str :: "RetentionMode \<Rightarrow> str" where
  "mode_as_str Governance = lit ''GOVERNANCE''"
| "mode_as_str Compliance = lit ''COMPLIANCE''"

definition mode_parse :: "str \<Rightarrow> (CoreError, RetentionMode) result" where
  "mode_parse value =
     (if value = lit ''GOVERNANCE'' then Inr Governance
      else if value = lit ''COMPLIANCE'' then Inr Compliance
      else Inl (InvalidObjectLock
        (lit ''retention mode must be GOVERNANCE or COMPLIANCE, not '' @ value)))"

fun strength :: "RetentionMode \<Rightarrow> nat" where
  "strength Governance = 0"
| "strength Compliance = 1"

record Retention =
  ret_mode :: RetentionMode
  retain_until :: datetime

definition is_active_at :: "Retention \<Rightarrow> datetime \<Rightarrow> bool" where
  "is_active_at r now \<longleftrightarrow> timestamp_micros (retain_until r) > timestamp_micros now"

record ObjectLockState =
  lock_retention :: "Retention option"
  legal_hold :: bool

definition default_lock :: ObjectLockState where
  "default_lock = \<lparr>lock_retention = None, legal_hold = False\<rparr>"

definition is_unlocked :: "ObjectLockState \<Rightarrow> bool" where
  "is_unlocked s \<longleftrightarrow> lock_retention s = None \<and> \<not> legal_hold s"

datatype LockBlock =
    LegalHold
  | RetentionBlock RetentionMode datetime

definition deletion_block_at :: "ObjectLockState \<Rightarrow> datetime \<Rightarrow> LockBlock option" where
  "deletion_block_at s now =
     (if legal_hold s then Some LegalHold
      else case lock_retention s of
        Some r \<Rightarrow> if is_active_at r now then Some (RetentionBlock (ret_mode r) (retain_until r)) else None
      | None \<Rightarrow> None)"

fun block_label :: "LockBlock \<Rightarrow> str" where
  "block_label LegalHold = lit ''legal_hold''"
| "block_label (RetentionBlock Governance t) = lit ''governance_retention''"
| "block_label (RetentionBlock Compliance t) = lit ''compliance_retention''"

fun is_bypassable :: "LockBlock \<Rightarrow> bool" where
  "is_bypassable (RetentionBlock Governance t) = True"
| "is_bypassable (RetentionBlock Compliance t) = False"
| "is_bypassable LegalHold = False"

datatype LockChangeRefused = ComplianceRetentionIsFinal | GovernanceBypassRequired

fun refused_label :: "LockChangeRefused \<Rightarrow> str" where
  "refused_label ComplianceRetentionIsFinal = lit ''compliance_retention_is_final''"
| "refused_label GovernanceBypassRequired = lit ''governance_bypass_required''"

section \<open>Changing a lock\<close>

text \<open>The comparison both rules below make: a date at least as late, in a mode at least as strong.\<close>

definition retention_ge :: "Retention \<Rightarrow> Retention \<Rightarrow> bool" where
  "retention_ge requested current \<longleftrightarrow>
     retain_until requested \<ge> retain_until current
     \<and> strength (ret_mode requested) \<ge> strength (ret_mode current)"

definition with_retention ::
  "ObjectLockState \<Rightarrow> Retention option \<Rightarrow> datetime \<Rightarrow> bool \<Rightarrow> (LockChangeRefused, ObjectLockState) result" where
  "with_retention s requested now governance_bypass =
     (case (case lock_retention s of Some c \<Rightarrow> if is_active_at c now then Some c else None | None \<Rightarrow> None) of
        None \<Rightarrow> Inr (s\<lparr>lock_retention := requested\<rparr>)
      | Some current \<Rightarrow>
          if (case requested of Some r \<Rightarrow> retention_ge r current | None \<Rightarrow> False)
          then Inr (s\<lparr>lock_retention := requested\<rparr>)
          else case ret_mode current of
            Compliance \<Rightarrow> Inl ComplianceRetentionIsFinal
          | Governance \<Rightarrow>
              if governance_bypass then Inr (s\<lparr>lock_retention := requested\<rparr>)
              else Inl GovernanceBypassRequired)"

definition with_legal_hold :: "ObjectLockState \<Rightarrow> bool \<Rightarrow> ObjectLockState" where
  "with_legal_hold s hold = s\<lparr>legal_hold := hold\<rparr>"

definition change_only_tightens :: "ObjectLockState \<Rightarrow> ObjectLockState \<Rightarrow> bool" where
  "change_only_tightens s requested \<longleftrightarrow>
     (case (lock_retention s, lock_retention requested) of
        (c, None) \<Rightarrow> c = None
      | (None, Some r) \<Rightarrow> True
      | (Some c, Some r) \<Rightarrow> retention_ge r c)
     \<and> (legal_hold s \<longrightarrow> legal_hold requested)"

section \<open>Default retention of a bucket\<close>

datatype RetentionPeriod = Days u16 | Years u16

definition MAXIMUM_DAYS :: u16 where "MAXIMUM_DAYS = 36500"
definition MAXIMUM_YEARS :: u16 where "MAXIMUM_YEARS = 100"
definition DAYS_PER_YEAR :: int where "DAYS_PER_YEAR = 365"

definition period_days :: "u16 \<Rightarrow> (CoreError, RetentionPeriod) result" where
  "period_days value =
     (if 1 \<le> value \<and> value \<le> MAXIMUM_DAYS then Inr (Days value)
      else Inl (InvalidObjectLock (lit ''retention days must be between 1 and 36500'')))"

definition period_years :: "u16 \<Rightarrow> (CoreError, RetentionPeriod) result" where
  "period_years value =
     (if 1 \<le> value \<and> value \<le> MAXIMUM_YEARS then Inr (Years value)
      else Inl (InvalidObjectLock (lit ''retention years must be between 1 and 100'')))"

fun period_validate :: "RetentionPeriod \<Rightarrow> (CoreError, RetentionPeriod) result" where
  "period_validate (Days value) = period_days value"
| "period_validate (Years value) = period_years value"

text \<open>Whole days as nanoseconds, the unit of \<^typ>\<open>datetime\<close>.\<close>

definition duration_days :: "int \<Rightarrow> int" where
  "duration_days d = d * (86400 * 1000000000)"

fun period_length_days :: "RetentionPeriod \<Rightarrow> int" where
  "period_length_days (Days value) = uint value"
| "period_length_days (Years value) = uint value * DAYS_PER_YEAR"

definition retain_until_from ::
  "(datetime \<Rightarrow> int \<Rightarrow> datetime option) \<Rightarrow> RetentionPeriod \<Rightarrow> datetime \<Rightarrow> (CoreError, datetime) result" where
  "retain_until_from add p written_at =
     ok_or (add written_at (duration_days (period_length_days p)))
       (InvalidObjectLock (lit ''retention period does not fit in a representable date''))"

record DefaultRetention =
  default_mode :: RetentionMode
  default_period :: RetentionPeriod

definition default_retention_validate :: "DefaultRetention \<Rightarrow> (CoreError, DefaultRetention) result" where
  "default_retention_validate d =
     rbind (period_validate (default_period d)) (\<lambda>p.
       Inr \<lparr>default_mode = default_mode d, default_period = p\<rparr>)"

record ObjectLockConfiguration =
  default_retention :: "DefaultRetention option"

definition lock_configuration_validate ::
  "ObjectLockConfiguration \<Rightarrow> (CoreError, ObjectLockConfiguration) result" where
  "lock_configuration_validate c =
     (case default_retention c of
        None \<Rightarrow> Inr \<lparr>default_retention = None\<rparr>
      | Some d \<Rightarrow>
          rbind (default_retention_validate d) (\<lambda>d'. Inr \<lparr>default_retention = Some d'\<rparr>))"

definition initial_state_at ::
  "(datetime \<Rightarrow> int \<Rightarrow> datetime option) \<Rightarrow> ObjectLockConfiguration \<Rightarrow> datetime
   \<Rightarrow> (CoreError, ObjectLockState) result" where
  "initial_state_at add c written_at =
     rbind (case default_retention c of
              None \<Rightarrow> Inr None
            | Some d \<Rightarrow>
                rbind (retain_until_from add (default_period d) written_at) (\<lambda>t.
                  Inr (Some \<lparr>ret_mode = default_mode d, retain_until = t\<rparr>)))
       (\<lambda>retention. Inr \<lparr>lock_retention = retention, legal_hold = False\<rparr>)"

section \<open>What the rules guarantee\<close>

text \<open>
  \<open>releasable\<close> is the contract of Object Lock, stated without the code: who may remove a version
  at an instant. The catalog's checks are compared with it.
\<close>

definition releasable :: "ObjectLockState \<Rightarrow> datetime \<Rightarrow> bool \<Rightarrow> bool" where
  "releasable s now bypass \<longleftrightarrow>
     \<not> legal_hold s
     \<and> (\<forall>r. lock_retention s = Some r \<and> is_active_at r now \<longrightarrow> ret_mode r = Governance \<and> bypass)"

lemma deletion_block_releasable:
  "releasable s now bypass \<longleftrightarrow>
     (case deletion_block_at s now of None \<Rightarrow> True | Some b \<Rightarrow> is_bypassable b \<and> bypass)"
proof (cases "lock_retention s")
  case None
  then show ?thesis by (simp add: releasable_def deletion_block_at_def)
next
  case (Some r)
  then show ?thesis
    by (cases "ret_mode r") (simp_all add: releasable_def deletion_block_at_def)
qed

lemma is_active_at_mono: "retain_until r \<le> retain_until r' \<Longrightarrow> is_active_at r now \<Longrightarrow> is_active_at r' now"
  using timestamp_micros_mono [of "retain_until r" "retain_until r'"] by (simp add: is_active_at_def)

lemma is_active_at_antimono: "is_active_at r now' \<Longrightarrow> now \<le> now' \<Longrightarrow> is_active_at r now"
  using timestamp_micros_mono [of now now'] by (simp add: is_active_at_def)

lemma retention_ge_compliance:
  "retention_ge r c \<Longrightarrow> ret_mode c = Compliance \<Longrightarrow> ret_mode r = Compliance"
  by (cases "ret_mode r") (simp_all add: retention_ge_def)

lemma retention_ge_refl [simp]: "retention_ge r r"
  by (simp add: retention_ge_def)

lemma retention_ge_trans: "retention_ge a b \<Longrightarrow> retention_ge b c \<Longrightarrow> retention_ge a c"
  by (auto simp: retention_ge_def)

lemma with_retention_legal_hold:
  "with_retention s q now byp = Inr s' \<Longrightarrow> legal_hold s' = legal_hold s"
  by (auto simp: with_retention_def split: option.splits if_splits RetentionMode.splits)

lemma with_retention_result:
  "with_retention s q now byp = Inr s' \<Longrightarrow> s' = s\<lparr>lock_retention := q\<rparr>"
  by (auto simp: with_retention_def split: option.splits if_splits RetentionMode.splits)

lemma with_retention_active:
  assumes "lock_retention s = Some c" and "is_active_at c now"
    and "with_retention s q now byp = Inr s'"
  shows "(\<exists>r. q = Some r \<and> retention_ge r c) \<or> ret_mode c = Governance \<and> byp"
  using assms by (auto simp: with_retention_def split: option.splits if_splits RetentionMode.splits)

text \<open>
  C20. A compliance retention is final while it runs: whatever is requested and whatever bypass is
  claimed, an accepted change leaves the version in compliance mode until the same date or a later one.
\<close>

theorem compliance_is_final:
  assumes "lock_retention s = Some c" and "ret_mode c = Compliance" and "is_active_at c now"
    and "with_retention s q now bypass = Inr s'"
  shows "\<exists>r. lock_retention s' = Some r \<and> ret_mode r = Compliance \<and> retain_until r \<ge> retain_until c"
proof -
  from with_retention_active [OF assms(1,3,4)] assms(2)
  obtain r where r: "q = Some r" "retention_ge r c" by auto
  moreover from r(2) assms(2) have "ret_mode r = Compliance"
    by (rule retention_ge_compliance)
  ultimately show ?thesis
    using with_retention_result [OF assms(4)] by (auto simp: retention_ge_def)
qed

theorem compliance_is_final_witness:
  "\<exists>r. lock_retention \<lparr>lock_retention = Some \<lparr>ret_mode = Compliance, retain_until = 9000\<rparr>, legal_hold = False\<rparr> = Some r
       \<and> ret_mode r = Compliance \<and> retain_until r \<ge> 5000"
  by (rule compliance_is_final
        [where s = "\<lparr>lock_retention = Some \<lparr>ret_mode = Compliance, retain_until = 5000\<rparr>, legal_hold = False\<rparr>"
          and c = "\<lparr>ret_mode = Compliance, retain_until = 5000\<rparr>" and now = 1000 and bypass = True
          and q = "Some \<lparr>ret_mode = Compliance, retain_until = 9000\<rparr>", simplified])
     (simp_all add: is_active_at_def timestamp_micros_def with_retention_def retention_ge_def)

text \<open>
  C21. Which retention changes are accepted, on every branch: an elapsed or absent retention accepts
  anything, a running one accepts what tightens it, and beyond that only a governance retention with a
  bypass gives way. An accepted change replaces the retention and keeps the legal hold.
\<close>

theorem with_retention_accepts:
  "with_retention s q now bypass = Inr s' \<longleftrightarrow>
     s' = s\<lparr>lock_retention := q\<rparr>
     \<and> (\<forall>c. lock_retention s = Some c \<and> is_active_at c now \<longrightarrow>
          (\<exists>r. q = Some r \<and> retention_ge r c) \<or> ret_mode c = Governance \<and> bypass)"
proof (cases "lock_retention s")
  case None
  then show ?thesis by (auto simp: with_retention_def)
next
  case (Some c)
  then show ?thesis
    by (cases "ret_mode c"; cases q) (auto simp: with_retention_def)
qed

text \<open>The witness: a running governance retention is lifted with a bypass, and not without one.\<close>

theorem with_retention_accepts_witness:
  "with_retention \<lparr>lock_retention = Some \<lparr>ret_mode = Governance, retain_until = 5000\<rparr>, legal_hold = True\<rparr>
       None 1000 True
     = Inr \<lparr>lock_retention = None, legal_hold = True\<rparr>
   \<and> with_retention \<lparr>lock_retention = Some \<lparr>ret_mode = Governance, retain_until = 5000\<rparr>, legal_hold = True\<rparr>
       None 1000 False
     \<noteq> Inr \<lparr>lock_retention = None, legal_hold = True\<rparr>"
  unfolding with_retention_accepts by (simp add: is_active_at_def timestamp_micros_def)

text \<open>
  C22. A change that only tightens is accepted without a bypass at every instant, and releases nothing:
  whoever could not remove the version before the change cannot remove it afterwards. This is why such a
  change needs no trustworthy clock.
\<close>

theorem tightening_is_safe:
  assumes "change_only_tightens s q"
  shows "with_retention s (lock_retention q) now False = Inr (s\<lparr>lock_retention := lock_retention q\<rparr>)
         \<and> (releasable q t bypass \<longrightarrow> releasable s t bypass)"
proof
  show "with_retention s (lock_retention q) now False = Inr (s\<lparr>lock_retention := lock_retention q\<rparr>)"
    using assms unfolding with_retention_accepts
    by (auto simp: change_only_tightens_def split: option.splits)
  have "releasable s t bypass" if "releasable q t bypass"
  proof -
    have "ret_mode c = Governance \<and> bypass" if c: "lock_retention s = Some c" "is_active_at c t" for c
    proof -
      from c(1) assms obtain r where r: "lock_retention q = Some r" "retention_ge r c"
        by (auto simp: change_only_tightens_def split: option.splits)
      with c(2) have "is_active_at r t"
        using is_active_at_mono [of c r t] by (simp add: retention_ge_def)
      with \<open>releasable q t bypass\<close> r(1) have "ret_mode r = Governance \<and> bypass"
        by (simp add: releasable_def)
      with r(2) show ?thesis
        using retention_ge_compliance [of r c] by (cases "ret_mode c") auto
    qed
    with that assms show ?thesis
      by (auto simp: releasable_def change_only_tightens_def)
  qed
  then show "releasable q t bypass \<longrightarrow> releasable s t bypass" ..
qed

theorem tightening_is_safe_witness:
  "\<not> releasable \<lparr>lock_retention = Some \<lparr>ret_mode = Compliance, retain_until = 9000\<rparr>, legal_hold = False\<rparr> 1000 True"
proof -
  let ?s = "\<lparr>lock_retention = Some \<lparr>ret_mode = Compliance, retain_until = 5000\<rparr>, legal_hold = False\<rparr>"
  let ?q = "\<lparr>lock_retention = Some \<lparr>ret_mode = Compliance, retain_until = 9000\<rparr>, legal_hold = False\<rparr>"
  have "change_only_tightens ?s ?q"
    by (simp add: change_only_tightens_def retention_ge_def)
  from tightening_is_safe [OF this, of 0 1000 True]
  show ?thesis by (simp add: releasable_def is_active_at_def timestamp_micros_def)
qed

text \<open>The documented behaviour of the date library's checked addition: when it succeeds, it adds.\<close>

definition calendar_add :: "(datetime \<Rightarrow> int \<Rightarrow> datetime option) \<Rightarrow> bool" where
  "calendar_add add \<longleftrightarrow> (\<forall>t d r. add t d = Some r \<longrightarrow> r = t + d)"

lemma period_validate_bounds:
  "period_validate p = Inr p' \<Longrightarrow> p' = p \<and> 1 \<le> period_length_days p \<and> period_length_days p \<le> 36500"
proof (cases p)
  case (Days v)
  assume "period_validate p = Inr p'"
  with Days have "p' = p" "1 \<le> v" "v \<le> 36500"
    by (auto simp: period_days_def MAXIMUM_DAYS_def split: if_splits)
  with Days show ?thesis by (simp add: word_le_def)
next
  case (Years v)
  assume "period_validate p = Inr p'"
  with Years have "p' = p" "1 \<le> v" "v \<le> 100"
    by (auto simp: period_years_def MAXIMUM_YEARS_def split: if_splits)
  with Years show ?thesis by (simp add: word_le_def DAYS_PER_YEAR_def)
qed

lemma period_validate_again: "period_validate p = Inr p' \<Longrightarrow> period_validate p' = Inr p'"
  by (frule period_validate_bounds) simp

text \<open>
  C23. A version written under a validated bucket default is retained from the moment it is written, in the
  configured mode, for at least a day and at most 36500 days, and is not under a legal hold.
\<close>

theorem initial_state_retains:
  assumes "calendar_add add" and "lock_configuration_validate c = Inr c'"
    and "default_retention c' = Some d" and "initial_state_at add c' written_at = Inr s"
  shows "\<not> legal_hold s
         \<and> (\<exists>r. lock_retention s = Some r \<and> ret_mode r = default_mode d \<and> is_active_at r written_at
              \<and> written_at + duration_days 1 \<le> retain_until r
              \<and> retain_until r \<le> written_at + duration_days 36500)"
proof -
  from assms(2,3) obtain p where "period_validate p = Inr (default_period d)"
    by (cases "default_retention c")
       (auto simp: lock_configuration_validate_def default_retention_validate_def result_simps)
  then have "period_validate (default_period d) = Inr (default_period d)"
    by (rule period_validate_again)
  from period_validate_bounds [OF this]
  have b: "1 \<le> period_length_days (default_period d)" "period_length_days (default_period d) \<le> 36500"
    by auto
  from assms(1,3,4) have s: "s = \<lparr>lock_retention = Some \<lparr>ret_mode = default_mode d,
        retain_until = written_at + duration_days (period_length_days (default_period d))\<rparr>, legal_hold = False\<rparr>"
    by (auto simp: initial_state_at_def retain_until_from_def calendar_add_def result_simps)
  have "timestamp_micros written_at < timestamp_micros (written_at + duration_days (period_length_days (default_period d)))"
  proof -
    have "written_at + 1000 \<le> written_at + duration_days (period_length_days (default_period d))"
      using b by (simp add: duration_days_def)
    from timestamp_micros_mono [OF this] show ?thesis
      by (simp add: timestamp_micros_def)
  qed
  with b s show ?thesis by (simp add: is_active_at_def duration_days_def)
qed

theorem initial_state_retains_witness:
  "is_active_at \<lparr>ret_mode = Governance, retain_until = 30 * (86400 * 1000000000)\<rparr> 0"
proof -
  let ?add = "\<lambda>t d. Some (t + d :: int)"
  let ?d = "\<lparr>default_mode = Governance, default_period = Days 30\<rparr>"
  let ?c = "\<lparr>default_retention = Some ?d\<rparr>"
  let ?s = "\<lparr>lock_retention = Some \<lparr>ret_mode = Governance, retain_until = 30 * (86400 * 1000000000)\<rparr>,
             legal_hold = False\<rparr>"
  have "calendar_add ?add" by (simp add: calendar_add_def)
  moreover have "lock_configuration_validate ?c = Inr ?c"
    by (simp add: lock_configuration_validate_def default_retention_validate_def period_days_def MAXIMUM_DAYS_def)
  moreover have "default_retention ?c = Some ?d" by simp
  moreover have "initial_state_at ?add ?c 0 = Inr ?s"
    by (simp add: initial_state_at_def retain_until_from_def duration_days_def)
  ultimately have "\<exists>r. lock_retention ?s = Some r \<and> ret_mode r = default_mode ?d \<and> is_active_at r 0
              \<and> 0 + duration_days 1 \<le> retain_until r \<and> retain_until r \<le> 0 + duration_days 36500"
    by (blast dest: initial_state_retains)
  then show ?thesis by simp
qed

lemma mode_round_trip: "mode_parse (mode_as_str m) = Inr m"
  by (cases m) (simp_all add: mode_parse_def lit_def)

end
