(* ===== verification/Domain.thy ===== *)
theory Domain
  imports Table Object_Lock
begin

text \<open>
  The validated domain model (\<^verbatim>\<open>crates/record-store-core/src\<close>): bucket names, object keys, byte
  ranges and part numbers, quotas and durability profiles with their smart constructors, the records
  of buckets, objects, versions, delete markers and multipart uploads, lifecycle rules, and the
  storage events a mutation owes.

  Identifiers are UUIDs, 128-bit numbers whose sixteen big-endian bytes are what the index keys use.
\<close>

section \<open>Identifiers\<close>

type_synonym uuid = "128 word"
type_synonym BucketId = uuid
type_synonym ObjectId = uuid
type_synonym VersionId = uuid
type_synonym UploadId = uuid
type_synonym OrganizationId = uuid
type_synonym LifecycleRuleId = uuid
type_synonym EventId = uuid

definition uuid_bytes :: "uuid \<Rightarrow> bytes" where
  "uuid_bytes u = be_bytes 16 (unat u)"

lemma length_uuid_bytes [simp, key_simps]: "length (uuid_bytes u) = 16"
  by (simp add: uuid_bytes_def)

lemma unat_lt_256_pow: "LENGTH('w) = 8 * n \<Longrightarrow> unat u < 256 ^ n" for u :: "'w::len word"
  using unsigned_less [of u] by (simp add: power_mult)

lemma uuid_bytes_inject [simp, key_simps]: "uuid_bytes u = uuid_bytes v \<longleftrightarrow> u = v"
  using unat_lt_256_pow [of 16 u] unat_lt_256_pow [of 16 v]
  by (simp add: uuid_bytes_def be_bytes_inject word_unat_eq_iff)

lemma uuid_bytes_less: "uuid_bytes u < uuid_bytes v \<longleftrightarrow> u < v"
  using unat_lt_256_pow [of 16 u] unat_lt_256_pow [of 16 v]
  by (simp add: uuid_bytes_def be_bytes_less word_less_nat_alt)

section \<open>Text\<close>

definition is_ascii_lowercase :: "u8 \<Rightarrow> bool" where
  "is_ascii_lowercase b \<longleftrightarrow> 0x61 \<le> b \<and> b \<le> 0x7A"

definition is_ascii_uppercase :: "u8 \<Rightarrow> bool" where
  "is_ascii_uppercase b \<longleftrightarrow> 0x41 \<le> b \<and> b \<le> 0x5A"

definition is_ascii_digit :: "u8 \<Rightarrow> bool" where
  "is_ascii_digit b \<longleftrightarrow> 0x30 \<le> b \<and> b \<le> 0x39"

definition is_ascii_alphanumeric :: "u8 \<Rightarrow> bool" where
  "is_ascii_alphanumeric b \<longleftrightarrow> is_ascii_lowercase b \<or> is_ascii_uppercase b \<or> is_ascii_digit b"

definition is_ascii_graphic :: "u8 \<Rightarrow> bool" where
  "is_ascii_graphic b \<longleftrightarrow> 0x21 \<le> b \<and> b \<le> 0x7E"

definition starts_with :: "str \<Rightarrow> str \<Rightarrow> bool" where
  "starts_with v p \<longleftrightarrow> take (length p) v = p"

definition ends_with :: "str \<Rightarrow> str \<Rightarrow> bool" where
  "ends_with v p \<longleftrightarrow> length p \<le> length v \<and> drop (length v - length p) v = p"

fun str_contains :: "str \<Rightarrow> str \<Rightarrow> bool" where
  "str_contains [] p = (p = [])"
| "str_contains (b # bs) p = (starts_with (b # bs) p \<or> str_contains bs p)"

text \<open>\<open>split(sep)\<close>: the pieces between separators, the empty pieces included.\<close>

fun split_on :: "u8 \<Rightarrow> str \<Rightarrow> str list" where
  "split_on sep [] = [[]]"
| "split_on sep (b # bs) =
     (if b = sep then [] # split_on sep bs
      else case split_on sep bs of [] \<Rightarrow> [[b]] | p # ps \<Rightarrow> (b # p) # ps)"

text \<open>
  \<open>chars().any(char::is_control)\<close> on UTF-8: U+0000 to U+001F and U+007F are single bytes, and
  U+0080 to U+009F are the byte \<open>C2\<close> followed by a byte in \<open>80..=9F\<close>.
\<close>

fun any_control :: "str \<Rightarrow> bool" where
  "any_control [] = False"
| "any_control (b # bs) =
     (b < 0x20 \<or> b = 0x7F
      \<or> b = 0xC2 \<and> (case bs of [] \<Rightarrow> False | c # _ \<Rightarrow> 0x80 \<le> c \<and> c \<le> 0x9F)
      \<or> any_control bs)"

text \<open>\<open>parse::<Ipv4Addr>\<close>: four decimal octets without a leading zero, separated by periods.\<close>

fun decimal :: "str \<Rightarrow> nat \<Rightarrow> nat" where
  "decimal [] acc = acc"
| "decimal (b # bs) acc = decimal bs (acc * 10 + unat (b - 0x30))"

definition is_ipv4_octet :: "str \<Rightarrow> bool" where
  "is_ipv4_octet p \<longleftrightarrow>
     p \<noteq> [] \<and> length p \<le> 3 \<and> list_all is_ascii_digit p
     \<and> (length p > 1 \<longrightarrow> hd p \<noteq> 0x30) \<and> decimal p 0 \<le> 255"

definition is_ipv4 :: "str \<Rightarrow> bool" where
  "is_ipv4 v \<longleftrightarrow> (let ps = split_on 0x2E v in length ps = 4 \<and> list_all is_ipv4_octet ps)"

section \<open>Bucket names and object keys\<close>

type_synonym BucketName = str
type_synonym ObjectKey = str

definition validate_bucket_name :: "str \<Rightarrow> (CoreError, unit) result" where
  "validate_bucket_name value =
     (let invalid = (\<lambda>reason. InvalidBucketName (lit reason)) in
      if \<not> (3 \<le> length value \<and> length value \<le> 63)
      then Inl (invalid ''name must contain between 3 and 63 bytes'')
      else if \<not> (value \<noteq> [] \<and> is_ascii_alphanumeric (hd value))
              \<or> \<not> (value \<noteq> [] \<and> is_ascii_alphanumeric (last value))
      then Inl (invalid ''name must begin and end with a letter or digit'')
      else if \<not> list_all (\<lambda>b. is_ascii_lowercase b \<or> is_ascii_digit b \<or> b = 0x2D \<or> b = 0x2E) value
      then Inl (invalid ''only lowercase letters, digits, hyphens, and periods are permitted'')
      else if str_contains value (lit ''..'')
      then Inl (invalid ''adjacent periods are not permitted'')
      else if is_ipv4 value
      then Inl (invalid ''IP address notation is not permitted'')
      else if starts_with value (lit ''xn--'')
              \<or> starts_with value (lit ''sthree-'')
              \<or> ends_with value (lit ''-s3alias'')
              \<or> ends_with value (lit ''--ol-s3'')
              \<or> value = lit ''record-store-system'' \<or> value = lit ''record-store-internal''
      then Inl (invalid ''name uses a reserved prefix, suffix, or internal name'')
      else Inr ())"

definition bucket_name_new :: "str \<Rightarrow> (CoreError, BucketName) result" where
  "bucket_name_new value = rbind (validate_bucket_name value) (\<lambda>_. Inr value)"

definition KEY_MAX_LENGTH :: nat where "KEY_MAX_LENGTH = 1024"

definition validate_object_key :: "str \<Rightarrow> (CoreError, unit) result" where
  "validate_object_key value =
     (if value = [] then Inl (InvalidObjectKey (lit ''key must not be empty''))
      else if length value > KEY_MAX_LENGTH then Inl (InvalidObjectKey (lit ''key exceeds 1024 bytes''))
      else if starts_with value (lit ''/'')
      then Inl (InvalidObjectKey (lit ''key must not begin with a slash''))
      else if 0x5C \<in> set value then Inl (InvalidObjectKey (lit ''backslashes are not permitted''))
      else if any_control value
      then Inl (InvalidObjectKey (lit ''control characters are not permitted''))
      else if list_ex (\<lambda>segment. segment = [] \<or> segment = lit ''.'' \<or> segment = lit ''..'') (split_on 0x2F value)
      then Inl (InvalidObjectKey (lit ''empty, '' @ [0x27] @ lit ''.'' @ [0x27] @ lit '' and ''
             @ [0x27] @ lit ''..'' @ [0x27] @ lit '' path segments are not permitted''))
      else Inr ())"

definition object_key_new :: "str \<Rightarrow> (CoreError, ObjectKey) result" where
  "object_key_new value = rbind (validate_object_key value) (\<lambda>_. Inr value)"

section \<open>Ranges and part numbers\<close>

record ByteRange =
  br_offset :: u64
  br_length :: u64

record ResolvedByteRange =
  rr_offset :: u64
  rr_length :: u64

definition byte_range_new :: "u64 \<Rightarrow> u64 \<Rightarrow> (CoreError, ByteRange) result" where
  "byte_range_new offset len =
     rbind (ensure (len \<noteq> 0) (InvalidByteRange (lit ''length must be non-zero''))) (\<lambda>_.
     rbind (ok_or (checked_add offset len) (InvalidByteRange (lit ''offset plus length exceeds u64''))) (\<lambda>_.
       Inr \<lparr>br_offset = offset, br_length = len\<rparr>))"

definition byte_range_resolve :: "ByteRange \<Rightarrow> u64 \<Rightarrow> (CoreError, ResolvedByteRange) result" where
  "byte_range_resolve r object_size =
     (if br_offset r \<ge> object_size
      then Inl (InvalidByteRange (lit ''range starts at or beyond the end of the object''))
      else let available = object_size - br_offset r
           in Inr \<lparr>rr_offset = br_offset r, rr_length = min (br_length r) available\<rparr>)"

type_synonym PartNumber = u16

definition PART_MAX :: u16 where "PART_MAX = 10000"

definition part_number_new :: "u16 \<Rightarrow> (CoreError, PartNumber) result" where
  "part_number_new value =
     (if value > PART_MAX then Inl (InvalidPartNumber (lit ''part number must be between 1 and 10000''))
      else if value = 0 then Inl (InvalidPartNumber (lit ''part number must be between 1 and 10000''))
      else Inr value)"

section \<open>Quotas and durability\<close>

datatype VersioningState = Disabled | Enabled | Suspended

datatype ByteQuota = BytesUnlimited | BytesLimit u64

datatype ObjectCountQuota = ObjectsUnlimited | ObjectsLimit u64

fun bytes_allow :: "ByteQuota \<Rightarrow> u64 \<Rightarrow> bool" where
  "bytes_allow BytesUnlimited proposed = True"
| "bytes_allow (BytesLimit limit) proposed = (proposed \<le> limit)"

fun objects_allow :: "ObjectCountQuota \<Rightarrow> u64 \<Rightarrow> bool" where
  "objects_allow ObjectsUnlimited proposed = True"
| "objects_allow (ObjectsLimit limit) proposed = (proposed \<le> limit)"

record BucketQuota =
  quota_bytes :: ByteQuota
  quota_objects :: ObjectCountQuota

type_synonym ExpirationDays = u32

definition expiration_days_new :: "u32 \<Rightarrow> (CoreError, ExpirationDays) result" where
  "expiration_days_new days =
     (if 1 \<le> days \<and> days \<le> 36500 then Inr days
      else Inl (InvalidLifecycleRule (lit ''expiration days must be between 1 and 36500'')))"

type_synonym StorageClass = str

definition storage_class_new :: "str \<Rightarrow> (CoreError, StorageClass) result" where
  "storage_class_new value =
     (if value = [] \<or> length value > 32
      then Inl (InvalidStorageClass (lit ''class must contain between 1 and 32 bytes''))
      else if \<not> list_all (\<lambda>b. is_ascii_lowercase b \<or> is_ascii_digit b \<or> b = 0x2D) value
      then Inl (InvalidStorageClass
             (lit ''class may only contain lowercase letters, digits, and hyphens''))
      else Inr value)"

record ErasureProfile =
  data_shards :: u8
  parity_shards :: u8

definition MAX_TOTAL_SHARDS :: u8 where "MAX_TOTAL_SHARDS = 32"

definition erasure_profile_new :: "u8 \<Rightarrow> u8 \<Rightarrow> (CoreError, ErasureProfile) result" where
  "erasure_profile_new d p =
     rbind (ensure (d \<noteq> 0) (InvalidErasureProfile (lit ''data_shards must be at least 1''))) (\<lambda>_.
     rbind (ensure (p \<noteq> 0) (InvalidErasureProfile (lit ''parity_shards must be at least 1''))) (\<lambda>_.
     rbind (ok_or (checked_add d p) (InvalidErasureProfile (lit ''total shard count overflows''))) (\<lambda>total.
       if total > MAX_TOTAL_SHARDS
       then Inl (InvalidErasureProfile (lit ''at most 32 total shards are supported''))
       else Inr \<lparr>data_shards = d, parity_shards = p\<rparr>)))"

definition total_shards :: "ErasureProfile \<Rightarrow> u8" where
  "total_shards e = data_shards e + parity_shards e"

record ReplicationProfile =
  replicas :: u8
  required_acknowledgements :: u8

definition replication_profile_new :: "u8 \<Rightarrow> u8 \<Rightarrow> (CoreError, ReplicationProfile) result" where
  "replication_profile_new n acks =
     (if n = 0 then Inl (InvalidReplicationProfile (lit ''replicas must be at least 1''))
      else if acks = 0 \<or> acks > n
      then Inl (InvalidReplicationProfile
             (lit ''required acknowledgements must be between 1 and replicas''))
      else Inr \<lparr>replicas = n, required_acknowledgements = acks\<rparr>)"

datatype DurabilityProfile =
    Single
  | Replicated ReplicationProfile
  | ErasureCoded ErasureProfile

section \<open>CORS data\<close>

datatype CorsMethod = Get | Head | Put | Post | Delete

type_synonym CorsPattern = str

record CorsRule =
  cors_id :: "str option"
  allowed_origins :: "CorsPattern list"
  allowed_methods :: "CorsMethod list"
  allowed_headers :: "CorsPattern list"
  expose_headers :: "str list"
  max_age_seconds :: "u32 option"

record CorsConfiguration =
  cors_rules :: "CorsRule list"

section \<open>Buckets, objects and versions\<close>

record Bucket =
  bucket_id :: BucketId
  organization_id :: OrganizationId
  bucket_name :: BucketName
  bucket_created_at :: datetime
  versioning :: VersioningState
  quota :: BucketQuota
  storage_class :: "StorageClass option"
  durability_policy :: "DurabilityProfile option"
  object_lock :: "ObjectLockConfiguration option"
  cors :: "CorsConfiguration option"

datatype ChecksumAlgorithm = Sha256

record Checksum =
  algorithm :: ChecksumAlgorithm
  digest :: bytes

type_synonym ETag = str

definition etag_new :: "str \<Rightarrow> (CoreError, ETag) result" where
  "etag_new value =
     (if value = [] \<or> length value > 128 \<or> \<not> list_all (\<lambda>b. is_ascii_graphic b \<and> b \<noteq> 0x22) value
      then Inl (InvalidETag
             (lit ''ETag must contain 1 to 128 visible ASCII characters excluding quotes''))
      else Inr value)"

datatype PayloadFormat = Plaintext | Aes256GcmEnvelopeV1

record ObjectMetadata =
  om_id :: ObjectId
  om_bucket :: BucketId
  om_key :: ObjectKey
  om_version :: VersionId
  om_size :: u64
  om_checksum :: Checksum
  om_payload_format :: PayloadFormat
  om_durability :: DurabilityProfile
  om_etag :: ETag
  om_content_type :: "str option"
  om_custom_metadata :: "(str, str) table"
  om_created_at :: datetime
  om_modified_at :: datetime

record DeleteMarker =
  dm_version :: VersionId
  dm_bucket :: BucketId
  dm_key :: ObjectKey
  dm_created_at :: datetime

datatype ObjectVersionRecord =
    ObjectRecord ObjectMetadata bool
  | MarkerRecord DeleteMarker bool

fun rec_version_id :: "ObjectVersionRecord \<Rightarrow> VersionId" where
  "rec_version_id (ObjectRecord m n) = om_version m"
| "rec_version_id (MarkerRecord d n) = dm_version d"

fun rec_key :: "ObjectVersionRecord \<Rightarrow> ObjectKey" where
  "rec_key (ObjectRecord m n) = om_key m"
| "rec_key (MarkerRecord d n) = dm_key d"

fun rec_created_at :: "ObjectVersionRecord \<Rightarrow> datetime" where
  "rec_created_at (ObjectRecord m n) = om_created_at m"
| "rec_created_at (MarkerRecord d n) = dm_created_at d"

fun is_delete_marker :: "ObjectVersionRecord \<Rightarrow> bool" where
  "is_delete_marker (ObjectRecord m n) = False"
| "is_delete_marker (MarkerRecord d n) = True"

fun rec_is_null :: "ObjectVersionRecord \<Rightarrow> bool" where
  "rec_is_null (ObjectRecord m n) = n"
| "rec_is_null (MarkerRecord d n) = n"

datatype MultipartUploadState = Active | Completing ObjectId

record MultipartUpload =
  up_id :: UploadId
  up_bucket :: BucketId
  up_key :: ObjectKey
  up_content_type :: "str option"
  up_custom_metadata :: "(str, str) table"
  up_object_lock :: "ObjectLockState option"
  up_initiated_at :: datetime
  up_state :: MultipartUploadState

record UploadedPart =
  part_upload :: UploadId
  part_number :: PartNumber
  part_object :: ObjectId
  part_size :: u64
  part_checksum :: Checksum
  part_payload_format :: PayloadFormat
  part_etag :: ETag
  part_modified_at :: datetime

section \<open>Lifecycle rules and usage\<close>

record LifecycleRule =
  rule_id :: LifecycleRuleId
  rule_bucket :: BucketId
  rule_prefix :: str
  rule_enabled :: bool
  rule_expiration :: "ExpirationDays option"
  rule_noncurrent_version_expiration :: "ExpirationDays option"
  rule_created_at :: datetime
  rule_updated_at :: datetime

definition lifecycle_rule_validate :: "LifecycleRule \<Rightarrow> (CoreError, unit) result" where
  "lifecycle_rule_validate r =
     (if length (rule_prefix r) > KEY_MAX_LENGTH
      then Inl (InvalidLifecycleRule (lit ''prefix exceeds the maximum object-key length''))
      else if rule_expiration r = None \<and> rule_noncurrent_version_expiration r = None
      then Inl (InvalidLifecycleRule (lit ''at least one expiration action is required''))
      else Inr ())"

record StorageUsage =
  su_object_count :: u64
  su_bytes_used :: u64
  su_bucket_count :: u64
  su_version_count :: u64
  su_version_bytes :: u64
  su_physical_bytes :: u64
  su_temporary_multipart_bytes :: u64

section \<open>Storage events\<close>

datatype StorageEventType =
    BucketCreated | BucketDeleted
  | ObjectCreated | ObjectUpdated | ObjectDeleted | ObjectRestored
  | MultipartCompleted | MultipartAborted

fun event_as_str :: "StorageEventType \<Rightarrow> str" where
  "event_as_str BucketCreated = lit ''bucket.created''"
| "event_as_str BucketDeleted = lit ''bucket.deleted''"
| "event_as_str ObjectCreated = lit ''object.created''"
| "event_as_str ObjectUpdated = lit ''object.updated''"
| "event_as_str ObjectDeleted = lit ''object.deleted''"
| "event_as_str ObjectRestored = lit ''object.restored''"
| "event_as_str MultipartCompleted = lit ''multipart.completed''"
| "event_as_str MultipartAborted = lit ''multipart.aborted''"

datatype WriteOrigin = Direct | Copy | MultipartCompletion | Restore

record MutationEvent =
  ev_sequence :: u64
  ev_id :: EventId
  ev_type :: StorageEventType
  ev_occurred_at :: datetime
  ev_bucket :: str
  ev_key :: "str option"
  ev_version :: "VersionId option"
  ev_size :: "u64 option"

definition EVENT_NAMESPACE :: uuid where
  "EVENT_NAMESPACE = 0x1f4a9c2e7b634d189a05c73e51882d60"

text \<open>
  The bytes an event identifier is derived from. A timestamp is written as the eight bytes of its
  two's complement.
\<close>

definition event_material ::
  "u64 \<Rightarrow> StorageEventType \<Rightarrow> datetime \<Rightarrow> str \<Rightarrow> str option \<Rightarrow> VersionId option \<Rightarrow> bytes" where
  "event_material sequence event_type occurred_at bucket key version_id =
     be_bytes 8 (unat sequence)
     @ event_as_str event_type @ [0]
     @ be_bytes 8 (unat (word_of_int (timestamp_micros occurred_at) :: u64))
     @ bucket @ [0]
     @ (case key of None \<Rightarrow> [] | Some k \<Rightarrow> k) @ [0]
     @ (case version_id of None \<Rightarrow> [] | Some v \<Rightarrow> uuid_bytes v)"

text \<open>\<open>new_v5\<close> is the name-based UUID of the UUID library.\<close>

definition derive_id ::
  "(uuid \<Rightarrow> bytes \<Rightarrow> uuid) \<Rightarrow> u64 \<Rightarrow> StorageEventType \<Rightarrow> datetime \<Rightarrow> str \<Rightarrow> str option
   \<Rightarrow> VersionId option \<Rightarrow> EventId" where
  "derive_id new_v5 sequence event_type occurred_at bucket key version_id =
     new_v5 EVENT_NAMESPACE (event_material sequence event_type occurred_at bucket key version_id)"

section \<open>What the constructors guarantee\<close>

lemma not_any_control: "\<not> any_control v \<Longrightarrow> b \<in> set v \<Longrightarrow> 0x20 \<le> b \<and> b \<noteq> 0x7F"
  by (induction v rule: any_control.induct) (auto simp: not_less)

lemma not_any_control_pair: "\<not> any_control (xs @ 0xC2 # c # ys) \<Longrightarrow> c < 0x80 \<or> 0x9F < c"
  by (induction xs) (auto simp: not_le)

lemma validate_object_key_ok:
  assumes "validate_object_key k = Inr u"
  shows "k \<noteq> [] \<and> length k \<le> 1024 \<and> 0x5C \<notin> set k \<and> \<not> any_control k
         \<and> (\<forall>segment \<in> set (split_on 0x2F k). segment \<notin> {[], lit ''.'', lit ''..''})"
  using assms
  by (auto simp: validate_object_key_def KEY_MAX_LENGTH_def list_ex_iff split: if_splits)

lemma split_on_segments: "p \<in> set (split_on sep v) \<Longrightarrow> sep \<notin> set p"
  by (induction v arbitrary: p) (auto split: if_splits list.splits)

lemma split_on_nonempty [simp]: "split_on sep v \<noteq> []"
  by (induction v) (auto split: list.splits)

text \<open>Joining the pieces with the separator gives the text back.\<close>

fun join_with :: "u8 \<Rightarrow> str list \<Rightarrow> str" where
  "join_with sep [] = []"
| "join_with sep [p] = p"
| "join_with sep (p # ps) = p @ sep # join_with sep ps"

lemma join_split: "join_with sep (split_on sep v) = v"
proof (induction v)
  case (Cons b v)
  obtain p ps where "split_on sep v = p # ps"
    by (cases "split_on sep v") auto
  with Cons show ?case
    by (cases ps) auto
qed simp

text \<open>
  C24. An accepted object key is a relative path that stays where it is: it is a join of at least one
  segment, no segment is empty, a single or a double period, or contains a slash. It holds no backslash and no
  control character, neither of ASCII, including DEL and the NUL byte that separates the index keys, nor one of
  the Latin-1 block, which UTF-8 encodes as C2 followed by 80 to 9F.
\<close>

theorem accepted_key_is_safe:
  assumes "object_key_new v = Inr k"
  shows "k = v \<and> k = join_with 0x2F (split_on 0x2F k) \<and> length k \<le> 1024
         \<and> (\<forall>p \<in> set (split_on 0x2F k). p \<notin> {[], lit ''.'', lit ''..''} \<and> 0x2F \<notin> set p)
         \<and> (\<forall>b \<in> set k. 0x20 \<le> b \<and> b \<noteq> 0x7F \<and> b \<noteq> 0x5C)
         \<and> (\<forall>xs c ys. k = xs @ 0xC2 # c # ys \<longrightarrow> c < 0x80 \<or> 0x9F < c)"
proof -
  from assms have k: "k = v" and ok: "validate_object_key k = Inr ()"
    by (auto simp: object_key_new_def result_simps)
  note ok = validate_object_key_ok [OF ok]
  then have "\<forall>xs c ys. k = xs @ 0xC2 # c # ys \<longrightarrow> c < 0x80 \<or> 0x9F < c"
    using not_any_control_pair by blast
  moreover have "\<forall>b \<in> set k. 0x20 \<le> b \<and> b \<noteq> 0x7F \<and> b \<noteq> 0x5C"
    using ok not_any_control by blast
  ultimately show ?thesis
    using ok by (auto simp: k join_split dest: split_on_segments)
qed

theorem accepted_key_is_safe_witness:
  "0x5C \<notin> set (lit ''reports/q1.pdf'') \<and> 0x7F \<notin> set (lit ''reports/q1.pdf'')
   \<and> lit ''..'' \<notin> set (split_on 0x2F (lit ''reports/q1.pdf''))"
proof -
  have "object_key_new (lit ''reports/q1.pdf'') = Inr (lit ''reports/q1.pdf'')"
    by (simp add: object_key_new_def validate_object_key_def KEY_MAX_LENGTH_def lit_def starts_with_def)
  from accepted_key_is_safe [OF this] show ?thesis by blast
qed

text \<open>
  C25. A resolved range returns exactly the requested bytes that the object has: it is not empty, it stays
  inside the object without wrapping around, and it is the intersection of the request and the object.
\<close>

theorem resolved_range_is_intersection:
  assumes "byte_range_new offset len = Inr r" and "byte_range_resolve r object_size = Inr q"
  shows "rr_length q \<noteq> 0
         \<and> unat (rr_offset q) + unat (rr_length q) \<le> unat object_size
         \<and> {unat (rr_offset q)..<unat (rr_offset q) + unat (rr_length q)}
           = {unat offset..<unat offset + unat len} \<inter> {..<unat object_size}"
proof -
  from assms(1) have r: "r = \<lparr>br_offset = offset, br_length = len\<rparr>" and len: "0 < unat len"
    by (auto simp: byte_range_new_def result_simps unat_gt_0)
  from assms(2) r have lt: "unat offset < unat object_size"
    and q: "q = \<lparr>rr_offset = offset, rr_length = min len (object_size - offset)\<rparr>"
    by (auto simp: byte_range_resolve_def Let_def word_less_nat_alt not_le split: if_splits)
  have "unat (object_size - offset) = unat object_size - unat offset"
    using lt by (intro unat_sub_no_wrap) (simp add: word_le_nat_alt)
  then have n: "unat (min len (object_size - offset)) = min (unat len) (unat object_size - unat offset)"
    by (auto simp: min_def word_le_nat_alt)
  with len lt have "min len (object_size - offset) \<noteq> 0"
    by (metis min_less_iff_conj unat_0 less_irrefl zero_less_diff)
  with n lt q show ?thesis by auto
qed

theorem resolved_range_is_intersection_witness:
  "{unat (90 :: u64)..<unat (90 :: u64) + unat (10 :: u64)}
     = {unat (90 :: u64)..<unat (90 :: u64) + unat (50 :: u64)} \<inter> {..<unat (100 :: u64)}"
proof -
  have "byte_range_new 90 50 = Inr \<lparr>br_offset = 90, br_length = 50\<rparr>"
    by (simp add: byte_range_new_def checked_add_def)
  moreover have "byte_range_resolve \<lparr>br_offset = 90, br_length = 50\<rparr> 100
      = Inr \<lparr>rr_offset = 90, rr_length = 10\<rparr>"
    by (simp add: byte_range_resolve_def)
  ultimately show ?thesis
    using resolved_range_is_intersection by fastforce
qed

end
