(* ===== verification/Keys.thy ===== *)
theory Keys
  imports Domain
begin

text \<open>
  The byte keys of the catalog's tables (\<^verbatim>\<open>crates/record-store-metadata/src/keys.rs\<close>).

  A table of the catalog is ordered by bytes, so everything the catalog scans rests on how its keys are
  built: an object is keyed by its bucket's sixteen bytes and its key, a version by its object, a
  zero byte, its inverted creation time and its identifier. The lemmas are what the scans rely on:
  keys determine what they were built from, a range that starts at a prefix and ends at its successor
  holds exactly the keys with that prefix, and the versions of one object sort newest first.
\<close>

section \<open>Definitions\<close>

definition bucket_key :: "BucketId \<Rightarrow> bytes" where
  "bucket_key bucket = uuid_bytes bucket"

definition lock_key :: "VersionId \<Rightarrow> bytes" where
  "lock_key version = uuid_bytes version"

definition object_prefix :: "BucketId \<Rightarrow> str \<Rightarrow> bytes" where
  "object_prefix bucket pre = uuid_bytes bucket @ pre"

definition object_key :: "BucketId \<Rightarrow> ObjectKey \<Rightarrow> bytes" where
  "object_key bucket key = object_prefix bucket key"

definition exact_version_prefix :: "BucketId \<Rightarrow> ObjectKey \<Rightarrow> bytes" where
  "exact_version_prefix bucket key = object_key bucket key @ [0]"

fun rec_bucket :: "ObjectVersionRecord \<Rightarrow> BucketId" where
  "rec_bucket (ObjectRecord m n) = om_bucket m"
| "rec_bucket (MarkerRecord d n) = dm_bucket d"

definition inverted_time :: "datetime \<Rightarrow> u64" where
  "inverted_time t = - 1 - word_of_int (max (timestamp_micros t) 0)"

definition version_order_key :: "ObjectVersionRecord \<Rightarrow> bytes" where
  "version_order_key record =
     exact_version_prefix (rec_bucket record) (rec_key record)
     @ be_bytes 8 (unat (inverted_time (rec_created_at record)))
     @ uuid_bytes (rec_version_id record)"

definition multipart_order_key :: "MultipartUpload \<Rightarrow> bytes" where
  "multipart_order_key upload =
     object_key (up_bucket upload) (up_key upload) @ [0]
     @ be_bytes 8 (unat (word_of_int (max (timestamp_micros (up_initiated_at upload)) 0) :: u64))
     @ uuid_bytes (up_id upload)"

definition part_key :: "UploadId \<Rightarrow> PartNumber \<Rightarrow> bytes" where
  "part_key upload number = uuid_bytes upload @ be_bytes 2 (unat number)"

text \<open>The loop of \<open>prefix_successor\<close> runs from the last byte to the first: the bytes are taken reversed.\<close>

fun bump_last :: "bytes \<Rightarrow> bytes option" where
  "bump_last [] = None"
| "bump_last (b # bs) = (if b \<noteq> 0xFF then Some ((b + 1) # bs) else bump_last bs)"

definition prefix_successor :: "bytes \<Rightarrow> bytes" where
  "prefix_successor p =
     (case bump_last (rev p) of
        Some out \<Rightarrow> rev out
      | None \<Rightarrow> p @ [0xFF])"

section \<open>Keys determine what they were built from\<close>

lemma bucket_key_inject [simp, key_simps]: "bucket_key b = bucket_key b' \<longleftrightarrow> b = b'"
  by (simp add: bucket_key_def)

lemma lock_key_inject [simp, key_simps]: "lock_key v = lock_key v' \<longleftrightarrow> v = v'"
  by (simp add: lock_key_def)

lemma object_prefix_inject [simp, key_simps]: "object_prefix b k = object_prefix b' k' \<longleftrightarrow> b = b' \<and> k = k'"
  by (simp add: object_prefix_def append_prefix_inject)

lemma object_key_inject [simp, key_simps]: "object_key b k = object_key b' k' \<longleftrightarrow> b = b' \<and> k = k'"
  by (simp add: object_key_def)

lemma part_key_inject [simp, key_simps]: "part_key i n = part_key i' n' \<longleftrightarrow> i = i' \<and> n = n'"
  using unat_lt_256_pow [of 2 n] unat_lt_256_pow [of 2 n']
  by (simp add: part_key_def append_prefix_inject be_bytes_inject word_unat_eq_iff)

lemma append_suffix_inject:
  "length us = length vs \<Longrightarrow> xs @ us = ys @ vs \<longleftrightarrow> xs = ys \<and> us = vs"
  by (rule append_eq_append_conv) simp

lemma version_order_key_version:
  "version_order_key r = version_order_key r' \<Longrightarrow> rec_version_id r = rec_version_id r'"
proof -
  assume "version_order_key r = version_order_key r'"
  then have "(exact_version_prefix (rec_bucket r) (rec_key r) @ be_bytes 8 (unat (inverted_time (rec_created_at r))))
        @ uuid_bytes (rec_version_id r)
      = (exact_version_prefix (rec_bucket r') (rec_key r') @ be_bytes 8 (unat (inverted_time (rec_created_at r'))))
        @ uuid_bytes (rec_version_id r')"
    by (simp add: version_order_key_def)
  then show ?thesis
    by (subst (asm) append_suffix_inject) simp_all
qed

lemma version_order_key_object:
  assumes "version_order_key r = version_order_key r'"
  shows "rec_bucket r = rec_bucket r' \<and> rec_key r = rec_key r'"
proof -
  from assms have "exact_version_prefix (rec_bucket r) (rec_key r)
        @ (be_bytes 8 (unat (inverted_time (rec_created_at r))) @ uuid_bytes (rec_version_id r))
      = exact_version_prefix (rec_bucket r') (rec_key r')
        @ (be_bytes 8 (unat (inverted_time (rec_created_at r'))) @ uuid_bytes (rec_version_id r'))"
    by (simp add: version_order_key_def)
  then show ?thesis
    by (subst (asm) append_suffix_inject) (simp_all add: exact_version_prefix_def)
qed

lemma multipart_order_key_upload:
  "multipart_order_key u = multipart_order_key u' \<Longrightarrow> up_id u = up_id u' \<and> up_bucket u = up_bucket u' \<and> up_key u = up_key u'"
proof -
  assume eq: "multipart_order_key u = multipart_order_key u'"
  let ?t = "\<lambda>v. be_bytes 8 (unat (word_of_int (max (timestamp_micros (up_initiated_at v)) 0) :: u64))"
  from eq have "(object_key (up_bucket u) (up_key u) @ [0] @ ?t u) @ uuid_bytes (up_id u)
      = (object_key (up_bucket u') (up_key u') @ [0] @ ?t u') @ uuid_bytes (up_id u')"
    by (simp add: multipart_order_key_def)
  then have id: "up_id u = up_id u'"
    and "object_key (up_bucket u) (up_key u) @ ([0] @ ?t u) = object_key (up_bucket u') (up_key u') @ ([0] @ ?t u')"
    by (subst (asm) append_suffix_inject, simp_all)+
  then show ?thesis
    by (subst (asm) append_suffix_inject) simp_all
qed

section \<open>Ranges over a prefix\<close>

lemma prefix_successor_append:
  assumes "\<exists>b \<in> set p. b \<noteq> 0xFF"
  shows "prefix_successor (x # p) = x # prefix_successor p"
proof -
  have "\<exists>b \<in> set q. b \<noteq> 0xFF \<Longrightarrow> \<exists>out. bump_last q = Some out \<and> bump_last (q @ [x]) = Some (out @ [x])" for q
    by (induction q) auto
  from this [of "rev p"] assms show ?thesis
    by (auto simp: prefix_successor_def)
qed

lemma prefix_successor_last:
  assumes "\<forall>b \<in> set p. b = 0xFF" and "x \<noteq> 0xFF"
  shows "prefix_successor (x # p) = [x + 1]"
proof -
  have "\<forall>b \<in> set q. b = 0xFF \<Longrightarrow> bump_last (q @ [x]) = Some [x + 1]" for q
    using assms(2) by (induction q) auto
  from this [of "rev p"] assms(1) show ?thesis
    by (simp add: prefix_successor_def)
qed

lemma byte_le_max [simp]: "(b :: u8) \<le> 0xFF"
  using unat_lt_256_pow [of 1 b] by (simp add: word_le_nat_alt)

lemma byte_not_above_max [simp]: "\<not> (0xFF :: u8) < b"
  by (simp add: not_less)

lemma maximal_bytes_le: "\<forall>b \<in> set p. b = (0xFF :: u8) \<Longrightarrow> p \<le> k \<longleftrightarrow> prefix p k"
proof (induction p arbitrary: k)
  case (Cons b p)
  then show ?case
  proof (cases k)
    case (Cons c k')
    with Cons.IH [of k'] Cons.prems show ?thesis
      by (auto simp: not_less)
  qed simp
qed simp

lemma byte_less_succ:
  assumes "x \<noteq> (0xFF :: u8)"
  shows "y < x + 1 \<longleftrightarrow> y \<le> x"
proof -
  from assms have "unat x \<noteq> 255" "unat x < 256"
    using unat_lt_256_pow [of 1 x] by (auto simp: word_unat_eq_iff)
  then have "unat (x + 1) = unat x + 1"
    using unat_add_no_wrap [of x 1] by simp
  then show ?thesis
    by (simp add: word_less_nat_alt word_le_nat_alt less_Suc_eq_le)
qed

lemma prefix_range:
  assumes "\<exists>b \<in> set p. b \<noteq> 0xFF"
  shows "p \<le> k \<and> k < prefix_successor p \<longleftrightarrow> prefix p k"
  using assms
proof (induction p arbitrary: k)
  case (Cons x p)
  show ?case
  proof (cases k)
    case (Cons y k')
    show ?thesis
    proof (cases "\<exists>b \<in> set p. b \<noteq> 0xFF")
      case True
      with Cons.IH [of k'] Cons show ?thesis
        by (auto simp: prefix_successor_append)
    next
      case False
      then have all: "\<forall>b \<in> set p. b = 0xFF" by blast
      with Cons.prems have "x \<noteq> 0xFF" by auto
      with all Cons maximal_bytes_le [OF all, of k'] show ?thesis
        by (auto simp: prefix_successor_last byte_less_succ)
    qed
  qed simp
qed simp

text \<open>
  C26. A scan from a prefix up to its successor visits exactly the entries whose key has that prefix. The
  prefix must hold a byte other than the greatest one, which every UUID the store generates and every
  UTF-8 text does.
\<close>

theorem scan_of_prefix:
  assumes "\<exists>b \<in> set p. b \<noteq> 0xFF"
  shows "t_range t p (prefix_successor p) = filter (\<lambda>e. prefix p (fst e)) (t_iter t)"
  unfolding t_range_def by (rule filter_cong) (simp_all add: prefix_range [OF assms])

theorem scan_of_prefix_witness:
  "t_range (t_insert [1, 0xFF, 7] True (t_insert [2] False t_empty)) [1, 0xFF] (prefix_successor [1, 0xFF])
     = [([1, 0xFF, 7], True)]"
proof -
  have "\<exists>b \<in> set [1, 0xFF :: u8]. b \<noteq> 0xFF" by simp
  from scan_of_prefix [OF this, of "t_insert [1, 0xFF, 7] True (t_insert [2] False t_empty)"]
  show ?thesis by (simp add: t_insert.rep_eq t_empty.rep_eq)
qed

text \<open>Appending a zero byte gives the least key above a key: this is how every listing resumes.\<close>

lemma next_key: "k @ [0] \<le> k' \<longleftrightarrow> k < k'" for k k' :: bytes
proof (induction k arbitrary: k')
  case Nil
  then show ?case by (cases k') (auto simp: word_greater_zero_iff)
next
  case (Cons b k)
  then show ?case by (cases k') auto
qed

section \<open>Version order\<close>

lemma exact_version_prefix_scan:
  "exact_version_prefix b k \<le> x \<and> x < prefix_successor (exact_version_prefix b k)
     \<longleftrightarrow> prefix (exact_version_prefix b k) x"
  by (rule prefix_range) (simp add: exact_version_prefix_def)

lemma zero_terminated_prefix:
  assumes "(0 :: u8) \<notin> set k" and "0 \<notin> set k'" and "prefix (k @ [0]) (k' @ 0 # rest)"
  shows "k = k'"
  using assms
proof (induction k arbitrary: k')
  case Nil
  then show ?case by (cases k') auto
next
  case (Cons b k)
  then show ?case by (cases k') auto
qed

lemma exact_version_prefix_unique:
  assumes "0 \<notin> set k" and "0 \<notin> set (rec_key r)"
  shows "prefix (exact_version_prefix b k) (version_order_key r) \<longleftrightarrow> rec_bucket r = b \<and> rec_key r = k"
proof
  assume "rec_bucket r = b \<and> rec_key r = k"
  then show "prefix (exact_version_prefix b k) (version_order_key r)"
    by (simp add: version_order_key_def)
next
  assume "prefix (exact_version_prefix b k) (version_order_key r)"
  then obtain rest where eq: "uuid_bytes (rec_bucket r) @ rec_key r @ 0
        # be_bytes 8 (unat (inverted_time (rec_created_at r))) @ uuid_bytes (rec_version_id r)
      = uuid_bytes b @ k @ 0 # rest"
    by (auto simp: prefix_def exact_version_prefix_def object_key_def object_prefix_def version_order_key_def)
  then have "rec_bucket r = b" and tails: "rec_key r @ 0
        # be_bytes 8 (unat (inverted_time (rec_created_at r))) @ uuid_bytes (rec_version_id r) = k @ 0 # rest"
    by (simp_all add: append_prefix_inject)
  from tails have "prefix (k @ [0]) (rec_key r @ 0
        # be_bytes 8 (unat (inverted_time (rec_created_at r))) @ uuid_bytes (rec_version_id r))"
    by (simp add: prefix_def)
  with assms \<open>rec_bucket r = b\<close> show "rec_bucket r = b \<and> rec_key r = k"
    using zero_terminated_prefix by blast
qed

lemma unat_inverted_time:
  assumes "timestamp_micros t < 2 ^ 63"
  shows "unat (inverted_time t) = 2 ^ 64 - 1 - nat (max (timestamp_micros t) 0)"
proof -
  let ?m = "max (timestamp_micros t) 0"
  have "unat (word_of_int ?m :: u64) = nat ?m"
    using assms by (simp add: unsigned_of_int take_bit_int_eq_self)
  moreover have "(word_of_int ?m :: u64) \<le> - 1" by simp
  ultimately show ?thesis
    unfolding inverted_time_def
    by (subst unat_sub_no_wrap) (simp_all add: unsigned_minus_1_eq_mask mask_eq_exp_minus_1)
qed

text \<open>
  Among the versions of one object the order index sorts newest first, to the microsecond and with every instant
  before the epoch counted as the epoch, and versions of the same microsecond by their identifier. The library
  that provides instants keeps their microseconds within 64 bits.
\<close>

definition age_micros :: "ObjectVersionRecord \<Rightarrow> int" where
  "age_micros r = max (timestamp_micros (rec_created_at r)) 0"

definition newer :: "ObjectVersionRecord \<Rightarrow> ObjectVersionRecord \<Rightarrow> bool" where
  "newer r r' \<longleftrightarrow> age_micros r > age_micros r' \<or> age_micros r = age_micros r' \<and> rec_version_id r < rec_version_id r'"

definition dated :: "ObjectVersionRecord \<Rightarrow> bool" where
  "dated r \<longleftrightarrow> timestamp_micros (rec_created_at r) < 2 ^ 63"

lemma version_order_newest_first:
  assumes "rec_bucket r = rec_bucket r'" and "rec_key r = rec_key r'" and "dated r" and "dated r'"
  shows "version_order_key r < version_order_key r' \<longleftrightarrow> newer r r'"
proof -
  let ?a = "unat (inverted_time (rec_created_at r))" and ?b = "unat (inverted_time (rec_created_at r'))"
  have "version_order_key r < version_order_key r' \<longleftrightarrow>
      be_bytes 8 ?a < be_bytes 8 ?b
      \<or> be_bytes 8 ?a = be_bytes 8 ?b \<and> uuid_bytes (rec_version_id r) < uuid_bytes (rec_version_id r')"
    by (simp add: version_order_key_def assms(1,2) list_less_append_same_length)
  also have "\<dots> \<longleftrightarrow> ?a < ?b \<or> ?a = ?b \<and> rec_version_id r < rec_version_id r'"
    using unat_lt_256_pow [of 8 "inverted_time (rec_created_at r)"]
      unat_lt_256_pow [of 8 "inverted_time (rec_created_at r')"]
    by (simp add: be_bytes_less be_bytes_inject uuid_bytes_less)
  finally show ?thesis
    using assms(3,4) by (auto simp: unat_inverted_time newer_def age_micros_def dated_def)
qed

text \<open>Across keys the index follows the byte order of the keys, because no key contains the separator.\<close>

lemma zero_terminated_less:
  fixes k k' x y :: bytes
  assumes "0 \<notin> set k" and "0 \<notin> set k'"
  shows "k @ 0 # x < k' @ 0 # y \<longleftrightarrow> k < k' \<or> k = k' \<and> x < y"
  using assms
proof (induction k arbitrary: k')
  case Nil
  then show ?case by (cases k') (auto simp: word_neq_0_conv)
next
  case (Cons b k)
  then show ?case by (cases k') (auto simp: word_neq_0_conv)
qed

lemma version_order_less:
  assumes "rec_bucket r = rec_bucket r'" and "0 \<notin> set (rec_key r)" and "0 \<notin> set (rec_key r')" and "dated r" and "dated r'"
  shows "version_order_key r < version_order_key r' \<longleftrightarrow> rec_key r < rec_key r' \<or> rec_key r = rec_key r' \<and> newer r r'"
proof (cases "rec_key r = rec_key r'")
  case True
  with version_order_newest_first [OF assms(1) True assms(4,5)] show ?thesis by simp
next
  case False
  with assms(1) zero_terminated_less [OF assms(2,3)] show ?thesis
    by (simp add: version_order_key_def exact_version_prefix_def object_key_def object_prefix_def list_less_append_same_length)
qed

end
