(* ===== verification/Catalog.thy ===== *)
theory Catalog
  imports Keys
begin

text \<open>
  The state of the metadata catalog and the operations inside one write transaction
  (\<^verbatim>\<open>crates/record-store-metadata/src/{schema,types,error,tx}.rs\<close>).

  The catalog is one record with a field per table of the schema. A table holds the values the code
  stores in it; the JSON encoding of a value is not modelled. A transaction is state passing: an
  operation takes the catalog and returns an error or its result and the new catalog, and an error
  abandons the transaction, so it carries no state. Failures of the storage engine itself abandon
  the transaction as well and are not modelled.

  Two functions of third-party code appear in what a transaction writes: the name-based UUID of an
  event and the text form of a UUID. They are the parameter \<open>ext\<close>.
\<close>

section \<open>State\<close>

record BucketUsage =
  bu_current_objects :: u64
  bu_logical_bytes :: u64
  bu_versions :: u64
  bu_version_bytes :: u64
  bu_multipart_bytes :: u64

definition default_usage :: BucketUsage where
  "default_usage = \<lparr>bu_current_objects = 0, bu_logical_bytes = 0, bu_versions = 0,
     bu_version_bytes = 0, bu_multipart_bytes = 0\<rparr>"

record catalog =
  buckets :: "(bytes, Bucket) table"
  bucket_names :: "(str, Bucket) table"
  objects :: "(bytes, ObjectMetadata) table"
  markers :: "(bytes, DeleteMarker) table"
  versions :: "(bytes, ObjectVersionRecord) table"
  version_order :: "(bytes, bytes) table"
  null_versions :: "(bytes, bytes) table"
  multipart :: "(bytes, MultipartUpload) table"
  multipart_order :: "(bytes, bytes) table"
  parts :: "(bytes, UploadedPart) table"
  cleanup :: "(bytes, u8) table"
  bucket_usage :: "(bytes, BucketUsage) table"
  lifecycle_rules :: "(bytes, LifecycleRule) table"
  object_locks :: "(bytes, ObjectLockState) table"
  mutation_events :: "(u64, MutationEvent) table"
  counters :: "(str, u64) table"
  clock :: "(str, int) table"

definition empty_catalog :: catalog where
  "empty_catalog = \<lparr>buckets = t_empty, bucket_names = t_empty, objects = t_empty, markers = t_empty,
     versions = t_empty, version_order = t_empty, null_versions = t_empty, multipart = t_empty,
     multipart_order = t_empty, parts = t_empty, cleanup = t_empty, bucket_usage = t_empty,
     lifecycle_rules = t_empty, object_locks = t_empty, mutation_events = t_empty,
     counters = t_empty, clock = t_empty\<rparr>"

definition OBJECT_COUNT :: str where "OBJECT_COUNT = lit ''objects''"
definition BUCKET_COUNT :: str where "BUCKET_COUNT = lit ''buckets''"
definition LOGICAL_BYTES :: str where "LOGICAL_BYTES = lit ''logical_bytes''"
definition VERSION_COUNT :: str where "VERSION_COUNT = lit ''versions''"
definition VERSION_BYTES :: str where "VERSION_BYTES = lit ''version_bytes''"
definition PHYSICAL_BYTES :: str where "PHYSICAL_BYTES = lit ''physical_bytes''"
definition MULTIPART_BYTES :: str where "MULTIPART_BYTES = lit ''multipart_bytes''"
definition MUTATION_EVENT_SEQUENCE :: str where "MUTATION_EVENT_SEQUENCE = lit ''mutation_event_sequence''"
definition CLOCK_WATERMARK :: str where "CLOCK_WATERMARK = lit ''observed_high_water_mark''"

record externs =
  new_v5 :: "uuid \<Rightarrow> bytes \<Rightarrow> uuid"
  uuid_display :: "uuid \<Rightarrow> str"

section \<open>Errors\<close>

datatype MetadataError =
    Directory str
  | BucketAlreadyExists
  | BucketNotFound
  | BucketNotEmpty
  | MultipartUploadNotFound
  | MultipartStateConflict
  | QuotaExceeded
  | InvalidVersioningTransition
  | VersionLocked LockBlock
  | ClockWentBackwards
  | ObjectLockNotEnabled
  | ObjectLockNotEnabledAtCreation
  | ObjectLockRequiresVersioning
  | ObjectLockVersionNotFound
  | ObjectLockChangeRefused LockChangeRefused
  | MetaInvalidObjectLock str
  | LifecycleRuleNotFound
  | MetaInvalidLifecycleRule str
  | Encoding str
  | Database str str
  | Task str

definition counter_error :: MetadataError where
  "counter_error = Database (lit ''adjust counter'') (lit ''counter overflow or underflow'')"

text \<open>The message of a domain error, as its \<open>Display\<close> prints it.\<close>

fun core_error_to_string :: "CoreError \<Rightarrow> str" where
  "core_error_to_string (InvalidIdentifier kind reason) =
     lit ''invalid '' @ kind @ lit '' identifier: '' @ reason"
| "core_error_to_string (InvalidBucketName r) = lit ''invalid bucket name: '' @ r"
| "core_error_to_string (InvalidObjectKey r) = lit ''invalid object key: '' @ r"
| "core_error_to_string (InvalidChecksum r) = lit ''invalid checksum: '' @ r"
| "core_error_to_string (InvalidETag r) = lit ''invalid ETag: '' @ r"
| "core_error_to_string (InvalidPartNumber r) = lit ''invalid multipart part number: '' @ r"
| "core_error_to_string (InvalidLifecycleRule r) = lit ''invalid lifecycle rule: '' @ r"
| "core_error_to_string (InvalidByteRange r) = lit ''invalid byte range: '' @ r"
| "core_error_to_string (InvalidErasureProfile r) = lit ''invalid erasure profile: '' @ r"
| "core_error_to_string (InvalidReplicationProfile r) = lit ''invalid replication profile: '' @ r"
| "core_error_to_string (InvalidObjectLock r) = lit ''invalid object lock: '' @ r"
| "core_error_to_string (InvalidCorsRule r) = lit ''invalid CORS rule: '' @ r"
| "core_error_to_string (InvalidStorageClass r) = lit ''invalid storage class: '' @ r"

section \<open>Buckets and usage\<close>

definition read_bucket :: "catalog \<Rightarrow> BucketId \<Rightarrow> Bucket option" where
  "read_bucket s b = t_get (buckets s) (bucket_key b)"

definition update_bucket_tx ::
  "catalog \<Rightarrow> BucketId \<Rightarrow> (Bucket \<Rightarrow> (MetadataError, Bucket) result)
   \<Rightarrow> (MetadataError, Bucket \<times> catalog) result" where
  "update_bucket_tx s b update =
     rbind (ok_or (read_bucket s b) BucketNotFound) (\<lambda>bucket.
     rbind (update bucket) (\<lambda>bucket.
     let s = s\<lparr>buckets := t_insert (bucket_key b) bucket (buckets s)\<rparr>;
         s = s\<lparr>bucket_names := t_insert (bucket_name bucket) bucket (bucket_names s)\<rparr>
     in Inr (bucket, s)))"

definition read_bucket_usage :: "catalog \<Rightarrow> BucketId \<Rightarrow> BucketUsage" where
  "read_bucket_usage s b =
     (case t_get (bucket_usage s) (bucket_key b) of None \<Rightarrow> default_usage | Some u \<Rightarrow> u)"

definition write_bucket_usage :: "catalog \<Rightarrow> BucketId \<Rightarrow> BucketUsage \<Rightarrow> catalog" where
  "write_bucket_usage s b u = s\<lparr>bucket_usage := t_insert (bucket_key b) u (bucket_usage s)\<rparr>"

section \<open>Versions and the two views of the current one\<close>

definition insert_version :: "catalog \<Rightarrow> ObjectVersionRecord \<Rightarrow> catalog" where
  "insert_version s record =
     (let vid = uuid_bytes (rec_version_id record);
          s = s\<lparr>versions := t_insert vid record (versions s)\<rparr>
      in s\<lparr>version_order := t_insert (version_order_key record) vid (version_order s)\<rparr>)"

definition remove_version :: "catalog \<Rightarrow> ObjectVersionRecord \<Rightarrow> catalog" where
  "remove_version s record =
     (let s = s\<lparr>versions := t_remove (uuid_bytes (rec_version_id record)) (versions s)\<rparr>
      in s\<lparr>version_order := t_remove (version_order_key record) (version_order s)\<rparr>)"

definition take_null ::
  "catalog \<Rightarrow> BucketId \<Rightarrow> ObjectKey \<Rightarrow> (MetadataError, ObjectVersionRecord option \<times> catalog) result" where
  "take_null s bucket k =
     (let key = object_key bucket k;
          vid = t_get (null_versions s) key;
          s = s\<lparr>null_versions := t_remove key (null_versions s)\<rparr>
      in case vid of
           None \<Rightarrow> Inr (None, s)
         | Some v \<Rightarrow>
             rbind (ok_or (t_get (versions s) v)
                      (Database (lit ''read null version'') (lit ''inconsistent index''))) (\<lambda>record.
               Inr (Some record, s)))"

definition set_null :: "catalog \<Rightarrow> bytes \<Rightarrow> VersionId \<Rightarrow> catalog" where
  "set_null s key v = s\<lparr>null_versions := t_insert key (uuid_bytes v) (null_versions s)\<rparr>"

definition clear_null :: "catalog \<Rightarrow> bytes \<Rightarrow> VersionId \<Rightarrow> catalog" where
  "clear_null s key v =
     (if t_get (null_versions s) key = Some (uuid_bytes v)
      then s\<lparr>null_versions := t_remove key (null_versions s)\<rparr>
      else s)"

definition latest_version :: "catalog \<Rightarrow> BucketId \<Rightarrow> ObjectKey \<Rightarrow> ObjectVersionRecord option" where
  "latest_version s bucket key =
     (let p = exact_version_prefix bucket key
      in case t_range (version_order s) p (prefix_successor p) of
           [] \<Rightarrow> None
         | (_, v) # _ \<Rightarrow> t_get (versions s) v)"

fun publish_current :: "catalog \<Rightarrow> bytes \<Rightarrow> ObjectVersionRecord \<Rightarrow> catalog" where
  "publish_current s key (ObjectRecord m n) = s\<lparr>objects := t_insert key m (objects s)\<rparr>"
| "publish_current s key (MarkerRecord d n) = s\<lparr>markers := t_insert key d (markers s)\<rparr>"

definition remove_current :: "catalog \<Rightarrow> bytes \<Rightarrow> catalog" where
  "remove_current s key =
     (let s = s\<lparr>objects := t_remove key (objects s)\<rparr>
      in s\<lparr>markers := t_remove key (markers s)\<rparr>)"

definition current_version :: "catalog \<Rightarrow> bytes \<Rightarrow> VersionId option" where
  "current_version s key =
     (case t_get (objects s) key of
        Some m \<Rightarrow> Some (om_version m)
      | None \<Rightarrow> map_option dm_version (t_get (markers s) key))"

fun as_object :: "ObjectVersionRecord \<Rightarrow> ObjectMetadata option" where
  "as_object (ObjectRecord m n) = Some m"
| "as_object (MarkerRecord d n) = None"

fun record_matches :: "ObjectVersionRecord \<Rightarrow> BucketId \<Rightarrow> ObjectKey \<Rightarrow> bool" where
  "record_matches (ObjectRecord m n) bucket key = (om_bucket m = bucket \<and> om_key m = key)"
| "record_matches (MarkerRecord d n) bucket key = (dm_bucket d = bucket \<and> dm_key d = key)"

section \<open>Multipart parts, cleanup and counters\<close>

definition list_parts_tx :: "catalog \<Rightarrow> UploadId \<Rightarrow> UploadedPart list" where
  "list_parts_tx s u =
     (let p = uuid_bytes u in map snd (t_range (parts s) p (prefix_successor p)))"

definition has_multipart :: "catalog \<Rightarrow> BucketId \<Rightarrow> bool" where
  "has_multipart s b =
     (let p = bucket_key b in t_range (multipart_order s) p (prefix_successor p) \<noteq> [])"

definition queue_cleanup :: "catalog \<Rightarrow> ObjectId \<Rightarrow> catalog" where
  "queue_cleanup s x = s\<lparr>cleanup := t_insert (uuid_bytes x) 1 (cleanup s)\<rparr>"

fun queue_cleanups :: "catalog \<Rightarrow> ObjectId list \<Rightarrow> catalog" where
  "queue_cleanups s [] = s"
| "queue_cleanups s (x # xs) = queue_cleanups (queue_cleanup s x) xs"

definition read_counter :: "catalog \<Rightarrow> str \<Rightarrow> u64" where
  "read_counter s name = (case t_get (counters s) name of None \<Rightarrow> 0 | Some v \<Rightarrow> v)"

text \<open>The sum is formed as an \<open>i128\<close>, checked, and must fit a \<open>u64\<close> again.\<close>

definition adjust_counter :: "catalog \<Rightarrow> str \<Rightarrow> int \<Rightarrow> (MetadataError, catalog) result" where
  "adjust_counter s name delta =
     (let v = uint (read_counter s name) + delta
      in if - (2 ^ 127) \<le> v \<and> v < 2 ^ 127 \<and> 0 \<le> v \<and> v < 2 ^ 64
         then Inr (s\<lparr>counters := t_insert name (word_of_int v) (counters s)\<rparr>)
         else Inl counter_error)"

section \<open>Object Lock in the catalog\<close>

definition read_object_lock :: "catalog \<Rightarrow> VersionId \<Rightarrow> ObjectLockState" where
  "read_object_lock s v =
     (case t_get (object_locks s) (lock_key v) of None \<Rightarrow> default_lock | Some l \<Rightarrow> l)"

definition write_object_lock :: "catalog \<Rightarrow> VersionId \<Rightarrow> ObjectLockState \<Rightarrow> catalog" where
  "write_object_lock s v l =
     (if is_unlocked l then s\<lparr>object_locks := t_remove (lock_key v) (object_locks s)\<rparr>
      else s\<lparr>object_locks := t_insert (lock_key v) l (object_locks s)\<rparr>)"

definition remove_object_lock :: "catalog \<Rightarrow> VersionId \<Rightarrow> catalog" where
  "remove_object_lock s v = s\<lparr>object_locks := t_remove (lock_key v) (object_locks s)\<rparr>"

record LockRelease =
  observed_at :: datetime
  clock_tolerance_seconds :: u32
  bypass_governance :: bool

definition lock_release_new :: "datetime \<Rightarrow> u32 \<Rightarrow> LockRelease" where
  "lock_release_new t tolerance =
     \<lparr>observed_at = t, clock_tolerance_seconds = tolerance, bypass_governance = False\<rparr>"

definition with_governance_bypass :: "LockRelease \<Rightarrow> bool \<Rightarrow> LockRelease" where
  "with_governance_bypass r bypass = r\<lparr>bypass_governance := bypass\<rparr>"

text \<open>\<open>saturating_sub\<close> on the \<open>i64\<close> mark, and the tolerance in microseconds.\<close>

definition clock_floor :: "int \<Rightarrow> u32 \<Rightarrow> int" where
  "clock_floor mark tolerance = max (mark - uint tolerance * 1000000) (- (2 ^ 63))"

definition observe_clock :: "catalog \<Rightarrow> LockRelease \<Rightarrow> (MetadataError, catalog) result" where
  "observe_clock s release =
     (let now = timestamp_micros (observed_at release);
          mark = t_get (clock s) CLOCK_WATERMARK
      in case mark of
           None \<Rightarrow> Inr (s\<lparr>clock := t_insert CLOCK_WATERMARK now (clock s)\<rparr>)
         | Some m \<Rightarrow>
             if now < clock_floor m (clock_tolerance_seconds release) then Inl ClockWentBackwards
             else if now > m then Inr (s\<lparr>clock := t_insert CLOCK_WATERMARK now (clock s)\<rparr>)
             else Inr s)"

definition enforce_deletable :: "catalog \<Rightarrow> VersionId \<Rightarrow> LockRelease \<Rightarrow> (MetadataError, catalog) result" where
  "enforce_deletable s v release =
     (let state = read_object_lock s v
      in if is_unlocked state then Inr s
         else rbind (observe_clock s release) (\<lambda>s.
           case deletion_block_at state (observed_at release) of
             None \<Rightarrow> Inr s
           | Some block \<Rightarrow>
               if is_bypassable block \<and> bypass_governance release then Inr s
               else Inl (VersionLocked block)))"

section \<open>The event journal\<close>

definition journal_event ::
  "externs \<Rightarrow> catalog \<Rightarrow> StorageEventType \<Rightarrow> str \<Rightarrow> str option \<Rightarrow> VersionId option \<Rightarrow> u64 option
   \<Rightarrow> datetime \<Rightarrow> (MetadataError, catalog) result" where
  "journal_event ext s event_type bucket key version_id sz occurred_at =
     rbind (ok_or (checked_add (read_counter s MUTATION_EVENT_SEQUENCE) 1) counter_error) (\<lambda>sequence.
     let s = s\<lparr>counters := t_insert MUTATION_EVENT_SEQUENCE sequence (counters s)\<rparr>;
         event = \<lparr>ev_sequence = sequence,
                  ev_id = derive_id (new_v5 ext) sequence event_type occurred_at bucket key version_id,
                  ev_type = event_type, ev_occurred_at = occurred_at, ev_bucket = bucket,
                  ev_key = key, ev_version = version_id, ev_size = sz\<rparr>
     in Inr (s\<lparr>mutation_events := t_insert sequence event (mutation_events s)\<rparr>))"

definition prune_mutation_events_tx :: "catalog \<Rightarrow> u64 \<Rightarrow> u64 \<times> catalog" where
  "prune_mutation_events_tx s through_sequence =
     (let doomed = map fst (t_upto (mutation_events s) through_sequence)
      in (fold (\<lambda>_ n. saturating_add n 1) doomed 0,
          s\<lparr>mutation_events := t_remove_all doomed (mutation_events s)\<rparr>))"

end
