(* ===== verification/Commands.thy ===== *)
theory Commands
  imports Catalog
begin

text \<open>
  The commands of the catalog (\<^verbatim>\<open>crates/record-store-metadata/src/commands.rs\<close>): every mutation of the
  object catalog is one command, applied in one transaction by \<open>apply_command_tx\<close>. Each command has its
  definition here, with the guards, the early returns and the order of the writes of its Rust function.
\<close>

section \<open>Commands and outcomes\<close>

record NewDeleteMarker =
  nm_version :: VersionId
  nm_created_at :: datetime

record ObjectCommitResult =
  commit_cleanup :: "ObjectMetadata list"

record DeleteObjectResult =
  delete_marker :: "DeleteMarker option"
  delete_cleanup :: "ObjectMetadata list"
  previously_visible :: bool

record DeleteVersionResult =
  removed :: ObjectVersionRecord
  version_cleanup :: "ObjectMetadata option"

record MultipartCleanupResult =
  cleanup_parts :: "UploadedPart list"

datatype MetadataCommand =
    CreateBucket Bucket
  | SetBucketVersioning BucketId VersioningState
  | SetBucketQuota BucketId BucketQuota
  | SetBucketCors BucketId "CorsConfiguration option"
  | DeleteBucket BucketName datetime
  | SetBucketObjectLock BucketId ObjectLockConfiguration
  | PutObject ObjectMetadata "ObjectLockState option" WriteOrigin
  | DeleteObject BucketId ObjectKey NewDeleteMarker
  | DeleteObjectVersion BucketId ObjectKey VersionId LockRelease
  | PutObjectLock BucketId ObjectKey VersionId ObjectLockState LockRelease
  | ObserveClock LockRelease
  | CreateMultipartUpload MultipartUpload
  | PutMultipartPart UploadedPart
  | BeginMultipartCompletion UploadId ObjectId
  | FinishMultipartUpload UploadId
  | AbortMultipartUpload UploadId datetime
  | RecoverMultipartCompletions
  | PutLifecycleRule LifecycleRule
  | DeleteLifecycleRule LifecycleRuleId
  | CompleteCleanup ObjectId
  | PruneMutationEvents u64

fun command_name :: "MetadataCommand \<Rightarrow> str" where
  "command_name (CreateBucket b) = lit ''create_bucket''"
| "command_name (SetBucketVersioning b v) = lit ''set_bucket_versioning''"
| "command_name (SetBucketQuota b q) = lit ''set_bucket_quota''"
| "command_name (SetBucketCors b c) = lit ''set_bucket_cors''"
| "command_name (SetBucketObjectLock b c) = lit ''set_bucket_object_lock''"
| "command_name (DeleteBucket n t) = lit ''delete_bucket''"
| "command_name (PutObject m l w) = lit ''put_object''"
| "command_name (DeleteObject b k m) = lit ''delete_object''"
| "command_name (DeleteObjectVersion b k v r) = lit ''delete_object_version''"
| "command_name (PutObjectLock b k v l r) = lit ''put_object_lock''"
| "command_name (ObserveClock r) = lit ''observe_clock''"
| "command_name (CreateMultipartUpload u) = lit ''create_multipart_upload''"
| "command_name (PutMultipartPart p) = lit ''put_multipart_part''"
| "command_name (BeginMultipartCompletion u x) = lit ''begin_multipart_completion''"
| "command_name (FinishMultipartUpload u) = lit ''finish_multipart_upload''"
| "command_name (AbortMultipartUpload u t) = lit ''abort_multipart_upload''"
| "command_name RecoverMultipartCompletions = lit ''recover_multipart_completions''"
| "command_name (PutLifecycleRule r) = lit ''put_lifecycle_rule''"
| "command_name (DeleteLifecycleRule r) = lit ''delete_lifecycle_rule''"
| "command_name (CompleteCleanup x) = lit ''complete_cleanup''"
| "command_name (PruneMutationEvents n) = lit ''prune_mutation_events''"

datatype MetadataOutcome =
    NoOutcome
  | BucketOutcome Bucket
  | ObjectCommitOutcome ObjectCommitResult
  | DeleteObjectOutcome DeleteObjectResult
  | DeleteVersionOutcome "DeleteVersionResult option"
  | ObjectLockOutcome ObjectLockState
  | MultipartUploadOutcome MultipartUpload
  | ReplacedPartOutcome "UploadedPart option"
  | MultipartCleanupOutcome MultipartCleanupResult

section \<open>Buckets\<close>

definition create_bucket_tx :: "externs \<Rightarrow> catalog \<Rightarrow> Bucket \<Rightarrow> (MetadataError, catalog) result" where
  "create_bucket_tx ext s bucket =
     rbind (case object_lock bucket of
              None \<Rightarrow> Inr ()
            | Some configuration \<Rightarrow>
                rbind (map_err (\<lambda>e. MetaInvalidObjectLock (core_error_to_string e))
                         (lock_configuration_validate configuration)) (\<lambda>_.
                  ensure (versioning bucket = Enabled) ObjectLockRequiresVersioning)) (\<lambda>_.
     let key = bucket_key (bucket_id bucket)
     in if t_get (buckets s) key \<noteq> None \<or> t_get (bucket_names s) (bucket_name bucket) \<noteq> None
        then Inl BucketAlreadyExists
        else
          let s = s\<lparr>buckets := t_insert key bucket (buckets s)\<rparr>;
              s = s\<lparr>bucket_names := t_insert (bucket_name bucket) bucket (bucket_names s)\<rparr>;
              s = write_bucket_usage s (bucket_id bucket) default_usage
          in rbind (journal_event ext s BucketCreated (bucket_name bucket) None None None
                      (bucket_created_at bucket)) (\<lambda>s.
               adjust_counter s BUCKET_COUNT 1))"

definition set_bucket_versioning ::
  "VersioningState \<Rightarrow> Bucket \<Rightarrow> (MetadataError, Bucket) result" where
  "set_bucket_versioning state bucket =
     (if versioning bucket = Enabled \<and> state = Disabled then Inl InvalidVersioningTransition
      else if object_lock bucket \<noteq> None \<and> state \<noteq> Enabled then Inl ObjectLockRequiresVersioning
      else Inr (bucket\<lparr>versioning := state\<rparr>))"

definition set_bucket_object_lock ::
  "ObjectLockConfiguration \<Rightarrow> Bucket \<Rightarrow> (MetadataError, Bucket) result" where
  "set_bucket_object_lock configuration bucket =
     (if object_lock bucket = None then Inl ObjectLockNotEnabled
      else Inr (bucket\<lparr>object_lock := Some configuration\<rparr>))"

definition set_bucket_quota_tx ::
  "catalog \<Rightarrow> BucketId \<Rightarrow> BucketQuota \<Rightarrow> (MetadataError, Bucket \<times> catalog) result" where
  "set_bucket_quota_tx s b q =
     (let usage = read_bucket_usage s b
      in if \<not> bytes_allow (quota_bytes q) (saturating_add (bu_version_bytes usage) (bu_multipart_bytes usage))
            \<or> \<not> objects_allow (quota_objects q) (bu_current_objects usage)
         then Inl QuotaExceeded
         else update_bucket_tx s b (\<lambda>bucket. Inr (bucket\<lparr>quota := q\<rparr>)))"

definition delete_bucket_tx ::
  "externs \<Rightarrow> catalog \<Rightarrow> BucketName \<Rightarrow> datetime \<Rightarrow> (MetadataError, Bucket \<times> catalog) result" where
  "delete_bucket_tx ext s name at =
     rbind (ok_or (t_get (bucket_names s) name) BucketNotFound) (\<lambda>bucket.
     if bu_versions (read_bucket_usage s (bucket_id bucket)) \<noteq> 0 \<or> has_multipart s (bucket_id bucket)
     then Inl BucketNotEmpty
     else
       let key = bucket_key (bucket_id bucket);
           s = s\<lparr>bucket_names := t_remove name (bucket_names s)\<rparr>;
           s = s\<lparr>buckets := t_remove key (buckets s)\<rparr>;
           s = s\<lparr>bucket_usage := t_remove key (bucket_usage s)\<rparr>;
           ids = map fst (filter (\<lambda>e. rule_bucket (snd e) = bucket_id bucket) (t_iter (lifecycle_rules s)));
           s = s\<lparr>lifecycle_rules := t_remove_all ids (lifecycle_rules s)\<rparr>
       in rbind (adjust_counter s BUCKET_COUNT (- 1)) (\<lambda>s.
          rbind (journal_event ext s BucketDeleted (bucket_name bucket) None None None at) (\<lambda>s.
            Inr (bucket, s))))"

section \<open>Objects\<close>

definition assert_unlocked ::
  "catalog \<Rightarrow> ObjectVersionRecord \<Rightarrow> datetime \<Rightarrow> (MetadataError, unit) result" where
  "assert_unlocked s record now =
     (case deletion_block_at (read_object_lock s (rec_version_id record)) now of
        Some block \<Rightarrow> Inl (VersionLocked block)
      | None \<Rightarrow> Inr ())"

definition opt_size :: "ObjectMetadata option \<Rightarrow> u64" where
  "opt_size m = (case m of None \<Rightarrow> 0 | Some m \<Rightarrow> om_size m)"

definition events_of :: "WriteOrigin \<Rightarrow> bool \<Rightarrow> StorageEventType list" where
  "events_of origin created =
     (let created_or_updated = (if created then ObjectCreated else ObjectUpdated)
      in case origin of
           MultipartCompletion \<Rightarrow> [MultipartCompleted]
         | Restore \<Rightarrow> [created_or_updated, ObjectRestored]
         | Direct \<Rightarrow> [created_or_updated]
         | Copy \<Rightarrow> [created_or_updated])"

fun journal_events ::
  "externs \<Rightarrow> catalog \<Rightarrow> StorageEventType list \<Rightarrow> str \<Rightarrow> str option \<Rightarrow> VersionId option \<Rightarrow> u64 option
   \<Rightarrow> datetime \<Rightarrow> (MetadataError, catalog) result" where
  "journal_events ext s [] bucket key v sz at = Inr s"
| "journal_events ext s (e # es) bucket key v sz at =
     rbind (journal_event ext s e bucket key v sz at) (\<lambda>s. journal_events ext s es bucket key v sz at)"

text \<open>The replaced null version leaves: its lock is checked and dropped, then its record.\<close>

definition drop_replaced ::
  "catalog \<Rightarrow> ObjectVersionRecord option \<Rightarrow> datetime \<Rightarrow> (MetadataError, catalog) result" where
  "drop_replaced s replaced now =
     (case replaced of
        None \<Rightarrow> Inr s
      | Some record \<Rightarrow>
          rbind (assert_unlocked s record now) (\<lambda>_.
            Inr (remove_version (remove_object_lock s (rec_version_id record)) record)))"

definition put_object_tx ::
  "externs \<Rightarrow> catalog \<Rightarrow> ObjectMetadata \<Rightarrow> ObjectLockState option \<Rightarrow> WriteOrigin
   \<Rightarrow> (MetadataError, ObjectCommitResult \<times> catalog) result" where
  "put_object_tx ext s m lock origin =
     rbind (ok_or (read_bucket s (om_bucket m)) BucketNotFound) (\<lambda>bucket.
     let key = object_key (om_bucket m) (om_key m);
         previous = t_get (objects s) key;
         is_null = (versioning bucket \<noteq> Enabled)
     in
     rbind (if is_null then take_null s (om_bucket m) (om_key m) else Inr (None, s)) (\<lambda>(replaced, s).
     let removed_bytes = opt_size (Option.bind replaced as_object);
         usage = read_bucket_usage s (om_bucket m);
         proposed_objects = bu_current_objects usage + of_bool (previous = None)
     in
     rbind (ok_or (Option.bind (checked_sub (bu_logical_bytes usage) (opt_size previous))
                     (\<lambda>v. checked_add v (om_size m))) counter_error) (\<lambda>proposed_logical.
     let proposed_versions = bu_versions usage - of_bool (replaced \<noteq> None) + 1
     in
     rbind (ok_or (Option.bind (checked_sub (bu_version_bytes usage) removed_bytes)
                     (\<lambda>v. checked_add v (om_size m))) counter_error) (\<lambda>proposed_version_bytes.
     rbind (ensure (bytes_allow (quota_bytes (quota bucket))
                      (saturating_add proposed_version_bytes (bu_multipart_bytes usage))
                    \<and> objects_allow (quota_objects (quota bucket)) proposed_objects) QuotaExceeded) (\<lambda>_.
     rbind (drop_replaced s replaced (om_created_at m)) (\<lambda>s.
     let s = insert_version s (ObjectRecord m is_null)
     in
     rbind (case lock of
              None \<Rightarrow> Inr s
            | Some state \<Rightarrow>
                if is_unlocked state then Inr s
                else rbind (ensure (object_lock bucket \<noteq> None) ObjectLockNotEnabled) (\<lambda>_.
                       Inr (write_object_lock s (om_version m) state))) (\<lambda>s.
     let s = (if is_null then set_null s key (om_version m) else s);
         s = s\<lparr>objects := t_insert key m (objects s)\<rparr>;
         s = s\<lparr>markers := t_remove key (markers s)\<rparr>;
         s = write_bucket_usage s (om_bucket m)
               (usage\<lparr>bu_current_objects := proposed_objects, bu_logical_bytes := proposed_logical,
                      bu_versions := proposed_versions, bu_version_bytes := proposed_version_bytes\<rparr>)
     in
     rbind (adjust_counter s OBJECT_COUNT (of_bool (previous = None))) (\<lambda>s.
     rbind (adjust_counter s LOGICAL_BYTES (uint (om_size m) - uint (opt_size previous))) (\<lambda>s.
     rbind (adjust_counter s VERSION_COUNT (1 - of_bool (replaced \<noteq> None))) (\<lambda>s.
     rbind (adjust_counter s VERSION_BYTES (uint (om_size m) - uint removed_bytes)) (\<lambda>s.
     rbind (adjust_counter s PHYSICAL_BYTES (uint (om_size m) - uint removed_bytes)) (\<lambda>s.
     let cleaned = (case Option.bind replaced as_object of None \<Rightarrow> [] | Some old \<Rightarrow> [old]);
         s = queue_cleanups s (map om_id cleaned)
     in
     rbind (journal_events ext s (events_of origin (previous = None)) (bucket_name bucket)
              (Some (om_key m)) (Some (om_version m)) (Some (om_size m)) (om_created_at m)) (\<lambda>s.
       Inr (\<lparr>commit_cleanup = cleaned\<rparr>, s))))))))))))))"

text \<open>
  Both arms of an ordinary delete that take the null version away do the same with it: the returned
  usage, state and list of payloads are what the arm goes on with.
\<close>

definition delete_null_version ::
  "catalog \<Rightarrow> BucketUsage \<Rightarrow> ObjectVersionRecord option \<Rightarrow> datetime
   \<Rightarrow> (MetadataError, BucketUsage \<times> ObjectMetadata list \<times> catalog) result" where
  "delete_null_version s usage null_record now =
     (case null_record of
        None \<Rightarrow> Inr (usage, [], s)
      | Some record \<Rightarrow>
          rbind (assert_unlocked s record now) (\<lambda>_.
          let s = remove_version (remove_object_lock s (rec_version_id record)) record;
              usage = usage\<lparr>bu_versions := bu_versions usage - 1\<rparr>
          in
          rbind (adjust_counter s VERSION_COUNT (- 1)) (\<lambda>s.
          case as_object record of
            None \<Rightarrow> Inr (usage, [], s)
          | Some m \<Rightarrow>
              let usage = usage\<lparr>bu_version_bytes := bu_version_bytes usage - om_size m\<rparr>
              in
              rbind (adjust_counter s VERSION_BYTES (- uint (om_size m))) (\<lambda>s.
              rbind (adjust_counter s PHYSICAL_BYTES (- uint (om_size m))) (\<lambda>s.
                Inr (usage, [m], queue_cleanup s (om_id m)))))))"

text \<open>A delete marker becomes the current version of its key.\<close>

definition publish_marker :: "catalog \<Rightarrow> bytes \<Rightarrow> DeleteMarker \<Rightarrow> bool \<Rightarrow> catalog" where
  "publish_marker s key marker is_null =
     (let s = insert_version s (MarkerRecord marker is_null);
          s = (if is_null then set_null s key (dm_version marker) else s);
          s = s\<lparr>objects := t_remove key (objects s)\<rparr>
      in s\<lparr>markers := t_insert key marker (markers s)\<rparr>)"

text \<open>The match on the versioning state: usage, payloads, marker and state are what it leaves behind.\<close>

definition delete_by_versioning ::
  "catalog \<Rightarrow> VersioningState \<Rightarrow> BucketId \<Rightarrow> ObjectKey \<Rightarrow> NewDeleteMarker \<Rightarrow> BucketUsage
   \<Rightarrow> (MetadataError, BucketUsage \<times> ObjectMetadata list \<times> DeleteMarker option \<times> catalog) result" where
  "delete_by_versioning s state bucket k marker_values usage =
     (let key = object_key bucket k in
      if state = Disabled then
        rbind (take_null s bucket k) (\<lambda>(record, s).
        rbind (delete_null_version s usage record (nm_created_at marker_values)) (\<lambda>(usage, cleaned, s).
          Inr (usage, cleaned, None, remove_current s key)))
      else
        let is_null = (state = Suspended) in
        rbind (if is_null then take_null s bucket k else Inr (None, s)) (\<lambda>(record, s).
        rbind (delete_null_version s usage record (nm_created_at marker_values)) (\<lambda>(usage, cleaned, s).
        let marker = \<lparr>dm_version = nm_version marker_values, dm_bucket = bucket, dm_key = k,
                      dm_created_at = nm_created_at marker_values\<rparr>;
            s = publish_marker s key marker is_null;
            usage = usage\<lparr>bu_versions := bu_versions usage + 1\<rparr>
        in
        rbind (adjust_counter s VERSION_COUNT 1) (\<lambda>s.
          Inr (usage, cleaned, Some marker, s)))))"

definition delete_object_tx ::
  "externs \<Rightarrow> catalog \<Rightarrow> BucketId \<Rightarrow> ObjectKey \<Rightarrow> NewDeleteMarker
   \<Rightarrow> (MetadataError, DeleteObjectResult \<times> catalog) result" where
  "delete_object_tx ext s bucket k marker_values =
     rbind (ok_or (read_bucket s bucket) BucketNotFound) (\<lambda>bucket_record.
     let current = t_get (objects s) (object_key bucket k);
         usage = read_bucket_usage s bucket
     in
     rbind (delete_by_versioning s (versioning bucket_record) bucket k marker_values usage)
       (\<lambda>(usage, cleaned, marker, s).
     rbind (case current of
              None \<Rightarrow> Inr (usage, s)
            | Some m \<Rightarrow>
                let usage = usage\<lparr>bu_current_objects := bu_current_objects usage - 1,
                                  bu_logical_bytes := bu_logical_bytes usage - om_size m\<rparr>
                in
                rbind (adjust_counter s OBJECT_COUNT (- 1)) (\<lambda>s.
                rbind (adjust_counter s LOGICAL_BYTES (- uint (om_size m))) (\<lambda>s.
                  Inr (usage, s)))) (\<lambda>(usage, s).
     let s = write_bucket_usage s bucket usage;
         result = \<lparr>delete_marker = marker, delete_cleanup = cleaned, previously_visible = (current \<noteq> None)\<rparr>
     in
     rbind (if previously_visible result \<or> delete_marker result \<noteq> None
            then journal_event ext s ObjectDeleted (bucket_name bucket_record) (Some k)
                   (map_option dm_version (delete_marker result)) None (nm_created_at marker_values)
            else Inr s) (\<lambda>s.
       Inr (result, s)))))"

text \<open>
  The two halves of what a version delete does to the current pointer, when the removed version was
  current: the current object leaves, and the newest remaining version is published.
\<close>

definition unpublish_current ::
  "catalog \<Rightarrow> bytes \<Rightarrow> BucketUsage \<Rightarrow> (MetadataError, BucketUsage \<times> catalog) result" where
  "unpublish_current s key usage =
     rbind (case t_get (objects s) key of
              None \<Rightarrow> Inr (usage, s)
            | Some m \<Rightarrow>
                let usage = usage\<lparr>bu_current_objects := bu_current_objects usage - 1,
                                  bu_logical_bytes := bu_logical_bytes usage - om_size m\<rparr>
                in
                rbind (adjust_counter s OBJECT_COUNT (- 1)) (\<lambda>s.
                rbind (adjust_counter s LOGICAL_BYTES (- uint (om_size m))) (\<lambda>s.
                  Inr (usage, s)))) (\<lambda>(usage, s).
       Inr (usage, remove_current s key))"

definition publish_latest ::
  "catalog \<Rightarrow> BucketId \<Rightarrow> ObjectKey \<Rightarrow> BucketUsage \<Rightarrow> (MetadataError, BucketUsage \<times> catalog) result" where
  "publish_latest s bucket k usage =
     (case latest_version s bucket k of
        None \<Rightarrow> Inr (usage, s)
      | Some next \<Rightarrow>
          let s = publish_current s (object_key bucket k) next in
          case as_object next of
            None \<Rightarrow> Inr (usage, s)
          | Some m \<Rightarrow>
              let usage = usage\<lparr>bu_current_objects := bu_current_objects usage + 1,
                                bu_logical_bytes := bu_logical_bytes usage + om_size m\<rparr>
              in
              rbind (adjust_counter s OBJECT_COUNT 1) (\<lambda>s.
              rbind (adjust_counter s LOGICAL_BYTES (uint (om_size m))) (\<lambda>s.
                Inr (usage, s))))"

text \<open>The payload of a removed object version leaves the accounting and is queued for cleanup.\<close>

definition release_payload ::
  "catalog \<Rightarrow> ObjectVersionRecord \<Rightarrow> BucketUsage \<Rightarrow> (MetadataError, BucketUsage \<times> catalog) result" where
  "release_payload s record usage =
     (case as_object record of
        None \<Rightarrow> Inr (usage, s)
      | Some m \<Rightarrow>
          let usage = usage\<lparr>bu_version_bytes := bu_version_bytes usage - om_size m\<rparr>
          in
          rbind (adjust_counter s VERSION_BYTES (- uint (om_size m))) (\<lambda>s.
          rbind (adjust_counter s PHYSICAL_BYTES (- uint (om_size m))) (\<lambda>s.
            Inr (usage, queue_cleanup s (om_id m)))))"

text \<open>What a version delete does once the lock check has passed.\<close>

definition remove_one_version ::
  "externs \<Rightarrow> catalog \<Rightarrow> BucketId \<Rightarrow> ObjectKey \<Rightarrow> VersionId \<Rightarrow> ObjectVersionRecord \<Rightarrow> datetime
   \<Rightarrow> (MetadataError, DeleteVersionResult option \<times> catalog) result" where
  "remove_one_version ext s bucket k version record at =
     (let key = object_key bucket k;
          was_current = (current_version s key = Some version);
          s = remove_object_lock s version;
          s = remove_version s record;
          s = (if rec_is_null record then clear_null s key version else s);
          usage = read_bucket_usage s bucket;
          usage = usage\<lparr>bu_versions := bu_versions usage - 1\<rparr>
      in
      rbind (adjust_counter s VERSION_COUNT (- 1)) (\<lambda>s.
      rbind (release_payload s record usage) (\<lambda>(usage, s).
      rbind (if was_current
             then rbind (unpublish_current s key usage) (\<lambda>(usage, s). publish_latest s bucket k usage)
             else Inr (usage, s)) (\<lambda>(usage, s).
      let s = write_bucket_usage s bucket usage
      in
      rbind (case read_bucket s bucket of
               None \<Rightarrow> Inr s
             | Some bucket_record \<Rightarrow>
                 journal_event ext s ObjectDeleted (bucket_name bucket_record) (Some k) (Some version) None at) (\<lambda>s.
        Inr (Some \<lparr>removed = record, version_cleanup = as_object record\<rparr>, s))))))"

definition delete_object_version_tx ::
  "externs \<Rightarrow> catalog \<Rightarrow> BucketId \<Rightarrow> ObjectKey \<Rightarrow> VersionId \<Rightarrow> LockRelease
   \<Rightarrow> (MetadataError, DeleteVersionResult option \<times> catalog) result" where
  "delete_object_version_tx ext s bucket k version release =
     (case t_get (versions s) (uuid_bytes version) of
        None \<Rightarrow> Inr (None, s)
      | Some record \<Rightarrow>
          if \<not> record_matches record bucket k then Inr (None, s)
          else
            rbind (enforce_deletable s version release) (\<lambda>s.
              remove_one_version ext s bucket k version record (observed_at release)))"

definition put_object_lock_tx ::
  "catalog \<Rightarrow> BucketId \<Rightarrow> ObjectKey \<Rightarrow> VersionId \<Rightarrow> ObjectLockState \<Rightarrow> LockRelease
   \<Rightarrow> (MetadataError, ObjectLockState \<times> catalog) result" where
  "put_object_lock_tx s bucket k version requested release =
     rbind (ok_or (read_bucket s bucket) BucketNotFound) (\<lambda>bucket_record.
     rbind (ensure (object_lock bucket_record \<noteq> None) ObjectLockNotEnabled) (\<lambda>_.
     rbind (ok_or (t_get (versions s) (uuid_bytes version)) ObjectLockVersionNotFound) (\<lambda>record.
     rbind (ensure (record_matches record bucket k) ObjectLockVersionNotFound) (\<lambda>_.
     rbind (ensure (\<not> is_delete_marker record) ObjectLockVersionNotFound) (\<lambda>_.
     let current = read_object_lock s version
     in
     rbind (if \<not> change_only_tightens current requested then observe_clock s release else Inr s) (\<lambda>s.
     rbind (map_err ObjectLockChangeRefused
              (with_retention current (lock_retention requested) (observed_at release)
                 (bypass_governance release))) (\<lambda>updated.
     let updated = with_legal_hold updated (legal_hold requested)
     in Inr (updated, write_object_lock s version updated))))))))"

section \<open>Multipart uploads\<close>

definition create_multipart_upload_tx :: "catalog \<Rightarrow> MultipartUpload \<Rightarrow> (MetadataError, catalog) result" where
  "create_multipart_upload_tx s upload =
     (if read_bucket s (up_bucket upload) = None then Inl BucketNotFound
      else
        let key = uuid_bytes (up_id upload)
        in if t_get (multipart s) key \<noteq> None then Inl MultipartStateConflict
           else
             let s = s\<lparr>multipart := t_insert key upload (multipart s)\<rparr>
             in Inr (s\<lparr>multipart_order := t_insert (multipart_order_key upload) key (multipart_order s)\<rparr>))"

definition opt_part_size :: "UploadedPart option \<Rightarrow> u64" where
  "opt_part_size p = (case p of None \<Rightarrow> 0 | Some p \<Rightarrow> part_size p)"

definition put_multipart_part_tx ::
  "catalog \<Rightarrow> UploadedPart \<Rightarrow> (MetadataError, UploadedPart option \<times> catalog) result" where
  "put_multipart_part_tx s part =
     rbind (ok_or (t_get (multipart s) (uuid_bytes (part_upload part))) MultipartUploadNotFound) (\<lambda>upload.
     rbind (ensure (up_state upload = Active) MultipartStateConflict) (\<lambda>_.
     rbind (ok_or (read_bucket s (up_bucket upload)) BucketNotFound) (\<lambda>bucket.
     let key = part_key (part_upload part) (part_number part);
         previous = t_get (parts s) key;
         usage = read_bucket_usage s (up_bucket upload)
     in
     rbind (ok_or (Option.bind (checked_sub (bu_multipart_bytes usage) (opt_part_size previous))
                     (\<lambda>v. checked_add v (part_size part))) counter_error) (\<lambda>proposed.
     rbind (ensure (bytes_allow (quota_bytes (quota bucket))
                      (saturating_add (bu_version_bytes usage) proposed)) QuotaExceeded) (\<lambda>_.
     let s = s\<lparr>parts := t_insert key part (parts s)\<rparr>;
         s = write_bucket_usage s (up_bucket upload) (usage\<lparr>bu_multipart_bytes := proposed\<rparr>)
     in
     rbind (adjust_counter s MULTIPART_BYTES (uint (part_size part) - uint (opt_part_size previous))) (\<lambda>s.
     let s = (case previous of None \<Rightarrow> s | Some old \<Rightarrow> queue_cleanup s (part_object old))
     in Inr (previous, s)))))))"

definition begin_multipart_completion_tx ::
  "catalog \<Rightarrow> UploadId \<Rightarrow> ObjectId \<Rightarrow> (MetadataError, MultipartUpload \<times> catalog) result" where
  "begin_multipart_completion_tx s u object =
     rbind (ok_or (t_get (multipart s) (uuid_bytes u)) MultipartUploadNotFound) (\<lambda>upload.
     rbind (case up_state upload of
              Active \<Rightarrow> Inr (upload\<lparr>up_state := Completing object\<rparr>)
            | Completing existing \<Rightarrow>
                if existing = object then Inr upload else Inl MultipartStateConflict) (\<lambda>upload.
       Inr (upload, s\<lparr>multipart := t_insert (uuid_bytes u) upload (multipart s)\<rparr>)))"

definition bucket_name_of :: "externs \<Rightarrow> catalog \<Rightarrow> BucketId \<Rightarrow> str" where
  "bucket_name_of ext s b =
     (case read_bucket s b of None \<Rightarrow> uuid_display ext b | Some bucket \<Rightarrow> bucket_name bucket)"

fun sum_part_sizes :: "u64 \<Rightarrow> UploadedPart list \<Rightarrow> u64 option" where
  "sum_part_sizes acc [] = Some acc"
| "sum_part_sizes acc (p # ps) = Option.bind (checked_add acc (part_size p)) (\<lambda>acc. sum_part_sizes acc ps)"

definition is_completing :: "MultipartUpload \<Rightarrow> bool" where
  "is_completing upload = (case up_state upload of Completing _ \<Rightarrow> True | Active \<Rightarrow> False)"

text \<open>What the removal of an upload does once its state has been checked.\<close>

definition drop_upload ::
  "externs \<Rightarrow> catalog \<Rightarrow> UploadId \<Rightarrow> MultipartUpload \<Rightarrow> bool \<Rightarrow> datetime
   \<Rightarrow> (MetadataError, MultipartCleanupResult \<times> catalog) result" where
  "drop_upload ext s u upload require_completing at =
     (let ps = list_parts_tx s u;
         s = s\<lparr>multipart := t_remove (uuid_bytes u) (multipart s)\<rparr>;
         s = s\<lparr>multipart_order := t_remove (multipart_order_key upload) (multipart_order s)\<rparr>;
         s = s\<lparr>parts := t_remove_all (map (\<lambda>p. part_key u (part_number p)) ps) (parts s)\<rparr>
     in
     rbind (ok_or (sum_part_sizes 0 ps) counter_error) (\<lambda>freed.
     let usage = read_bucket_usage s (up_bucket upload)
     in
     rbind (ok_or (checked_sub (bu_multipart_bytes usage) freed) counter_error) (\<lambda>remaining.
     let s = write_bucket_usage s (up_bucket upload) (usage\<lparr>bu_multipart_bytes := remaining\<rparr>)
     in
     rbind (adjust_counter s MULTIPART_BYTES (- uint freed)) (\<lambda>s.
     let s = queue_cleanups s (map part_object ps)
     in
     rbind (if \<not> require_completing
            then journal_event ext s MultipartAborted (bucket_name_of ext s (up_bucket upload))
                   (Some (up_key upload)) None None at
            else Inr s) (\<lambda>s.
       Inr (\<lparr>cleanup_parts = ps\<rparr>, s))))))"

definition remove_multipart_tx ::
  "externs \<Rightarrow> catalog \<Rightarrow> UploadId \<Rightarrow> bool \<Rightarrow> datetime
   \<Rightarrow> (MetadataError, MultipartCleanupResult \<times> catalog) result" where
  "remove_multipart_tx ext s u require_completing at =
     rbind (ok_or (t_get (multipart s) (uuid_bytes u)) MultipartUploadNotFound) (\<lambda>upload.
     rbind (ensure (require_completing \<longrightarrow> is_completing upload) MultipartStateConflict) (\<lambda>_.
       drop_upload ext s u upload require_completing at))"

text \<open>The epoch, the default instant of the date library.\<close>

definition EPOCH :: datetime where "EPOCH = 0"

definition recover_one ::
  "externs \<Rightarrow> catalog \<Rightarrow> MultipartUpload \<Rightarrow> (MetadataError, UploadedPart list \<times> catalog) result" where
  "recover_one ext s upload =
     (case up_state upload of
        Active \<Rightarrow> Inr ([], s)
      | Completing object \<Rightarrow>
          let key = object_key (up_bucket upload) (up_key upload);
              committed = (case t_get (objects s) key of None \<Rightarrow> False | Some m \<Rightarrow> om_id m = object)
          in if committed
             then rbind (remove_multipart_tx ext s (up_id upload) True EPOCH) (\<lambda>(r, s).
                    Inr (cleanup_parts r, s))
             else
               let reset = upload\<lparr>up_state := Active\<rparr>
               in Inr ([], s\<lparr>multipart := t_insert (uuid_bytes (up_id reset)) reset (multipart s)\<rparr>))"

fun recover_all ::
  "externs \<Rightarrow> catalog \<Rightarrow> MultipartUpload list \<Rightarrow> (MetadataError, UploadedPart list \<times> catalog) result" where
  "recover_all ext s [] = Inr ([], s)"
| "recover_all ext s (u # us) =
     rbind (recover_one ext s u) (\<lambda>(ps, s).
     rbind (recover_all ext s us) (\<lambda>(qs, s).
       Inr (ps @ qs, s)))"

definition recover_multipart_completions_tx ::
  "externs \<Rightarrow> catalog \<Rightarrow> (MetadataError, MultipartCleanupResult \<times> catalog) result" where
  "recover_multipart_completions_tx ext s =
     rbind (recover_all ext s (filter is_completing (map snd (t_iter (multipart s))))) (\<lambda>(cleaned, s).
       Inr (\<lparr>cleanup_parts = cleaned\<rparr>, s))"

section \<open>Lifecycle rules and payload cleanup\<close>

definition put_lifecycle_rule_tx :: "catalog \<Rightarrow> LifecycleRule \<Rightarrow> (MetadataError, catalog) result" where
  "put_lifecycle_rule_tx s rule =
     rbind (map_err (\<lambda>e. MetaInvalidLifecycleRule (core_error_to_string e)) (lifecycle_rule_validate rule)) (\<lambda>_.
     rbind (ensure (read_bucket s (rule_bucket rule) \<noteq> None) BucketNotFound) (\<lambda>_.
       Inr (s\<lparr>lifecycle_rules := t_insert (uuid_bytes (rule_id rule)) rule (lifecycle_rules s)\<rparr>)))"

definition delete_lifecycle_rule_tx :: "catalog \<Rightarrow> LifecycleRuleId \<Rightarrow> (MetadataError, catalog) result" where
  "delete_lifecycle_rule_tx s r =
     (if t_get (lifecycle_rules s) (uuid_bytes r) = None then Inl LifecycleRuleNotFound
      else Inr (s\<lparr>lifecycle_rules := t_remove (uuid_bytes r) (lifecycle_rules s)\<rparr>))"

definition complete_cleanup_tx :: "catalog \<Rightarrow> ObjectId \<Rightarrow> catalog" where
  "complete_cleanup_tx s x = s\<lparr>cleanup := t_remove (uuid_bytes x) (cleanup s)\<rparr>"

section \<open>Applying a command\<close>

text \<open>Pairing the final state with the outcome of a command that produced a value.\<close>

definition outcome :: "('a \<Rightarrow> MetadataOutcome) \<Rightarrow> (MetadataError, 'a \<times> catalog) result
    \<Rightarrow> (MetadataError, MetadataOutcome \<times> catalog) result" where
  "outcome f r = rbind r (\<lambda>(x, s). Inr (f x, s))"

definition no_outcome :: "(MetadataError, catalog) result \<Rightarrow> (MetadataError, MetadataOutcome \<times> catalog) result" where
  "no_outcome r = rbind r (\<lambda>s. Inr (NoOutcome, s))"

fun apply_command_tx ::
  "externs \<Rightarrow> catalog \<Rightarrow> MetadataCommand \<Rightarrow> (MetadataError, MetadataOutcome \<times> catalog) result" where
  "apply_command_tx ext s (CreateBucket bucket) = no_outcome (create_bucket_tx ext s bucket)"
| "apply_command_tx ext s (SetBucketVersioning b state) =
     outcome BucketOutcome (update_bucket_tx s b (set_bucket_versioning state))"
| "apply_command_tx ext s (SetBucketObjectLock b configuration) =
     rbind (map_err (\<lambda>e. MetaInvalidObjectLock (core_error_to_string e))
              (lock_configuration_validate configuration)) (\<lambda>configuration.
       outcome BucketOutcome (update_bucket_tx s b (set_bucket_object_lock configuration)))"
| "apply_command_tx ext s (SetBucketQuota b q) = outcome BucketOutcome (set_bucket_quota_tx s b q)"
| "apply_command_tx ext s (SetBucketCors b configuration) =
     outcome BucketOutcome (update_bucket_tx s b (\<lambda>bucket. Inr (bucket\<lparr>cors := configuration\<rparr>)))"
| "apply_command_tx ext s (DeleteBucket name at) = outcome BucketOutcome (delete_bucket_tx ext s name at)"
| "apply_command_tx ext s (PutObject m lock origin) =
     outcome ObjectCommitOutcome (put_object_tx ext s m lock origin)"
| "apply_command_tx ext s (DeleteObject b k marker) =
     outcome DeleteObjectOutcome (delete_object_tx ext s b k marker)"
| "apply_command_tx ext s (DeleteObjectVersion b k v release) =
     outcome DeleteVersionOutcome (delete_object_version_tx ext s b k v release)"
| "apply_command_tx ext s (PutObjectLock b k v requested release) =
     outcome ObjectLockOutcome (put_object_lock_tx s b k v requested release)"
| "apply_command_tx ext s (ObserveClock release) = no_outcome (observe_clock s release)"
| "apply_command_tx ext s (CreateMultipartUpload upload) = no_outcome (create_multipart_upload_tx s upload)"
| "apply_command_tx ext s (PutMultipartPart part) =
     outcome ReplacedPartOutcome (put_multipart_part_tx s part)"
| "apply_command_tx ext s (BeginMultipartCompletion u object) =
     outcome MultipartUploadOutcome (begin_multipart_completion_tx s u object)"
| "apply_command_tx ext s (FinishMultipartUpload u) =
     outcome MultipartCleanupOutcome (remove_multipart_tx ext s u True EPOCH)"
| "apply_command_tx ext s (AbortMultipartUpload u at) =
     outcome MultipartCleanupOutcome (remove_multipart_tx ext s u False at)"
| "apply_command_tx ext s RecoverMultipartCompletions =
     outcome MultipartCleanupOutcome (recover_multipart_completions_tx ext s)"
| "apply_command_tx ext s (PutLifecycleRule rule) = no_outcome (put_lifecycle_rule_tx s rule)"
| "apply_command_tx ext s (DeleteLifecycleRule r) = no_outcome (delete_lifecycle_rule_tx s r)"
| "apply_command_tx ext s (CompleteCleanup x) = Inr (NoOutcome, complete_cleanup_tx s x)"
| "apply_command_tx ext s (PruneMutationEvents n) = Inr (NoOutcome, snd (prune_mutation_events_tx s n))"

end
