(* ===== verification/Effects.thy ===== *)
theory Effects
  imports Commands
begin

text \<open>
  What the commands do to the catalog, read off their definitions: the effect of each command on the
  index tables as a composition of four primitive steps (hide the current version of a key, drop a
  version, add a version, publish one), and its effect on the usage records and the counters. The
  invariants are proved over these effects.
\<close>

section \<open>Counters\<close>

lemma counter_names [simp]:
  "OBJECT_COUNT \<noteq> BUCKET_COUNT" "OBJECT_COUNT \<noteq> LOGICAL_BYTES" "OBJECT_COUNT \<noteq> VERSION_COUNT"
  "OBJECT_COUNT \<noteq> VERSION_BYTES" "OBJECT_COUNT \<noteq> PHYSICAL_BYTES" "OBJECT_COUNT \<noteq> MULTIPART_BYTES"
  "OBJECT_COUNT \<noteq> MUTATION_EVENT_SEQUENCE"
  "BUCKET_COUNT \<noteq> LOGICAL_BYTES" "BUCKET_COUNT \<noteq> VERSION_COUNT" "BUCKET_COUNT \<noteq> VERSION_BYTES"
  "BUCKET_COUNT \<noteq> PHYSICAL_BYTES" "BUCKET_COUNT \<noteq> MULTIPART_BYTES" "BUCKET_COUNT \<noteq> MUTATION_EVENT_SEQUENCE"
  "LOGICAL_BYTES \<noteq> VERSION_COUNT" "LOGICAL_BYTES \<noteq> VERSION_BYTES" "LOGICAL_BYTES \<noteq> PHYSICAL_BYTES"
  "LOGICAL_BYTES \<noteq> MULTIPART_BYTES" "LOGICAL_BYTES \<noteq> MUTATION_EVENT_SEQUENCE"
  "VERSION_COUNT \<noteq> VERSION_BYTES" "VERSION_COUNT \<noteq> PHYSICAL_BYTES" "VERSION_COUNT \<noteq> MULTIPART_BYTES"
  "VERSION_COUNT \<noteq> MUTATION_EVENT_SEQUENCE"
  "VERSION_BYTES \<noteq> PHYSICAL_BYTES" "VERSION_BYTES \<noteq> MULTIPART_BYTES" "VERSION_BYTES \<noteq> MUTATION_EVENT_SEQUENCE"
  "PHYSICAL_BYTES \<noteq> MULTIPART_BYTES" "PHYSICAL_BYTES \<noteq> MUTATION_EVENT_SEQUENCE"
  "MULTIPART_BYTES \<noteq> MUTATION_EVENT_SEQUENCE"
  unfolding OBJECT_COUNT_def BUCKET_COUNT_def LOGICAL_BYTES_def VERSION_COUNT_def VERSION_BYTES_def
    PHYSICAL_BYTES_def MULTIPART_BYTES_def MUTATION_EVENT_SEQUENCE_def
  by (simp_all add: lit_def)

lemmas counter_names_sym [simp] = counter_names [symmetric]

text \<open>The value of a counter as a number, and what the two writers of the counters table do to it.\<close>

definition ctr :: "catalog \<Rightarrow> str \<Rightarrow> int" where
  "ctr s name = uint (read_counter s name)"

lemma ctr_bounds: "0 \<le> ctr s name" "ctr s name < 2 ^ 64"
  using uint_lt2p [of "read_counter s name"] by (simp_all add: ctr_def)

definition set_ctr :: "catalog \<Rightarrow> str \<Rightarrow> int \<Rightarrow> catalog" where
  "set_ctr s name v = s\<lparr>counters := t_insert name (word_of_int v) (counters s)\<rparr>"

lemma ctr_set_ctr: "0 \<le> v \<Longrightarrow> v < 2 ^ 64 \<Longrightarrow> ctr (set_ctr s name v) name' = (if name' = name then v else ctr s name')"
  by (simp add: ctr_def set_ctr_def read_counter_def unsigned_of_int take_bit_int_eq_self)

lemma post_adjust_counter [result_simps]:
  "post (adjust_counter s name d) Q \<longleftrightarrow>
     (0 \<le> ctr s name + d \<and> ctr s name + d < 2 ^ 64 \<longrightarrow> Q (set_ctr s name (ctr s name + d)))"
  by (auto simp: adjust_counter_def Let_def post_def ctr_def set_ctr_def)

section \<open>The part of the catalog that is not bookkeeping\<close>

definition core :: "catalog \<Rightarrow> catalog" where
  "core s = s\<lparr>cleanup := t_empty, bucket_usage := t_empty, mutation_events := t_empty, counters := t_empty, clock := t_empty\<rparr>"

lemma core_fields [simp]:
  "buckets (core s) = buckets s" "bucket_names (core s) = bucket_names s" "objects (core s) = objects s"
  "markers (core s) = markers s" "versions (core s) = versions s" "version_order (core s) = version_order s"
  "null_versions (core s) = null_versions s" "multipart (core s) = multipart s"
  "multipart_order (core s) = multipart_order s" "parts (core s) = parts s"
  "lifecycle_rules (core s) = lifecycle_rules s" "object_locks (core s) = object_locks s"
  by (simp_all add: core_def)

lemma core_bookkeeping [simp]:
  "core (s\<lparr>cleanup := x1\<rparr>) = core s" "core (s\<lparr>bucket_usage := x2\<rparr>) = core s"
  "core (s\<lparr>mutation_events := x3\<rparr>) = core s" "core (s\<lparr>counters := x4\<rparr>) = core s"
  "core (s\<lparr>clock := x5\<rparr>) = core s" "core (set_ctr s n v) = core s" "core (core s) = core s"
  by (simp_all add: core_def set_ctr_def)

lemma core_eqI:
  assumes "buckets s = buckets t" "bucket_names s = bucket_names t" "objects s = objects t"
    "markers s = markers t" "versions s = versions t" "version_order s = version_order t"
    "null_versions s = null_versions t" "multipart s = multipart t" "multipart_order s = multipart_order t"
    "parts s = parts t" "lifecycle_rules s = lifecycle_rules t" "object_locks s = object_locks t"
  shows "core s = core t"
  using assms by (simp add: core_def)

lemma core_eqD:
  assumes "core s = core t"
  shows "buckets s = buckets t" "bucket_names s = bucket_names t" "objects s = objects t"
    "markers s = markers t" "versions s = versions t" "version_order s = version_order t"
    "null_versions s = null_versions t" "multipart s = multipart t" "multipart_order s = multipart_order t"
    "parts s = parts t" "lifecycle_rules s = lifecycle_rules t" "object_locks s = object_locks t"
  using assms core_fields by metis+

lemma set_ctr_fields [simp]:
  "bucket_usage (set_ctr s n v) = bucket_usage s" "cleanup (set_ctr s n v) = cleanup s"
  "mutation_events (set_ctr s n v) = mutation_events s" "clock (set_ctr s n v) = clock s"
  "buckets (set_ctr s n v) = buckets s" "bucket_names (set_ctr s n v) = bucket_names s"
  "objects (set_ctr s n v) = objects s" "markers (set_ctr s n v) = markers s"
  "versions (set_ctr s n v) = versions s" "version_order (set_ctr s n v) = version_order s"
  "null_versions (set_ctr s n v) = null_versions s" "multipart (set_ctr s n v) = multipart s"
  "multipart_order (set_ctr s n v) = multipart_order s" "parts (set_ctr s n v) = parts s"
  "lifecycle_rules (set_ctr s n v) = lifecycle_rules s" "object_locks (set_ctr s n v) = object_locks s"
  by (simp_all add: set_ctr_def)

lemma ctr_frame [simp]:
  "ctr (s\<lparr>buckets := x1\<rparr>) n = ctr s n" "ctr (s\<lparr>bucket_names := x2\<rparr>) n = ctr s n"
  "ctr (s\<lparr>objects := x3\<rparr>) n = ctr s n" "ctr (s\<lparr>markers := x4\<rparr>) n = ctr s n"
  "ctr (s\<lparr>versions := x5\<rparr>) n = ctr s n" "ctr (s\<lparr>version_order := x6\<rparr>) n = ctr s n"
  "ctr (s\<lparr>null_versions := x6\<rparr>) n = ctr s n" "ctr (s\<lparr>multipart := x7\<rparr>) n = ctr s n"
  "ctr (s\<lparr>multipart_order := x8\<rparr>) n = ctr s n" "ctr (s\<lparr>parts := x9\<rparr>) n = ctr s n"
  "ctr (s\<lparr>cleanup := x10\<rparr>) n = ctr s n" "ctr (s\<lparr>bucket_usage := x11\<rparr>) n = ctr s n"
  "ctr (s\<lparr>lifecycle_rules := x12\<rparr>) n = ctr s n" "ctr (s\<lparr>object_locks := x13\<rparr>) n = ctr s n"
  "ctr (s\<lparr>mutation_events := x14\<rparr>) n = ctr s n" "ctr (s\<lparr>clock := x15\<rparr>) n = ctr s n"
  by (simp_all add: ctr_def read_counter_def)

section \<open>The journal\<close>

text \<open>
  The journal holds the events with the sequence numbers after some point up to the counter, without a
  gap, each under its own number and with the identifier derived from its contents.
\<close>

definition event_id_derived :: "externs \<Rightarrow> MutationEvent \<Rightarrow> bool" where
  "event_id_derived ext e \<longleftrightarrow>
     ev_id e = derive_id (new_v5 ext) (ev_sequence e) (ev_type e) (ev_occurred_at e) (ev_bucket e) (ev_key e) (ev_version e)"

definition journal_from :: "externs \<Rightarrow> int \<Rightarrow> catalog \<Rightarrow> bool" where
  "journal_from ext lo s \<longleftrightarrow>
     lo \<le> ctr s MUTATION_EVENT_SEQUENCE
     \<and> (\<forall>n. t_get (mutation_events s) n \<noteq> None \<longleftrightarrow> lo < uint n \<and> uint n \<le> ctr s MUTATION_EVENT_SEQUENCE)
     \<and> (\<forall>n e. t_get (mutation_events s) n = Some e \<longrightarrow> ev_sequence e = n \<and> event_id_derived ext e)"

lemma journal_from_cong:
  "mutation_events s' = mutation_events s \<Longrightarrow> ctr s' MUTATION_EVENT_SEQUENCE = ctr s MUTATION_EVENT_SEQUENCE
     \<Longrightarrow> journal_from ext lo s' = journal_from ext lo s"
  by (simp add: journal_from_def)

lemma checked_succ: "checked_add c 1 = (if uint c + 1 < 2 ^ 64 then Some (c + 1) else None)" for c :: u64
proof -
  have "int (unat c + unat (1 :: u64)) < int (2 ^ LENGTH(64)) \<longleftrightarrow> uint c + 1 < 2 ^ 64" by simp
  then show ?thesis by (simp only: checked_add_def of_nat_less_iff)
qed

lemma uint_succ: "uint c + 1 < 2 ^ 64 \<Longrightarrow> uint (c + 1) = uint c + 1" for c :: u64
  by (simp add: uint_word_ariths)

definition log_event ::
  "externs \<Rightarrow> catalog \<Rightarrow> StorageEventType \<Rightarrow> str \<Rightarrow> str option \<Rightarrow> VersionId option \<Rightarrow> u64 option
   \<Rightarrow> datetime \<Rightarrow> catalog" where
  "log_event ext s ty bucket key v sz at =
     (let n = read_counter s MUTATION_EVENT_SEQUENCE + 1
      in s\<lparr>counters := t_insert MUTATION_EVENT_SEQUENCE n (counters s),
           mutation_events := t_insert n \<lparr>ev_sequence = n, ev_id = derive_id (new_v5 ext) n ty at bucket key v,
             ev_type = ty, ev_occurred_at = at, ev_bucket = bucket, ev_key = key, ev_version = v, ev_size = sz\<rparr>
           (mutation_events s)\<rparr>)"

lemma post_journal_event [result_simps]:
  "post (journal_event ext s ty bucket key v sz at) Q \<longleftrightarrow>
     (ctr s MUTATION_EVENT_SEQUENCE + 1 < 2 ^ 64 \<longrightarrow> Q (log_event ext s ty bucket key v sz at))"
  unfolding journal_event_def log_event_def Let_def post_rbind post_ok_or post_Inr checked_succ ctr_def
  by (auto split: if_splits)

lemma log_event_journal:
  assumes "journal_from ext lo s" and fits: "ctr s MUTATION_EVENT_SEQUENCE + 1 < 2 ^ 64"
  shows "journal_from ext lo (log_event ext s ty bucket key v sz at)"
    and "ctr (log_event ext s ty bucket key v sz at) MUTATION_EVENT_SEQUENCE = ctr s MUTATION_EVENT_SEQUENCE + 1"
proof -
  let ?c = "read_counter s MUTATION_EVENT_SEQUENCE" and ?t = "log_event ext s ty bucket key v sz at"
  have u: "uint (?c + 1) = uint ?c + 1" using fits by (intro uint_succ) (simp only: ctr_def)
  show c: "ctr ?t MUTATION_EVENT_SEQUENCE = ctr s MUTATION_EVENT_SEQUENCE + 1"
    using u by (simp only: ctr_def) (simp add: log_event_def Let_def read_counter_def)
  have "uint n \<le> uint ?c + 1 \<longleftrightarrow> n = ?c + 1 \<or> uint n \<le> uint ?c" for n
    using u by (auto simp: word_uint_eq_iff)
  with assms(1) u show "journal_from ext lo ?t"
    unfolding journal_from_def c unfolding ctr_def
    by (auto simp: log_event_def Let_def event_id_derived_def)
qed

section \<open>The effect of a command\<close>

text \<open>
  \<open>moved ext s c u d q s'\<close>: from \<open>s\<close> to \<open>s'\<close> the index tables became those of \<open>c\<close>, the usage table became
  \<open>u\<close>, the counters moved by \<open>d\<close>, the payloads \<open>q\<close> were queued for cleanup, events were only appended to the
  journal, and the clock mark stayed. The rules follow the operations a transaction is made of.
\<close>

definition moved ::
  "externs \<Rightarrow> catalog \<Rightarrow> catalog \<Rightarrow> (bytes, BucketUsage) table \<Rightarrow> (str \<Rightarrow> int) \<Rightarrow> ObjectId set \<Rightarrow> catalog \<Rightarrow> bool" where
  "moved ext s c u d q s' \<longleftrightarrow>
     core s' = core c \<and> bucket_usage s' = u \<and> clock s' = clock s
     \<and> (\<forall>n. n \<noteq> MUTATION_EVENT_SEQUENCE \<longrightarrow> ctr s' n = ctr s n + d n)
     \<and> (\<forall>x. t_get (cleanup s') x = (if x \<in> uuid_bytes ` q then Some 1 else t_get (cleanup s) x))
     \<and> (\<forall>lo. journal_from ext lo s \<longrightarrow> journal_from ext lo s')"

abbreviation no_delta :: "str \<Rightarrow> int" where
  "no_delta \<equiv> \<lambda>_. 0"

lemma moved_refl: "moved ext s s (bucket_usage s) no_delta {} s"
  by (simp add: moved_def)

lemma moved_index:
  assumes "moved ext s c u d q t" and "core t' = core c'" and "bucket_usage t' = u'"
    and "clock t' = clock t" "counters t' = counters t" "cleanup t' = cleanup t" "mutation_events t' = mutation_events t"
  shows "moved ext s c' u' d q t'"
proof -
  have c: "ctr t' = ctr t" using assms(5) by (simp add: ctr_def read_counter_def fun_eq_iff)
  have "journal_from ext lo t' = journal_from ext lo t" for lo
    by (rule journal_from_cong) (simp_all add: assms c)
  with assms c show ?thesis
    unfolding moved_def by simp
qed

lemmas moved_start = moved_index [OF moved_refl]

lemma moved_adjust:
  assumes "moved ext s c u d q t" and "name \<noteq> MUTATION_EVENT_SEQUENCE"
    and "\<And>t'. moved ext s c u (d(name := d name + k)) q t' \<Longrightarrow> Q t'"
  shows "post (adjust_counter t name k) Q"
  unfolding post_adjust_counter
proof
  assume v: "0 \<le> ctr t name + k \<and> ctr t name + k < 2 ^ 64"
  let ?t = "set_ctr t name (ctr t name + k)"
  have c: "ctr ?t n = (if n = name then ctr t name + k else ctr t n)" for n
    using v by (intro ctr_set_ctr) simp_all
  have "journal_from ext lo ?t = journal_from ext lo t" for lo
    using assms(2) by (intro journal_from_cong) (simp_all add: c)
  with assms(1) c show "Q ?t"
    by (intro assms(3)) (auto simp: moved_def)
qed

lemma moved_journal:
  assumes "moved ext s c u d q t" and "\<And>t'. moved ext s c u d q t' \<Longrightarrow> Q t'"
  shows "post (journal_event ext t ty b k v sz at) Q"
  unfolding post_journal_event
proof
  assume fits: "ctr t MUTATION_EVENT_SEQUENCE + 1 < 2 ^ 64"
  let ?t = "log_event ext t ty b k v sz at"
  have "ctr ?t n = ctr t n" if "n \<noteq> MUTATION_EVENT_SEQUENCE" for n
    using that by (simp add: log_event_def Let_def ctr_def read_counter_def)
  moreover have "core ?t = core t" "bucket_usage ?t = bucket_usage t" "clock ?t = clock t" "cleanup ?t = cleanup t"
    by (simp_all add: log_event_def Let_def)
  ultimately have "moved ext s c u d q ?t"
    using assms(1) log_event_journal(1) [OF _ fits, of ext] unfolding moved_def by simp
  then show "Q ?t" by (rule assms(2))
qed

lemma moved_journal_events:
  assumes "moved ext s c u d q t" and "\<And>t'. moved ext s c u d q t' \<Longrightarrow> Q t'"
  shows "post (journal_events ext t es b k v sz at) Q"
  using assms(1)
proof (induction es arbitrary: t)
  case Nil
  then show ?case by (simp add: post_Inr assms(2))
next
  case (Cons e es)
  then show ?case by (simp add: post_rbind) (rule moved_journal)
qed

lemma moved_queue:
  assumes "moved ext s c u d q t"
  shows "moved ext s c u d (insert x q) (queue_cleanup t x)"
proof -
  let ?t = "queue_cleanup t x"
  have "journal_from ext lo ?t = journal_from ext lo t" for lo
    by (rule journal_from_cong) (simp_all add: queue_cleanup_def)
  with assms show ?thesis
    unfolding moved_def by (simp add: queue_cleanup_def)
qed

lemma moved_queues:
  "moved ext s c u d q t \<Longrightarrow> moved ext s c u d (set xs \<union> q) (queue_cleanups t xs)"
proof (induction xs arbitrary: t q)
  case (Cons x xs)
  from Cons.IH [OF moved_queue [OF Cons.prems]] show ?case by simp
qed simp

lemma moved_usage:
  assumes "moved ext s c u d q t"
  shows "moved ext s c (t_insert (bucket_key b) w u) d q (write_bucket_usage t b w)"
proof (rule moved_index [OF assms])
  from assms show "core (write_bucket_usage t b w) = core c"
    "bucket_usage (write_bucket_usage t b w) = t_insert (bucket_key b) w u"
    by (simp_all add: moved_def write_bucket_usage_def)
qed (simp_all add: write_bucket_usage_def)

lemma movedD:
  assumes "moved ext s c u d q s'"
  shows "core s' = core c" "bucket_usage s' = u" "clock s' = clock s"
    "n \<noteq> MUTATION_EVENT_SEQUENCE \<Longrightarrow> ctr s' n = ctr s n + d n"
    "t_get (cleanup s') x = (if x \<in> uuid_bytes ` q then Some 1 else t_get (cleanup s) x)"
    "journal_from ext lo s \<Longrightarrow> journal_from ext lo s'"
  using assms unfolding moved_def by blast+

end
