(* ===== verification/Index.thy ===== *)
theory Index
  imports Effects
begin

text \<open>
  The structural invariant of the catalog: the tables that index the same versions, buckets and uploads
  agree with each other, a lock is held only by an object version of a bucket with Object Lock, and such
  a bucket keeps versioning and has no null version. Every command preserves it
  (\<open>index_preserved\<close>), for commands with fresh version identifiers and accepted object keys.
\<close>

section \<open>The invariant\<close>

abbreviation ver :: "catalog \<Rightarrow> VersionId \<Rightarrow> ObjectVersionRecord option" where
  "ver s v \<equiv> t_get (versions s) (uuid_bytes v)"

definition rec_object_key :: "ObjectVersionRecord \<Rightarrow> bytes" where
  "rec_object_key r = object_key (rec_bucket r) (rec_key r)"

definition versions_keyed :: "catalog \<Rightarrow> bool" where
  "versions_keyed s \<longleftrightarrow>
     (\<forall>k r. t_get (versions s) k = Some r \<longrightarrow> k = uuid_bytes (rec_version_id r) \<and> 0 \<notin> set (rec_key r))"

definition order_indexed :: "catalog \<Rightarrow> bool" where
  "order_indexed s \<longleftrightarrow>
     (\<forall>x v. t_get (version_order s) x = Some v \<longleftrightarrow> (\<exists>r. t_get (versions s) v = Some r \<and> x = version_order_key r))"

definition null_indexed :: "catalog \<Rightarrow> bool" where
  "null_indexed s \<longleftrightarrow>
     (\<forall>x v. t_get (null_versions s) x = Some v \<longleftrightarrow>
        (\<exists>r. t_get (versions s) v = Some r \<and> rec_is_null r \<and> x = rec_object_key r))"

definition current_recorded :: "catalog \<Rightarrow> bool" where
  "current_recorded s \<longleftrightarrow>
     (\<forall>x m. t_get (objects s) x = Some m \<longrightarrow>
        (\<exists>n. ver s (om_version m) = Some (ObjectRecord m n)) \<and> x = object_key (om_bucket m) (om_key m)
        \<and> t_get (markers s) x = None)
     \<and> (\<forall>x d. t_get (markers s) x = Some d \<longrightarrow>
        (\<exists>n. ver s (dm_version d) = Some (MarkerRecord d n)) \<and> x = object_key (dm_bucket d) (dm_key d))"

definition buckets_indexed :: "catalog \<Rightarrow> bool" where
  "buckets_indexed s \<longleftrightarrow>
     (\<forall>x b. t_get (buckets s) x = Some b \<longrightarrow>
        x = bucket_key (bucket_id b) \<and> bucket_id b \<noteq> - 1 \<and> t_get (bucket_names s) (bucket_name b) = Some b)
     \<and> (\<forall>x b. t_get (bucket_names s) x = Some b \<longrightarrow>
        x = bucket_name b \<and> t_get (buckets s) (bucket_key (bucket_id b)) = Some b)"

definition lock_versioned :: "catalog \<Rightarrow> bool" where
  "lock_versioned s \<longleftrightarrow>
     (\<forall>i b. read_bucket s i = Some b \<and> object_lock b \<noteq> None \<longrightarrow>
        versioning b = Enabled \<and> (\<forall>x r. t_get (versions s) x = Some r \<and> rec_bucket r = i \<longrightarrow> \<not> rec_is_null r))"

definition locks_held :: "catalog \<Rightarrow> bool" where
  "locks_held s \<longleftrightarrow>
     (\<forall>x l. t_get (object_locks s) x = Some l \<longrightarrow> \<not> is_unlocked l
        \<and> (\<exists>m n b. t_get (versions s) x = Some (ObjectRecord m n)
             \<and> read_bucket s (om_bucket m) = Some b \<and> object_lock b \<noteq> None))"

definition versions_owned :: "catalog \<Rightarrow> bool" where
  "versions_owned s \<longleftrightarrow> (\<forall>x r. t_get (versions s) x = Some r \<longrightarrow> read_bucket s (rec_bucket r) \<noteq> None)"

definition uploads_indexed :: "catalog \<Rightarrow> bool" where
  "uploads_indexed s \<longleftrightarrow>
     (\<forall>x u. t_get (multipart s) x = Some u \<longrightarrow>
        x = uuid_bytes (up_id u) \<and> up_id u \<noteq> - 1 \<and> read_bucket s (up_bucket u) \<noteq> None)
     \<and> (\<forall>x v. t_get (multipart_order s) x = Some v \<longleftrightarrow>
          (\<exists>u. t_get (multipart s) v = Some u \<and> x = multipart_order_key u))
     \<and> (\<forall>x p. t_get (parts s) x = Some p \<longrightarrow>
          x = part_key (part_upload p) (part_number p) \<and> t_get (multipart s) (uuid_bytes (part_upload p)) \<noteq> None)"

definition rules_owned :: "catalog \<Rightarrow> bool" where
  "rules_owned s \<longleftrightarrow>
     (\<forall>x r. t_get (lifecycle_rules s) x = Some r \<longrightarrow>
        x = uuid_bytes (rule_id r) \<and> read_bucket s (rule_bucket r) \<noteq> None)"

definition index_inv :: "catalog \<Rightarrow> bool" where
  "index_inv s \<longleftrightarrow> versions_keyed s \<and> order_indexed s \<and> null_indexed s \<and> current_recorded s
     \<and> buckets_indexed s \<and> lock_versioned s \<and> locks_held s \<and> versions_owned s \<and> uploads_indexed s \<and> rules_owned s"

lemma index_invD:
  assumes "index_inv s"
  shows "versions_keyed s" "order_indexed s" "null_indexed s" "current_recorded s" "buckets_indexed s"
    "lock_versioned s" "locks_held s" "versions_owned s" "uploads_indexed s" "rules_owned s"
  using assms by (simp_all add: index_inv_def)

lemma version_keyedD: "index_inv s \<Longrightarrow> t_get (versions s) x = Some r \<Longrightarrow> x = uuid_bytes (rec_version_id r) \<and> 0 \<notin> set (rec_key r)"
  by (drule index_invD(1)) (simp add: versions_keyed_def)

lemma version_orderD:
  "index_inv s \<Longrightarrow> t_get (version_order s) x = Some v \<longleftrightarrow> (\<exists>r. t_get (versions s) v = Some r \<and> x = version_order_key r)"
  by (drule index_invD(2)) (simp add: order_indexed_def)

lemma null_versionD:
  "index_inv s \<Longrightarrow> t_get (null_versions s) x = Some v \<longleftrightarrow>
     (\<exists>r. t_get (versions s) v = Some r \<and> rec_is_null r \<and> x = rec_object_key r)"
  by (drule index_invD(3)) (simp add: null_indexed_def)

lemma current_objectD:
  "index_inv s \<Longrightarrow> t_get (objects s) x = Some m \<Longrightarrow>
     (\<exists>n. ver s (om_version m) = Some (ObjectRecord m n)) \<and> x = object_key (om_bucket m) (om_key m) \<and> t_get (markers s) x = None"
  by (drule index_invD(4)) (simp add: current_recorded_def)

lemma current_markerD:
  assumes "index_inv s" and "t_get (markers s) x = Some d"
  shows "(\<exists>n. ver s (dm_version d) = Some (MarkerRecord d n)) \<and> x = object_key (dm_bucket d) (dm_key d) \<and> t_get (objects s) x = None"
  using assms index_invD(4) [OF assms(1)] current_objectD [OF assms(1), of x]
  by (cases "t_get (objects s) x") (auto simp: current_recorded_def)

lemma bucketD:
  assumes "index_inv s" and "read_bucket s i = Some b"
  shows "bucket_id b = i" "i \<noteq> - 1" "t_get (bucket_names s) (bucket_name b) = Some b"
    "object_lock b \<noteq> None \<Longrightarrow> versioning b = Enabled"
proof -
  have "t_get (buckets s) (bucket_key i) = Some b" using assms(2) by (simp add: read_bucket_def)
  with index_invD(5) [OF assms(1)] have "bucket_key i = bucket_key (bucket_id b) \<and> bucket_id b \<noteq> - 1
      \<and> t_get (bucket_names s) (bucket_name b) = Some b"
    unfolding buckets_indexed_def by blast
  then show "bucket_id b = i" "i \<noteq> - 1" "t_get (bucket_names s) (bucket_name b) = Some b" by auto
  show "object_lock b \<noteq> None \<Longrightarrow> versioning b = Enabled"
    using index_invD(6) [OF assms(1)] assms(2) by (simp add: lock_versioned_def)
qed

lemma lock_bucket_not_null:
  "index_inv s \<Longrightarrow> read_bucket s (rec_bucket r) = Some b \<Longrightarrow> object_lock b \<noteq> None \<Longrightarrow> t_get (versions s) x = Some r
     \<Longrightarrow> \<not> rec_is_null r"
  by (drule index_invD(6)) (simp add: lock_versioned_def)

lemma lock_heldD:
  "index_inv s \<Longrightarrow> t_get (object_locks s) x = Some l \<Longrightarrow> \<not> is_unlocked l
     \<and> (\<exists>m n b. t_get (versions s) x = Some (ObjectRecord m n) \<and> read_bucket s (om_bucket m) = Some b \<and> object_lock b \<noteq> None)"
  by (drule index_invD(7)) (simp add: locks_held_def)

lemmas index_parts = versions_keyed_def order_indexed_def null_indexed_def current_recorded_def
  buckets_indexed_def lock_versioned_def locks_held_def versions_owned_def uploads_indexed_def rules_owned_def

lemma index_inv_empty: "index_inv empty_catalog"
  by (simp add: index_inv_def index_parts empty_catalog_def read_bucket_def)

lemma index_inv_cong:
  assumes "core s = core t"
  shows "index_inv s \<longleftrightarrow> index_inv t"
  by (simp only: index_inv_def index_parts read_bucket_def core_eqD [OF assms])

section \<open>The four steps of the object commands\<close>

definition hide :: "catalog \<Rightarrow> bytes \<Rightarrow> catalog" where
  "hide s x = s\<lparr>objects := t_remove x (objects s), markers := t_remove x (markers s)\<rparr>"

definition drop_record :: "catalog \<Rightarrow> ObjectVersionRecord \<Rightarrow> catalog" where
  "drop_record s r = s\<lparr>versions := t_remove (uuid_bytes (rec_version_id r)) (versions s),
     version_order := t_remove (version_order_key r) (version_order s),
     object_locks := t_remove (lock_key (rec_version_id r)) (object_locks s),
     null_versions := (if rec_is_null r then t_remove (rec_object_key r) (null_versions s) else null_versions s)\<rparr>"

definition add_record :: "catalog \<Rightarrow> ObjectVersionRecord \<Rightarrow> catalog" where
  "add_record s r = s\<lparr>versions := t_insert (uuid_bytes (rec_version_id r)) r (versions s),
     version_order := t_insert (version_order_key r) (uuid_bytes (rec_version_id r)) (version_order s),
     null_versions := (if rec_is_null r
        then t_insert (rec_object_key r) (uuid_bytes (rec_version_id r)) (null_versions s) else null_versions s)\<rparr>"

lemma hide_frame [simp]:
  "versions (hide s x) = versions s" "version_order (hide s x) = version_order s"
  "null_versions (hide s x) = null_versions s" "object_locks (hide s x) = object_locks s"
  "buckets (hide s x) = buckets s" "bucket_names (hide s x) = bucket_names s"
  "multipart (hide s x) = multipart s" "multipart_order (hide s x) = multipart_order s"
  "parts (hide s x) = parts s" "lifecycle_rules (hide s x) = lifecycle_rules s"
  by (simp_all add: hide_def)

lemma drop_record_frame [simp]:
  "objects (drop_record s r) = objects s" "markers (drop_record s r) = markers s"
  "buckets (drop_record s r) = buckets s" "bucket_names (drop_record s r) = bucket_names s"
  "multipart (drop_record s r) = multipart s" "multipart_order (drop_record s r) = multipart_order s"
  "parts (drop_record s r) = parts s" "lifecycle_rules (drop_record s r) = lifecycle_rules s"
  "versions (drop_record s r) = t_remove (uuid_bytes (rec_version_id r)) (versions s)"
  by (simp_all add: drop_record_def)

lemma add_record_frame [simp]:
  "objects (add_record s r) = objects s" "markers (add_record s r) = markers s"
  "buckets (add_record s r) = buckets s" "bucket_names (add_record s r) = bucket_names s"
  "multipart (add_record s r) = multipart s" "multipart_order (add_record s r) = multipart_order s"
  "parts (add_record s r) = parts s" "lifecycle_rules (add_record s r) = lifecycle_rules s"
  "object_locks (add_record s r) = object_locks s"
  "versions (add_record s r) = t_insert (uuid_bytes (rec_version_id r)) r (versions s)"
  by (simp_all add: add_record_def)

lemma read_bucket_cong: "buckets s = buckets t \<Longrightarrow> read_bucket s = read_bucket t"
  by (simp add: read_bucket_def fun_eq_iff)

lemma read_bucket_steps [simp]:
  "read_bucket (hide s x) = read_bucket s" "read_bucket (drop_record s r) = read_bucket s"
  "read_bucket (add_record s r) = read_bucket s"
  by (rule read_bucket_cong, simp)+

lemma index_current:
  assumes inv: "index_inv s" and cur: "current_recorded t"
    and same: "core (t\<lparr>objects := t_empty, markers := t_empty\<rparr>) = core (s\<lparr>objects := t_empty, markers := t_empty\<rparr>)"
  shows "index_inv t"
proof -
  from core_eqD [OF same] have E: "buckets t = buckets s" "bucket_names t = bucket_names s" "versions t = versions s"
    "version_order t = version_order s" "null_versions t = null_versions s" "multipart t = multipart s"
    "multipart_order t = multipart_order s" "parts t = parts s" "lifecycle_rules t = lifecycle_rules s"
    "object_locks t = object_locks s" by simp_all
  have "versions_keyed t = versions_keyed s" "order_indexed t = order_indexed s" "null_indexed t = null_indexed s"
    "buckets_indexed t = buckets_indexed s" "lock_versioned t = lock_versioned s" "locks_held t = locks_held s"
    "versions_owned t = versions_owned s" "uploads_indexed t = uploads_indexed s" "rules_owned t = rules_owned s"
    by (simp_all only: index_parts read_bucket_def E)
  with index_invD [OF inv] cur show ?thesis by (simp add: index_inv_def)
qed

lemma index_hide:
  assumes "index_inv s"
  shows "index_inv (hide s x)"
proof (rule index_current [OF assms])
  show "current_recorded (hide s x)"
    using index_invD(4) [OF assms] by (auto simp: current_recorded_def hide_def)
qed (rule core_eqI; simp add: hide_def)

text \<open>Publishing a recorded version where nothing is current.\<close>

lemma index_publish:
  assumes inv: "index_inv s" and r: "ver s (rec_version_id r) = Some r"
    and free: "t_get (objects s) (rec_object_key r) = None" "t_get (markers s) (rec_object_key r) = None"
  shows "index_inv (publish_current s (rec_object_key r) r)"
proof (rule index_current [OF inv])
  show "current_recorded (publish_current s (rec_object_key r) r)"
    using index_invD(4) [OF inv] r free
    by (cases r) (auto simp: current_recorded_def rec_object_key_def)
qed (rule core_eqI; cases r; simp)

lemma index_drop:
  assumes inv: "index_inv s" and r: "ver s (rec_version_id r) = Some r"
    and nc: "current_version s (rec_object_key r) \<noteq> Some (rec_version_id r)"
  shows "index_inv (drop_record s r)"
proof -
  note I = index_invD [OF inv]
  let ?t = "drop_record s r"
  have keyed: "t_get (versions s) v = Some q \<Longrightarrow> v = uuid_bytes (rec_version_id q)" for v q
    using version_keyedD [OF inv] by blast
  have "versions_keyed ?t"
    using I(1) by (auto simp: versions_keyed_def)
  moreover have "order_indexed ?t"
    unfolding order_indexed_def using r
    by (auto simp: drop_record_def version_orderD [OF inv] dest: keyed dest!: version_order_key_version)
  moreover have "null_indexed ?t"
  proof -
    have nr: "t_get (null_versions s) (rec_object_key r) = Some (uuid_bytes (rec_version_id r))" if "rec_is_null r"
      using null_versionD [OF inv] r that by blast
    have rn: "t_get (null_versions s) x \<noteq> Some (uuid_bytes (rec_version_id r))"
      if "x \<noteq> rec_object_key r \<or> \<not> rec_is_null r" for x
      using null_versionD [OF inv] r that by auto
    have "t_get (null_versions ?t) x = Some v \<longleftrightarrow>
        t_get (null_versions s) x = Some v \<and> v \<noteq> uuid_bytes (rec_version_id r)" for x v
      using nr rn [of x] by (cases "rec_is_null r") (auto simp: drop_record_def)
    then show ?thesis
      unfolding null_indexed_def by (auto simp: null_versionD [OF inv])
  qed
  moreover have "current_recorded ?t"
  proof -
    have "om_version m \<noteq> rec_version_id r" if "t_get (objects s) x = Some m" for x m
      using current_objectD [OF inv that] that r nc
      by (cases r) (auto simp: current_version_def rec_object_key_def)
    moreover have "dm_version d \<noteq> rec_version_id r" if "t_get (markers s) x = Some d" for x d
      using current_markerD [OF inv that] that r nc
      by (cases r) (auto simp: current_version_def rec_object_key_def)
    ultimately show ?thesis
      using I(4) by (simp add: current_recorded_def)
  qed
  moreover have "locks_held ?t"
    unfolding locks_held_def using lock_heldD [OF inv] by (auto simp: lock_key_def drop_record_def read_bucket_def)
  moreover have "lock_versioned ?t" "versions_owned ?t"
    using I(6,8) by (auto simp: lock_versioned_def versions_owned_def)
  moreover have "buckets_indexed ?t" "uploads_indexed ?t" "rules_owned ?t"
    using I(5,9,10) by (simp_all add: buckets_indexed_def uploads_indexed_def rules_owned_def)
  ultimately show ?thesis
    by (simp add: index_inv_def)
qed

lemma index_add:
  assumes inv: "index_inv s" and new: "ver s (rec_version_id r) = None"
    and key: "0 \<notin> set (rec_key r)" and b: "read_bucket s (rec_bucket r) = Some b"
    and null: "rec_is_null r \<Longrightarrow> object_lock b = None \<and> t_get (null_versions s) (rec_object_key r) = None"
  shows "index_inv (add_record s r)"
proof -
  note I = index_invD [OF inv]
  let ?t = "add_record s r"
  have keyed: "t_get (versions s) v = Some q \<Longrightarrow> v = uuid_bytes (rec_version_id q)" for v q
    using version_keyedD [OF inv] by blast
  have old: "t_get (versions s) x = Some q \<Longrightarrow> t_get (versions ?t) x = Some q" for x q
    using new by auto
  have "versions_keyed ?t"
    using I(1) key by (simp add: versions_keyed_def)
  moreover have "order_indexed ?t"
    unfolding order_indexed_def using new
    by (auto simp: add_record_def version_orderD [OF inv] dest: keyed dest!: version_order_key_version)
  moreover have "null_indexed ?t"
  proof -
    have "t_get (null_versions ?t) x = Some v \<longleftrightarrow> (\<exists>q. t_get (versions ?t) v = Some q \<and> rec_is_null q \<and> x = rec_object_key q)"
      for x v
      using new null null_versionD [OF inv, of x v] null_versionD [OF inv, of x "uuid_bytes (rec_version_id r)"]
      by (cases "rec_is_null r") (auto simp: add_record_def)
    then show ?thesis by (simp add: null_indexed_def)
  qed
  moreover have "current_recorded ?t"
    unfolding current_recorded_def add_record_frame(1,2)
    using current_objectD [OF inv] current_markerD [OF inv] old by blast
  moreover have "locks_held ?t"
    unfolding locks_held_def add_record_frame(9) read_bucket_steps
    using lock_heldD [OF inv] old by blast
  moreover have "lock_versioned ?t" "versions_owned ?t"
    using I(6,8) b null by (auto simp: lock_versioned_def versions_owned_def)
  moreover have "buckets_indexed ?t" "uploads_indexed ?t" "rules_owned ?t"
    using I(5,9,10) by (simp_all add: buckets_indexed_def uploads_indexed_def rules_owned_def)
  ultimately show ?thesis
    by (simp add: index_inv_def)
qed

lemma write_object_lock_frame [simp]:
  "versions (write_object_lock s v l) = versions s" "version_order (write_object_lock s v l) = version_order s"
  "null_versions (write_object_lock s v l) = null_versions s" "objects (write_object_lock s v l) = objects s"
  "markers (write_object_lock s v l) = markers s" "buckets (write_object_lock s v l) = buckets s"
  "bucket_names (write_object_lock s v l) = bucket_names s" "multipart (write_object_lock s v l) = multipart s"
  "multipart_order (write_object_lock s v l) = multipart_order s" "parts (write_object_lock s v l) = parts s"
  "lifecycle_rules (write_object_lock s v l) = lifecycle_rules s"
  "read_bucket (write_object_lock s v l) = read_bucket s"
  by (simp_all add: write_object_lock_def read_bucket_def fun_eq_iff)

lemma index_lock:
  assumes inv: "index_inv s" and m: "ver s v = Some (ObjectRecord m n)"
    and b: "read_bucket s (om_bucket m) = Some b" "object_lock b \<noteq> None"
  shows "index_inv (write_object_lock s v l)"
proof -
  note I = index_invD [OF inv]
  have "t_get (object_locks (write_object_lock s v l)) x = Some l' \<Longrightarrow>
      x = uuid_bytes v \<and> \<not> is_unlocked l' \<or> t_get (object_locks s) x = Some l'" for x l'
    by (auto simp: write_object_lock_def lock_key_def split: if_splits)
  with lock_heldD [OF inv] m b have "locks_held (write_object_lock s v l)"
    unfolding locks_held_def write_object_lock_frame by blast
  moreover let ?t = "write_object_lock s v l"
  have "versions_keyed ?t = versions_keyed s" "order_indexed ?t = order_indexed s" "null_indexed ?t = null_indexed s"
    "buckets_indexed ?t = buckets_indexed s" "lock_versioned ?t = lock_versioned s" "versions_owned ?t = versions_owned s"
    "uploads_indexed ?t = uploads_indexed s" "rules_owned ?t = rules_owned s" "current_recorded ?t = current_recorded s"
    by (simp_all only: index_parts write_object_lock_frame)
  ultimately show ?thesis using I by (simp add: index_inv_def)
qed

end
