(* ===== verification/Object_Commands.thy ===== *)
theory Object_Commands
  imports Index
begin

text \<open>
  The effect of the two commands that publish a new current version (\<^verbatim>\<open>put_object_tx\<close> and
  \<^verbatim>\<open>delete_object_tx\<close> of \<^verbatim>\<open>commands.rs\<close>) and that both preserve the structural invariant.
\<close>

section \<open>Publishing an object\<close>

definition null_of :: "catalog \<Rightarrow> BucketId \<Rightarrow> ObjectKey \<Rightarrow> ObjectVersionRecord option" where
  "null_of s b k = Option.bind (t_get (null_versions s) (object_key b k)) (t_get (versions s))"

lemma null_of_Some:
  assumes "index_inv s"
  shows "null_of s b k = Some r \<longleftrightarrow> ver s (rec_version_id r) = Some r \<and> rec_is_null r \<and> rec_bucket r = b \<and> rec_key r = k"
proof -
  have "t_get (null_versions s) (object_key b k) = Some v \<and> t_get (versions s) v = Some r \<longleftrightarrow>
      v = uuid_bytes (rec_version_id r) \<and> t_get (versions s) v = Some r \<and> rec_is_null r \<and> rec_bucket r = b \<and> rec_key r = k" for v
    using version_keyedD [OF assms, of v r]
    by (auto simp: null_versionD [OF assms] rec_object_key_def)
  then show ?thesis
    unfolding null_of_def bind_eq_Some_conv by auto
qed

lemma take_null_eq:
  assumes "index_inv s"
  shows "take_null s b k = Inr (null_of s b k, s\<lparr>null_versions := t_remove (object_key b k) (null_versions s)\<rparr>)"
proof (cases "t_get (null_versions s) (object_key b k)")
  case None
  then show ?thesis by (simp add: take_null_def null_of_def)
next
  case (Some v)
  with null_versionD [OF assms] obtain r where "t_get (versions s) v = Some r" by blast
  with Some show ?thesis by (simp add: take_null_def null_of_def)
qed

definition drop_opt :: "catalog \<Rightarrow> ObjectVersionRecord option \<Rightarrow> catalog" where
  "drop_opt s q = (case q of None \<Rightarrow> s | Some r \<Rightarrow> drop_record s r)"

definition lock_opt :: "catalog \<Rightarrow> VersionId \<Rightarrow> ObjectLockState option \<Rightarrow> catalog" where
  "lock_opt s v lock = (case lock of None \<Rightarrow> s | Some l \<Rightarrow> if is_unlocked l then s else write_object_lock s v l)"

definition replaced_of :: "catalog \<Rightarrow> Bucket \<Rightarrow> BucketId \<Rightarrow> ObjectKey \<Rightarrow> ObjectVersionRecord option" where
  "replaced_of s bucket b k = (if versioning bucket \<noteq> Enabled then null_of s b k else None)"

definition put_core :: "catalog \<Rightarrow> Bucket \<Rightarrow> ObjectMetadata \<Rightarrow> ObjectLockState option \<Rightarrow> catalog" where
  "put_core s bucket m lock =
     (let x = object_key (om_bucket m) (om_key m);
          r = ObjectRecord m (versioning bucket \<noteq> Enabled);
          t = add_record (drop_opt (hide s x) (replaced_of s bucket (om_bucket m) (om_key m))) r
      in publish_current (lock_opt t (om_version m) lock) x r)"

definition put_usage :: "BucketUsage \<Rightarrow> ObjectMetadata option \<Rightarrow> ObjectVersionRecord option \<Rightarrow> ObjectMetadata \<Rightarrow> BucketUsage" where
  "put_usage u previous replaced m =
     u\<lparr>bu_current_objects := bu_current_objects u + of_bool (previous = None),
       bu_logical_bytes := bu_logical_bytes u - opt_size previous + om_size m,
       bu_versions := bu_versions u - of_bool (replaced \<noteq> None) + 1,
       bu_version_bytes := bu_version_bytes u - opt_size (Option.bind replaced as_object) + om_size m\<rparr>"

definition put_delta :: "ObjectMetadata option \<Rightarrow> ObjectVersionRecord option \<Rightarrow> ObjectMetadata \<Rightarrow> str \<Rightarrow> int" where
  "put_delta previous replaced m = no_delta(
     OBJECT_COUNT := of_bool (previous = None),
     LOGICAL_BYTES := uint (om_size m) - uint (opt_size previous),
     VERSION_COUNT := 1 - of_bool (replaced \<noteq> None),
     VERSION_BYTES := uint (om_size m) - uint (opt_size (Option.bind replaced as_object)),
     PHYSICAL_BYTES := uint (om_size m) - uint (opt_size (Option.bind replaced as_object)))"

definition payloads :: "ObjectVersionRecord option \<Rightarrow> ObjectId set" where
  "payloads replaced = om_id ` set_option (Option.bind replaced as_object)"

definition put_effect ::
  "externs \<Rightarrow> catalog \<Rightarrow> Bucket \<Rightarrow> ObjectMetadata \<Rightarrow> ObjectLockState option \<Rightarrow> catalog \<Rightarrow> bool" where
  "put_effect ext s bucket m lock s' \<longleftrightarrow>
     (let previous = t_get (objects s) (object_key (om_bucket m) (om_key m));
          replaced = replaced_of s bucket (om_bucket m) (om_key m);
          u = put_usage (read_bucket_usage s (om_bucket m)) previous replaced m
      in read_bucket s (om_bucket m) = Some bucket
         \<and> (\<forall>l. lock = Some l \<and> \<not> is_unlocked l \<longrightarrow> object_lock bucket \<noteq> None)
         \<and> (\<forall>r. replaced = Some r \<longrightarrow> deletion_block_at (read_object_lock s (rec_version_id r)) (om_created_at m) = None)
         \<and> bytes_allow (quota_bytes (quota bucket)) (saturating_add (bu_version_bytes u) (bu_multipart_bytes u))
         \<and> objects_allow (quota_objects (quota bucket)) (bu_current_objects u)
         \<and> moved ext s (put_core s bucket m lock) (t_insert (bucket_key (om_bucket m)) u (bucket_usage s))
             (put_delta previous replaced m) (payloads replaced) s')"

text \<open>The counters, the cleanup queue and the journal, which a put writes last.\<close>

lemma moved_eq: "moved ext s c u d q t \<Longrightarrow> u = u' \<Longrightarrow> d = d' \<Longrightarrow> q = q' \<Longrightarrow> moved ext s c u' d' q' t"
  by simp

lemma put_bookkeeping:
  assumes t: "moved ext s c u no_delta {} t"
    and Q: "\<And>t'. moved ext s c u (put_delta previous replaced m) (payloads replaced) t' \<Longrightarrow> Q t'"
  shows "post (adjust_counter t OBJECT_COUNT (of_bool (previous = None))) (\<lambda>s.
     post (adjust_counter s LOGICAL_BYTES (uint (om_size m) - uint (opt_size previous))) (\<lambda>s.
     post (adjust_counter s VERSION_COUNT (1 - of_bool (replaced \<noteq> None))) (\<lambda>s.
     post (adjust_counter s VERSION_BYTES (uint (om_size m) - uint (opt_size (Option.bind replaced as_object)))) (\<lambda>s.
     post (adjust_counter s PHYSICAL_BYTES (uint (om_size m) - uint (opt_size (Option.bind replaced as_object)))) (\<lambda>s.
     post (journal_events ext (queue_cleanups s (map om_id (case Option.bind replaced as_object of None \<Rightarrow> [] | Some old \<Rightarrow> [old])))
              es b k v sz at) Q)))))"
  apply (rule moved_adjust [OF t], simp)
  apply (erule moved_adjust, simp)
  apply (erule moved_adjust, simp)
  apply (erule moved_adjust, simp)
  apply (erule moved_adjust, simp)
  apply (drule moved_queues, erule moved_journal_events)
  apply (rule Q, erule moved_eq)
    apply simp
   apply (simp add: put_delta_def)
  apply (cases "Option.bind replaced as_object"; simp add: payloads_def del: set_bind_option)
  done

text \<open>The writes of a put that leave an intermediate state: dropping the replaced version and recording the lock.\<close>

definition unlink :: "catalog \<Rightarrow> ObjectVersionRecord option \<Rightarrow> catalog" where
  "unlink s q = (case q of None \<Rightarrow> s | Some r \<Rightarrow> remove_version (remove_object_lock s (rec_version_id r)) r)"

lemma post_drop_replaced:
  "post (drop_replaced s q now) Q \<longleftrightarrow>
     ((\<forall>r. q = Some r \<longrightarrow> deletion_block_at (read_object_lock s (rec_version_id r)) now = None) \<longrightarrow> Q (unlink s q))"
  by (cases q) (auto simp: drop_replaced_def unlink_def assert_unlocked_def post_rbind post_Inr post_Inl split: option.split)

lemma post_lock_step:
  "post (case lock of None \<Rightarrow> Inr x | Some state \<Rightarrow> if is_unlocked state then Inr x
          else rbind (ensure e err) (\<lambda>_. Inr (write_object_lock x v state))) Q \<longleftrightarrow>
     ((\<forall>l. lock = Some l \<and> \<not> is_unlocked l \<longrightarrow> e) \<longrightarrow> Q (lock_opt x v lock))"
  by (cases lock) (auto simp: lock_opt_def post_rbind post_Inr post_ensure)

lemma unlink_frame [simp]:
  "objects (unlink s q) = objects s" "markers (unlink s q) = markers s" "buckets (unlink s q) = buckets s"
  "bucket_names (unlink s q) = bucket_names s" "null_versions (unlink s q) = null_versions s"
  "multipart (unlink s q) = multipart s" "multipart_order (unlink s q) = multipart_order s" "parts (unlink s q) = parts s"
  "lifecycle_rules (unlink s q) = lifecycle_rules s" "bucket_usage (unlink s q) = bucket_usage s"
  "clock (unlink s q) = clock s" "counters (unlink s q) = counters s" "cleanup (unlink s q) = cleanup s"
  "mutation_events (unlink s q) = mutation_events s"
  "versions (unlink s q) = (case q of None \<Rightarrow> versions s | Some r \<Rightarrow> t_remove (uuid_bytes (rec_version_id r)) (versions s))"
  "version_order (unlink s q) = (case q of None \<Rightarrow> version_order s | Some r \<Rightarrow> t_remove (version_order_key r) (version_order s))"
  "object_locks (unlink s q) = (case q of None \<Rightarrow> object_locks s | Some r \<Rightarrow> t_remove (lock_key (rec_version_id r)) (object_locks s))"
  by (simp_all add: unlink_def remove_version_def remove_object_lock_def Let_def split: option.split)

lemma lock_opt_frame [simp]:
  "objects (lock_opt s v l) = objects s" "markers (lock_opt s v l) = markers s" "buckets (lock_opt s v l) = buckets s"
  "bucket_names (lock_opt s v l) = bucket_names s" "null_versions (lock_opt s v l) = null_versions s"
  "multipart (lock_opt s v l) = multipart s" "multipart_order (lock_opt s v l) = multipart_order s" "parts (lock_opt s v l) = parts s"
  "lifecycle_rules (lock_opt s v l) = lifecycle_rules s" "bucket_usage (lock_opt s v l) = bucket_usage s"
  "clock (lock_opt s v l) = clock s" "counters (lock_opt s v l) = counters s" "cleanup (lock_opt s v l) = cleanup s"
  "mutation_events (lock_opt s v l) = mutation_events s" "versions (lock_opt s v l) = versions s"
  "version_order (lock_opt s v l) = version_order s"
  "object_locks (lock_opt s v l) = (case l of None \<Rightarrow> object_locks s
     | Some l \<Rightarrow> if is_unlocked l then object_locks s else t_insert (lock_key v) l (object_locks s))"
  by (simp_all add: lock_opt_def write_object_lock_def split: option.split)

lemma put_object_effect:
  assumes inv: "index_inv s"
  shows "post (put_object_tx ext s m lock origin) (\<lambda>(res, s'). \<exists>bucket. put_effect ext s bucket m lock s')"
proof -
  let ?b = "om_bucket m" and ?k = "om_key m"
  let ?x = "object_key ?b ?k"
  let ?previous = "t_get (objects s) ?x"
  let ?s = "\<lambda>bucket. if versioning bucket \<noteq> Enabled then s\<lparr>null_versions := t_remove ?x (null_versions s)\<rparr> else s"
  have taken: "(if versioning bucket \<noteq> Enabled then take_null s ?b ?k else Inr (None, s))
      = Inr (replaced_of s bucket ?b ?k, ?s bucket)" for bucket
    by (simp add: take_null_eq [OF inv] replaced_of_def)
  have usage: "read_bucket_usage (?s bucket) ?b = read_bucket_usage s ?b" for bucket
    by (simp add: read_bucket_usage_def)
  have locks: "read_object_lock (?s bucket) v = read_object_lock s v" for bucket v
    by (simp add: read_object_lock_def)
  show ?thesis
    unfolding put_object_tx_def taken usage locks post_rbind post_ok_or post_ensure post_Inr Let_def split_conv
      post_drop_replaced post_lock_step
    apply (intro allI impI)
    subgoal premises prems for bucket logical version_bytes
    proof -
      let ?replaced = "replaced_of s bucket ?b ?k"
      let ?u = "put_usage (read_bucket_usage s ?b) ?previous ?replaced m"
      show ?thesis
      proof (rule put_bookkeeping [where s = s and c = "put_core s bucket m lock"
             and u = "t_insert (bucket_key ?b) ?u (bucket_usage s)"], goal_cases)
        case 1
        have r: "rec_is_null r \<and> rec_object_key r = ?x \<and> versioning bucket \<noteq> Enabled" if "?replaced = Some r" for r
          using that null_of_Some [OF inv] by (auto simp: replaced_of_def rec_object_key_def split: if_splits)
        from prems have eqs: "logical = bu_logical_bytes ?u" "version_bytes = bu_version_bytes ?u"
          by (auto simp: put_usage_def bind_eq_Some_conv checked_sub_Some checked_add_Some)
        show ?case
          by (rule moved_start; (rule core_eqI)?; insert r eqs; cases "versioning bucket = Enabled"; cases ?replaced;
              simp add: put_core_def Let_def write_bucket_usage_def set_null_def insert_version_def drop_opt_def
                add_record_def drop_record_def hide_def put_usage_def rec_object_key_def split: option.split)
      next
        case (2 t')
        with prems show ?case
          by (intro exI [of _ bucket])
             (auto simp: put_effect_def Let_def put_usage_def bind_eq_Some_conv checked_sub_Some checked_add_Some)
      qed
    qed
    done
qed

lemma lock_opt_eq:
  "lock_opt s v lock = s \<or> (\<exists>l. lock = Some l \<and> \<not> is_unlocked l \<and> lock_opt s v lock = write_object_lock s v l)"
  by (cases lock) (auto simp: lock_opt_def)

text \<open>Dropping the null version of a key, when nothing is current under that key.\<close>

lemma index_drop_null:
  assumes inv: "index_inv s" and q: "q = None \<or> q = null_of s b k"
    and free: "t_get (objects s) (object_key b k) = None" "t_get (markers s) (object_key b k) = None"
  shows "index_inv (drop_opt s q)"
proof (cases q)
  case (Some r)
  with q have "null_of s b k = Some r" by auto
  with null_of_Some [OF inv, of b k r] have "ver s (rec_version_id r) = Some r" "rec_object_key r = object_key b k"
    by (simp_all add: rec_object_key_def)
  with Some free show ?thesis
    by (auto simp: drop_opt_def current_version_def intro: index_drop [OF inv])
qed (simp add: drop_opt_def inv)

lemma null_of_hide [simp]: "null_of (hide s x) b k = null_of s b k"
  by (simp add: null_of_def)

lemma null_of_drop:
  assumes "index_inv s"
  shows "t_get (null_versions (drop_opt s (null_of s b k))) (object_key b k) = None"
proof (cases "null_of s b k")
  case None
  moreover have "t_get (versions s) v \<noteq> None" if "t_get (null_versions s) (object_key b k) = Some v" for v
    using that null_versionD [OF assms] by auto
  ultimately show ?thesis
    by (cases "t_get (null_versions s) (object_key b k)") (auto simp: null_of_def drop_opt_def bind_eq_None_conv)
next
  case (Some r)
  with null_of_Some [OF assms, of b k r] have "rec_is_null r" "rec_bucket r = b" "rec_key r = k" by simp_all
  with Some show ?thesis
    by (simp add: drop_opt_def drop_record_def rec_object_key_def)
qed

lemma drop_opt_frame [simp]:
  "objects (drop_opt s q) = objects s" "markers (drop_opt s q) = markers s" "read_bucket (drop_opt s q) = read_bucket s"
  by (simp_all add: drop_opt_def split: option.split)

lemma drop_opt_absent: "ver s v = None \<Longrightarrow> ver (drop_opt s q) v = None"
  by (auto simp: drop_opt_def split: option.split)

lemma hide_free [simp]: "t_get (objects (hide s x)) x = None" "t_get (markers (hide s x)) x = None"
  by (simp_all add: hide_def)

text \<open>Replacing whatever is current under a key by a new version: the shape of a put and of a delete marker.\<close>

lemma index_replace:
  assumes inv: "index_inv s" and new: "ver s (rec_version_id r) = None"
    and key: "0 \<notin> set (rec_key r)" and b: "read_bucket s (rec_bucket r) = Some bucket"
    and q: "q = (if rec_is_null r then null_of s (rec_bucket r) (rec_key r) else None)"
    and n: "rec_is_null r \<Longrightarrow> object_lock bucket = None"
  shows "index_inv (add_record (drop_opt (hide s (rec_object_key r)) q) r)"
proof (rule index_add)
  let ?s = "hide s (rec_object_key r)"
  have h: "index_inv ?s" by (rule index_hide [OF inv])
  show "index_inv (drop_opt ?s q)"
    by (rule index_drop_null [OF h, of q "rec_bucket r" "rec_key r"]) (simp_all add: q rec_object_key_def [symmetric])
  show "ver (drop_opt ?s q) (rec_version_id r) = None"
    using new by (intro drop_opt_absent) simp
  show "read_bucket (drop_opt ?s q) (rec_bucket r) = Some bucket" by (simp add: b)
  show "object_lock bucket = None \<and> t_get (null_versions (drop_opt ?s q)) (rec_object_key r) = None" if "rec_is_null r"
    using n [OF that] null_of_drop [OF h, of "rec_bucket r" "rec_key r"] that
    by (simp add: q rec_object_key_def)
qed (rule key)

lemma index_put:
  assumes inv: "index_inv s" and eff: "put_effect ext s bucket m lock s'"
    and new: "ver s (om_version m) = None" and key: "0 \<notin> set (om_key m)"
  shows "index_inv s'"
proof -
  let ?r = "ObjectRecord m (versioning bucket \<noteq> Enabled)" and ?x = "object_key (om_bucket m) (om_key m)"
  let ?t = "add_record (drop_opt (hide s ?x) (replaced_of s bucket (om_bucket m) (om_key m))) ?r"
  from eff have b: "read_bucket s (om_bucket m) = Some bucket"
    and lock: "\<And>l. lock = Some l \<Longrightarrow> \<not> is_unlocked l \<Longrightarrow> object_lock bucket \<noteq> None"
    and core: "core s' = core (put_core s bucket m lock)"
    by (auto simp: put_effect_def Let_def dest: movedD(1))
  have x: "rec_object_key ?r = ?x" by (simp add: rec_object_key_def)
  have "object_lock bucket = None" if "versioning bucket \<noteq> Enabled"
    using bucketD(4) [OF inv b] that by (cases "object_lock bucket") auto
  with new key b have t: "index_inv ?t"
    using index_replace [OF inv, where r = ?r and bucket = bucket]
    by (cases "versioning bucket = Enabled") (simp_all add: rec_object_key_def replaced_of_def)
  have "index_inv (lock_opt ?t (om_version m) lock)"
    using lock_opt_eq [of ?t "om_version m" lock]
  proof
    assume "\<exists>l. lock = Some l \<and> \<not> is_unlocked l \<and> lock_opt ?t (om_version m) lock = write_object_lock ?t (om_version m) l"
    then show ?thesis
      using index_lock [OF t, of "om_version m" m "versioning bucket \<noteq> Enabled" bucket] lock b by auto
  qed (simp add: t)
  from index_publish [OF this, of ?r]
  have "index_inv (put_core s bucket m lock)"
    by (simp add: put_core_def Let_def x)
  with core show ?thesis
    using index_inv_cong by blast
qed

section \<open>Deleting an object\<close>

definition cleaned_of :: "ObjectVersionRecord option \<Rightarrow> ObjectMetadata list" where
  "cleaned_of q = (case Option.bind q as_object of None \<Rightarrow> [] | Some m \<Rightarrow> [m])"

definition null_usage :: "BucketUsage \<Rightarrow> ObjectVersionRecord option \<Rightarrow> BucketUsage" where
  "null_usage u q = u\<lparr>bu_versions := bu_versions u - of_bool (q \<noteq> None),
     bu_version_bytes := bu_version_bytes u - opt_size (Option.bind q as_object)\<rparr>"

definition null_delta :: "(str \<Rightarrow> int) \<Rightarrow> ObjectVersionRecord option \<Rightarrow> str \<Rightarrow> int" where
  "null_delta d q = d(
     VERSION_COUNT := d VERSION_COUNT - of_bool (q \<noteq> None),
     VERSION_BYTES := d VERSION_BYTES - uint (opt_size (Option.bind q as_object)),
     PHYSICAL_BYTES := d PHYSICAL_BYTES - uint (opt_size (Option.bind q as_object)))"

lemma moved_delete_null:
  assumes t: "moved ext s c w d {} t" and c: "core (unlink t q) = core c'"
    and Q: "\<And>t'. moved ext s c' w (null_delta d q) (payloads q) t' \<Longrightarrow>
       (\<And>r. q = Some r \<Longrightarrow> deletion_block_at (read_object_lock t (rec_version_id r)) now = None) \<Longrightarrow>
       Q (null_usage u q, cleaned_of q, t')"
  shows "post (delete_null_version t u q now) Q"
proof (cases q)
  case None
  with t c have "moved ext s c' w d {} t"
    by (auto intro!: moved_index [OF t] simp: unlink_def movedD(2) [OF t])
  with None Q [of t] show ?thesis
    by (simp add: delete_null_version_def post_Inr null_usage_def null_delta_def cleaned_of_def payloads_def opt_size_def)
next
  case (Some r)
  have m: "moved ext s c' w d {} (unlink t (Some r))"
    by (rule moved_index [OF t]) (simp_all add: c [unfolded Some] movedD(2) [OF t])
  show ?thesis
  proof (cases "deletion_block_at (read_object_lock t (rec_version_id r)) now")
    case None
    have q: "unlink t (Some r) = remove_version (remove_object_lock t (rec_version_id r)) r"
      by (simp add: unlink_def)
    show ?thesis
    proof (cases "as_object r")
      case None
      then have d: "null_delta d q = d(VERSION_COUNT := d VERSION_COUNT + - 1)"
        by (simp add: null_delta_def fun_eq_iff \<open>q = Some r\<close> opt_size_def)
      have "moved ext s c' w (d(VERSION_COUNT := d VERSION_COUNT + - 1)) {} t' \<Longrightarrow> Q (null_usage u q, cleaned_of q, t')" for t'
        using Q [of t'] \<open>deletion_block_at _ _ = None\<close> \<open>q = Some r\<close> None d by (simp add: payloads_def)
      then show ?thesis
        using \<open>deletion_block_at _ _ = None\<close> \<open>q = Some r\<close> None
        apply (simp add: delete_null_version_def assert_unlocked_def post_rbind post_Inr Let_def q [symmetric])
        apply (rule moved_adjust [OF m], simp)
        apply (simp add: null_usage_def cleaned_of_def opt_size_def)
        done
    next
      case (Some m')
      have "moved ext s c' w (d(VERSION_COUNT := d VERSION_COUNT + - 1, VERSION_BYTES := d VERSION_BYTES + - uint (om_size m'),
          PHYSICAL_BYTES := d PHYSICAL_BYTES + - uint (om_size m'))) {om_id m'} t' \<Longrightarrow> Q (null_usage u q, cleaned_of q, t')" for t'
        using Q [of t'] \<open>deletion_block_at _ _ = None\<close> \<open>q = Some r\<close> Some
        by (simp add: null_delta_def payloads_def opt_size_def)
      then show ?thesis
        using \<open>deletion_block_at _ _ = None\<close> \<open>q = Some r\<close> Some
        apply (simp add: delete_null_version_def assert_unlocked_def post_rbind post_Inr Let_def q [symmetric])
        apply (rule moved_adjust [OF m], simp)
        apply (erule moved_adjust, simp)
        apply (erule moved_adjust, simp)
        apply (drule moved_queue [where x = "om_id m'"])
        apply (simp add: null_usage_def cleaned_of_def opt_size_def)
        done
    qed
  qed (simp add: Some delete_null_version_def assert_unlocked_def post_Inl)
qed

definition marker_of :: "BucketId \<Rightarrow> ObjectKey \<Rightarrow> NewDeleteMarker \<Rightarrow> DeleteMarker" where
  "marker_of b k nm = \<lparr>dm_version = nm_version nm, dm_bucket = b, dm_key = k, dm_created_at = nm_created_at nm\<rparr>"

definition delete_core :: "catalog \<Rightarrow> Bucket \<Rightarrow> BucketId \<Rightarrow> ObjectKey \<Rightarrow> NewDeleteMarker \<Rightarrow> catalog" where
  "delete_core s bucket b k nm =
     (let x = object_key b k;
          t = drop_opt (hide s x) (replaced_of s bucket b k);
          r = MarkerRecord (marker_of b k nm) (versioning bucket = Suspended)
      in if versioning bucket = Disabled then t else publish_current (add_record t r) x r)"

definition delete_usage :: "BucketUsage \<Rightarrow> ObjectMetadata option \<Rightarrow> ObjectVersionRecord option \<Rightarrow> bool \<Rightarrow> BucketUsage" where
  "delete_usage u current q marks = (null_usage u q)
     \<lparr>bu_versions := bu_versions (null_usage u q) + of_bool marks,
      bu_current_objects := bu_current_objects u - of_bool (current \<noteq> None),
      bu_logical_bytes := bu_logical_bytes u - opt_size current\<rparr>"

definition delete_delta :: "ObjectMetadata option \<Rightarrow> ObjectVersionRecord option \<Rightarrow> bool \<Rightarrow> str \<Rightarrow> int" where
  "delete_delta current q marks = (null_delta no_delta q)(
     VERSION_COUNT := null_delta no_delta q VERSION_COUNT + of_bool marks,
     OBJECT_COUNT := - of_bool (current \<noteq> None),
     LOGICAL_BYTES := - uint (opt_size current))"

definition delete_effect ::
  "externs \<Rightarrow> catalog \<Rightarrow> Bucket \<Rightarrow> BucketId \<Rightarrow> ObjectKey \<Rightarrow> NewDeleteMarker \<Rightarrow> catalog \<Rightarrow> bool" where
  "delete_effect ext s bucket b k nm s' \<longleftrightarrow>
     (let current = t_get (objects s) (object_key b k);
          q = replaced_of s bucket b k;
          marks = (versioning bucket \<noteq> Disabled)
      in read_bucket s b = Some bucket
         \<and> (\<forall>r. q = Some r \<longrightarrow> deletion_block_at (read_object_lock s (rec_version_id r)) (nm_created_at nm) = None)
         \<and> moved ext s (delete_core s bucket b k nm)
             (t_insert (bucket_key b) (delete_usage (read_bucket_usage s b) current q marks) (bucket_usage s))
             (delete_delta current q marks) (payloads q) s')"

text \<open>The end of a delete: the current object leaves the counters and the usage is written.\<close>

lemma delete_bookkeeping:
  assumes t: "moved ext s c (bucket_usage s) d q t"
    and Q: "\<And>t'. moved ext s c (t_insert (bucket_key b) (u\<lparr>bu_current_objects := bu_current_objects u - of_bool (current \<noteq> None),
                bu_logical_bytes := bu_logical_bytes u - opt_size current\<rparr>) (bucket_usage s))
             (d(OBJECT_COUNT := d OBJECT_COUNT - of_bool (current \<noteq> None), LOGICAL_BYTES := d LOGICAL_BYTES - uint (opt_size current))) q t'
             \<Longrightarrow> Q t'"
  shows "post (case current of None \<Rightarrow> Inr (u, t)
           | Some m \<Rightarrow>
               rbind (adjust_counter t OBJECT_COUNT (- 1)) (\<lambda>s.
               rbind (adjust_counter s LOGICAL_BYTES (- uint (om_size m))) (\<lambda>s.
                 Inr (u\<lparr>bu_current_objects := bu_current_objects u - 1, bu_logical_bytes := bu_logical_bytes u - om_size m\<rparr>, s))))
         (\<lambda>(usage, s). post (if announce then journal_event ext (write_bucket_usage s b usage) ty bn kn v sz at
                              else Inr (write_bucket_usage s b usage)) Q)"
proof -
  have j: "post (if announce then journal_event ext t' ty bn kn v sz at else Inr t') Q"
    if "moved ext s c (t_insert (bucket_key b) (u\<lparr>bu_current_objects := bu_current_objects u - of_bool (current \<noteq> None),
                bu_logical_bytes := bu_logical_bytes u - opt_size current\<rparr>) (bucket_usage s))
             (d(OBJECT_COUNT := d OBJECT_COUNT - of_bool (current \<noteq> None), LOGICAL_BYTES := d LOGICAL_BYTES - uint (opt_size current))) q t'"
    for t'
    using Q [OF that] by (auto simp: post_Inr intro: moved_journal [OF that] Q)
  show ?thesis
  proof (cases current)
    case None
    then show ?thesis
      using j moved_usage [OF t, of b u] by (simp add: post_Inr opt_size_def)
  next
    case (Some m)
    show ?thesis
      unfolding Some option.case post_rbind post_Inr split_conv
      apply (rule moved_adjust [OF t], simp)
      apply (erule moved_adjust, simp)
      apply (rule j)
      apply (drule moved_usage, erule moved_eq)
      using Some by (simp_all add: opt_size_def)
  qed
qed

lemma publish_marker_eq:
  "publish_marker s x m n = s\<lparr>versions := t_insert (uuid_bytes (dm_version m)) (MarkerRecord m n) (versions s),
     version_order := t_insert (version_order_key (MarkerRecord m n)) (uuid_bytes (dm_version m)) (version_order s),
     null_versions := (if n then t_insert x (uuid_bytes (dm_version m)) (null_versions s) else null_versions s),
     objects := t_remove x (objects s), markers := t_insert x m (markers s)\<rparr>"
  by (simp add: publish_marker_def insert_version_def set_null_def Let_def)

lemma core_publish_marker:
  assumes "core t = core t'"
  shows "core (publish_marker t x m n) = core (publish_marker t' x m n)"
  by (rule core_eqI) (simp_all add: publish_marker_eq core_eqD [OF assms])

text \<open>The two arms of a delete, up to the same point.\<close>

lemma delete_arms:
  assumes inv: "index_inv s" and u: "u = read_bucket_usage s b" and q: "q = replaced_of s bucket b k"
    and marks: "marks = (versioning bucket \<noteq> Disabled)"
    and Q: "\<And>t'. moved ext s (delete_core s bucket b k nm) (bucket_usage s)
                ((null_delta no_delta q)(VERSION_COUNT := null_delta no_delta q VERSION_COUNT + of_bool marks)) (payloads q) t' \<Longrightarrow>
          (\<And>r. q = Some r \<Longrightarrow> deletion_block_at (read_object_lock s (rec_version_id r)) (nm_created_at nm) = None) \<Longrightarrow>
          Q ((null_usage u q)\<lparr>bu_versions := bu_versions (null_usage u q) + of_bool marks\<rparr>, cleaned_of q,
             if marks then Some (marker_of b k nm) else None, t')"
  shows "post (delete_by_versioning s (versioning bucket) b k nm u) Q"
proof -
  let ?x = "object_key b k"
  let ?s = "if versioning bucket \<noteq> Enabled then s\<lparr>null_versions := t_remove ?x (null_versions s)\<rparr> else s"
  let ?u = "(null_usage u q)\<lparr>bu_versions := bu_versions (null_usage u q) + of_bool marks\<rparr>"
  let ?d = "(null_delta no_delta q)(VERSION_COUNT := null_delta no_delta q VERSION_COUNT + of_bool marks)"
  let ?m = "marker_of b k nm" and ?n = "versioning bucket = Suspended"
  have r: "rec_is_null r \<and> rec_object_key r = ?x \<and> versioning bucket \<noteq> Enabled" if "q = Some r" for r
    using that null_of_Some [OF inv] by (auto simp: q replaced_of_def rec_object_key_def split: if_splits)
  have nq: "t_remove ?x (null_versions s) = null_versions s" if "q = None" "versioning bucket \<noteq> Enabled"
    using null_of_drop [OF inv, of b k] that
    by (intro t_remove_absent) (simp add: q replaced_of_def drop_opt_def)
  have m: "moved ext s ?s (bucket_usage s) no_delta {} ?s"
    by (rule moved_start) simp_all
  have locks: "read_object_lock ?s v = read_object_lock s v" for v
    by (simp add: read_object_lock_def)
  note step = moved_delete_null [OF m refl, where u = u and now = "nm_created_at nm" and q = q, unfolded locks]
  have taken: "(if versioning bucket \<noteq> Enabled then take_null s b k else Inr (None, s)) = Inr (q, ?s)"
    by (simp add: take_null_eq [OF inv] replaced_of_def q)
  show ?thesis
  proof (cases "versioning bucket = Disabled")
    case True
    have "moved ext s (delete_core s bucket b k nm) (bucket_usage s) ?d (payloads q) (remove_current t ?x)"
      if t: "moved ext s (unlink ?s q) (bucket_usage s) (null_delta no_delta q) (payloads q) t" for t
    proof -
      have "moved ext s (delete_core s bucket b k nm) (bucket_usage s) (null_delta no_delta q) (payloads q) (remove_current t ?x)"
        using core_eqD [OF movedD(1) [OF t]]
        by (intro moved_index [OF t] core_eqI; insert r nq True; cases q;
            simp add: remove_current_def Let_def delete_core_def q [symmetric] drop_opt_def drop_record_def hide_def movedD(2) [OF t])
      then show ?thesis
        by (rule moved_eq) (simp_all add: True marks)
    qed
    with Q have "post (delete_null_version ?s u q (nm_created_at nm)) (\<lambda>(usage, cleaned, s). Q (usage, cleaned, None, remove_current s ?x))"
      by (intro step) (simp add: True marks)
    moreover have "take_null s b k = Inr (q, ?s)" using taken True by simp
    ultimately show ?thesis
      by (simp add: delete_by_versioning_def True post_rbind post_Inr post_case_prod)
  next
    case False
    have "moved ext s (delete_core s bucket b k nm) (bucket_usage s) (null_delta no_delta q) (payloads q) (publish_marker t ?x ?m ?n)"
      if t: "moved ext s (unlink ?s q) (bucket_usage s) (null_delta no_delta q) (payloads q) t" for t
    proof (rule moved_index [OF t])
      have "core (publish_marker (unlink ?s q) ?x ?m ?n) = core (delete_core s bucket b k nm)"
      proof (cases q)
        case None
        with nq False show ?thesis
          by (cases "versioning bucket"; intro core_eqI;
              simp add: publish_marker_eq delete_core_def Let_def q [symmetric] drop_opt_def add_record_def hide_def
                rec_object_key_def marker_of_def)
      next
        case (Some r')
        with r [of r'] False show ?thesis
          by (cases "versioning bucket"; intro core_eqI;
              simp add: publish_marker_eq delete_core_def Let_def q [symmetric] drop_opt_def drop_record_def add_record_def
                hide_def rec_object_key_def marker_of_def)
      qed
      with core_publish_marker [OF movedD(1) [OF t]]
      show "core (publish_marker t ?x ?m ?n) = core (delete_core s bucket b k nm)" by simp
    qed (simp_all add: publish_marker_eq movedD(2) [OF t])
    note publish = this
    have "post (delete_null_version ?s u q (nm_created_at nm)) (\<lambda>(usage, cleaned, s).
        post (adjust_counter (publish_marker s ?x ?m ?n) VERSION_COUNT 1) (\<lambda>s.
          Q (usage\<lparr>bu_versions := bu_versions usage + 1\<rparr>, cleaned, Some ?m, s)))"
      using Q False by (intro step) (auto simp: marks intro!: moved_adjust [OF publish])
    with taken False show ?thesis
      by (cases "versioning bucket")
         (simp_all add: delete_by_versioning_def post_rbind post_Inr post_case_prod Let_def marker_of_def)
  qed
qed

lemma delete_object_effect:
  assumes inv: "index_inv s"
  shows "post (delete_object_tx ext s b k nm) (\<lambda>(res, s'). \<exists>bucket. delete_effect ext s bucket b k nm s')"
  unfolding delete_object_tx_def Let_def post_rbind post_ok_or
  apply (intro allI impI, rule delete_arms [OF inv refl refl refl, where ext = ext])
  apply (simp only: split_conv post_rbind post_case_prod post_Inr DeleteObjectResult.simps)
  apply (rule delete_bookkeeping, assumption)
  subgoal for bucket t t'
    apply (rule exI [of _ bucket])
    apply (simp only: delete_effect_def Let_def)
    apply (intro conjI allI impI, simp, simp)
    apply (erule moved_eq)
      apply (simp add: delete_usage_def null_usage_def)
     apply (simp add: delete_delta_def null_delta_def)
    apply simp
    done
  done

lemma index_delete:
  assumes inv: "index_inv s" and eff: "delete_effect ext s bucket b k nm s'"
    and new: "ver s (nm_version nm) = None" and key: "0 \<notin> set k"
  shows "index_inv s'"
proof -
  let ?x = "object_key b k" and ?q = "replaced_of s bucket b k"
  let ?r = "MarkerRecord (marker_of b k nm) (versioning bucket = Suspended)"
  from eff have b: "read_bucket s b = Some bucket" and core: "core s' = core (delete_core s bucket b k nm)"
    by (auto simp: delete_effect_def Let_def dest: movedD(1))
  have x: "rec_object_key ?r = ?x" by (simp add: rec_object_key_def marker_of_def)
  have "index_inv (delete_core s bucket b k nm)"
  proof (cases "versioning bucket = Disabled")
    case True
    then show ?thesis
      using index_drop_null [OF index_hide [OF inv, of ?x], of ?q b k] by (auto simp: delete_core_def Let_def replaced_of_def)
  next
    case False
    have "object_lock bucket = None" if "versioning bucket = Suspended"
      using bucketD(4) [OF inv b] that by (cases "object_lock bucket") auto
    moreover have "?q = (if rec_is_null ?r then null_of s (rec_bucket ?r) (rec_key ?r) else None)"
      using False by (cases "versioning bucket") (simp_all add: replaced_of_def marker_of_def)
    ultimately have "index_inv (add_record (drop_opt (hide s (rec_object_key ?r)) ?q) ?r)"
      using new key b by (intro index_replace [OF inv, where bucket = bucket]) (simp_all add: marker_of_def)
    from index_publish [OF this, of ?r] False show ?thesis
      by (simp add: delete_core_def Let_def x)
  qed
  with core show ?thesis
    using index_inv_cong by blast
qed

end
