(* ===== verification/Version_Commands.thy ===== *)
theory Version_Commands
  imports Object_Commands
begin

text \<open>
  The effect of the commands on one explicit version (\<^verbatim>\<open>delete_object_version_tx\<close>,
  \<^verbatim>\<open>put_object_lock_tx\<close> and \<^verbatim>\<open>observe_clock\<close>), and what the catalog finds as the newest remaining
  version of an object.
\<close>

section \<open>The newest version of an object\<close>

lemma latest_version_Some:
  assumes inv: "index_inv s" and key: "0 \<notin> set k" and n: "latest_version s b k = Some n"
  shows "ver s (rec_version_id n) = Some n \<and> rec_bucket n = b \<and> rec_key n = k
    \<and> (\<forall>v r. t_get (versions s) v = Some r \<and> rec_bucket r = b \<and> rec_key r = k \<longrightarrow> version_order_key n \<le> version_order_key r)"
proof -
  let ?p = "exact_version_prefix b k"
  from n obtain x v rest where range: "t_range (version_order s) ?p (prefix_successor ?p) = (x, v) # rest"
    and v: "t_get (versions s) v = Some n"
    by (auto simp: latest_version_def Let_def split: list.splits)
  note first = t_range_first [OF range]
  from first version_orderD [OF inv] v have x: "x = version_order_key n" by auto
  from version_keyedD [OF inv v] have vk: "v = uuid_bytes (rec_version_id n)" "0 \<notin> set (rec_key n)" by auto
  from first x have "prefix ?p (version_order_key n)"
    using exact_version_prefix_scan by blast
  then have obj: "rec_bucket n = b" "rec_key n = k"
    using exact_version_prefix_unique [OF key vk(2)] by auto
  have "version_order_key n \<le> version_order_key r"
    if r: "t_get (versions s) w = Some r" "rec_bucket r = b" "rec_key r = k" for w r
  proof -
    have "t_get (version_order s) (version_order_key r) = Some w"
      using version_orderD [OF inv] r(1) by blast
    moreover have "prefix ?p (version_order_key r)"
      using exact_version_prefix_unique [of k r b] key r by simp
    ultimately show ?thesis
      using first x exact_version_prefix_scan by blast
  qed
  with v vk obj show ?thesis by blast
qed

lemma latest_version_None:
  assumes inv: "index_inv s" and key: "0 \<notin> set k" and n: "latest_version s b k = None"
  shows "t_get (versions s) v = Some r \<Longrightarrow> \<not> (rec_bucket r = b \<and> rec_key r = k)"
proof
  let ?p = "exact_version_prefix b k"
  assume r: "t_get (versions s) v = Some r" and obj: "rec_bucket r = b \<and> rec_key r = k"
  have o: "t_get (version_order s) (version_order_key r) = Some v"
    using version_orderD [OF inv] r by blast
  moreover have "prefix ?p (version_order_key r)"
    using exact_version_prefix_unique [of k r b] key obj by simp
  ultimately have "t_range (version_order s) ?p (prefix_successor ?p) \<noteq> []"
    unfolding t_range_empty using exact_version_prefix_scan by blast
  then obtain x w rest where range: "t_range (version_order s) ?p (prefix_successor ?p) = (x, w) # rest"
    by (auto simp: neq_Nil_conv)
  from t_range_first [OF range] version_orderD [OF inv] obtain q where "t_get (versions s) w = Some q" by auto
  with n range show False by (simp add: latest_version_def)
qed

lemma latest_version_cong:
  "versions s = versions t \<Longrightarrow> version_order s = version_order t \<Longrightarrow> latest_version s b k = latest_version t b k"
  by (simp only: latest_version_def)

section \<open>Deleting one version\<close>

definition current_of :: "catalog \<Rightarrow> ObjectVersionRecord \<Rightarrow> bool" where
  "current_of s r \<longleftrightarrow> current_version s (rec_object_key r) = Some (rec_version_id r)"

definition unhooked :: "catalog \<Rightarrow> ObjectVersionRecord \<Rightarrow> catalog" where
  "unhooked s r = drop_record (if current_of s r then hide s (rec_object_key r) else s) r"

definition next_of :: "catalog \<Rightarrow> ObjectVersionRecord \<Rightarrow> ObjectVersionRecord option" where
  "next_of s r = (if current_of s r then latest_version (unhooked s r) (rec_bucket r) (rec_key r) else None)"

definition version_core :: "catalog \<Rightarrow> ObjectVersionRecord \<Rightarrow> catalog" where
  "version_core s r =
     (case next_of s r of None \<Rightarrow> unhooked s r | Some n \<Rightarrow> publish_current (unhooked s r) (rec_object_key r) n)"

definition out_of :: "catalog \<Rightarrow> ObjectVersionRecord \<Rightarrow> ObjectMetadata option" where
  "out_of s r = (if current_of s r then t_get (objects s) (rec_object_key r) else None)"

definition version_usage :: "BucketUsage \<Rightarrow> ObjectVersionRecord \<Rightarrow> ObjectMetadata option \<Rightarrow> ObjectMetadata option \<Rightarrow> BucketUsage" where
  "version_usage u r out inn = (null_usage u (Some r))
     \<lparr>bu_current_objects := bu_current_objects u - of_bool (out \<noteq> None) + of_bool (inn \<noteq> None),
      bu_logical_bytes := bu_logical_bytes u - opt_size out + opt_size inn\<rparr>"

definition version_delta :: "ObjectVersionRecord \<Rightarrow> ObjectMetadata option \<Rightarrow> ObjectMetadata option \<Rightarrow> str \<Rightarrow> int" where
  "version_delta r out inn = (null_delta no_delta (Some r))(
     OBJECT_COUNT := of_bool (inn \<noteq> None) - of_bool (out \<noteq> None),
     LOGICAL_BYTES := uint (opt_size inn) - uint (opt_size out))"

definition version_effect :: "externs \<Rightarrow> catalog \<Rightarrow> ObjectVersionRecord \<Rightarrow> catalog \<Rightarrow> bool" where
  "version_effect ext s r s' \<longleftrightarrow>
     (let out = out_of s r; inn = Option.bind (next_of s r) as_object
      in moved ext s (version_core s r)
           (t_insert (bucket_key (rec_bucket r)) (version_usage (read_bucket_usage s (rec_bucket r)) r out inn) (bucket_usage s))
           (version_delta r out inn) (payloads (Some r)) s')"

lemma index_unhooked:
  assumes inv: "index_inv s" and r: "ver s (rec_version_id r) = Some r"
  shows "index_inv (unhooked s r)"
proof (cases "current_of s r")
  case True
  with index_drop [OF index_hide [OF inv, of "rec_object_key r"], of r] r show ?thesis
    by (simp add: unhooked_def current_version_def)
next
  case False
  with index_drop [OF inv r] show ?thesis
    by (simp add: unhooked_def current_of_def)
qed

lemma unhooked_frame [simp]:
  "versions (unhooked s r) = t_remove (uuid_bytes (rec_version_id r)) (versions s)"
  "read_bucket (unhooked s r) = read_bucket s" "buckets (unhooked s r) = buckets s"
  by (simp_all add: unhooked_def)

lemma index_version:
  assumes inv: "index_inv s" and r: "ver s (rec_version_id r) = Some r"
  shows "index_inv (version_core s r)"
proof (cases "next_of s r")
  case None
  then show ?thesis by (simp add: version_core_def index_unhooked [OF inv r])
next
  case (Some n)
  note u = index_unhooked [OF inv r]
  from Some have cur: "current_of s r" and n: "latest_version (unhooked s r) (rec_bucket r) (rec_key r) = Some n"
    by (simp_all add: next_of_def split: if_splits)
  from version_keyedD [OF inv r] have "0 \<notin> set (rec_key r)" by simp
  from latest_version_Some [OF u this n]
  have "ver (unhooked s r) (rec_version_id n) = Some n" "rec_object_key n = rec_object_key r"
    by (simp_all add: rec_object_key_def)
  with index_publish [OF u, of n] cur Some show ?thesis
    by (simp add: version_core_def unhooked_def)
qed

text \<open>The steps of a version delete after the version has left the index.\<close>

lemma core_publish_current:
  assumes "core t = core t'"
  shows "core (publish_current t x n) = core (publish_current t' x n)"
  by (rule core_eqI; cases n; simp add: core_eqD [OF assms])

lemma moved_publish_current:
  assumes "moved ext s c w d q t"
  shows "moved ext s (publish_current c x n) w d q (publish_current t x n)"
  by (rule moved_index [OF assms core_publish_current [OF movedD(1) [OF assms]]]; cases n; simp add: movedD(2) [OF assms])

lemma moved_hide:
  assumes "moved ext s c w d q t"
  shows "moved ext s (hide c x) w d q (remove_current t x)"
  by (rule moved_index [OF assms]; (rule core_eqI)?; simp add: hide_def remove_current_def Let_def movedD(2) [OF assms] core_eqD [OF movedD(1) [OF assms]])

lemma moved_unpublish:
  assumes t: "moved ext s c w d q t" and out: "out = t_get (objects c) x"
    and Q: "\<And>t'. moved ext s (hide c x) w
        (d(OBJECT_COUNT := d OBJECT_COUNT - of_bool (out \<noteq> None), LOGICAL_BYTES := d LOGICAL_BYTES - uint (opt_size out))) q t' \<Longrightarrow>
        Q (u\<lparr>bu_current_objects := bu_current_objects u - of_bool (out \<noteq> None), bu_logical_bytes := bu_logical_bytes u - opt_size out\<rparr>, t')"
  shows "post (unpublish_current t x u) Q"
proof -
  have obj: "t_get (objects t) x = out" using core_eqD(3) [OF movedD(1) [OF t]] by (simp add: out)
  show ?thesis
  proof (cases out)
    case None
    with Q [of "remove_current t x"] moved_hide [OF t, of x] show ?thesis
      by (simp add: unpublish_current_def obj post_Inr opt_size_def)
  next
    case (Some m)
    show ?thesis
      unfolding unpublish_current_def obj Some option.case Let_def post_rbind post_Inr split_conv
      apply (rule moved_adjust [OF t], simp)
      apply (erule moved_adjust, simp)
      apply (drule moved_hide [where x = x])
      subgoal for t1 t2
        using Q [of "remove_current t2 x"] Some by (simp add: opt_size_def)
      done
  qed
qed

lemma moved_publish_latest:
  assumes t: "moved ext s c w d q t" and inn: "inn = Option.bind (latest_version c b k) as_object"
    and c': "c' = (case latest_version c b k of None \<Rightarrow> c | Some n \<Rightarrow> publish_current c (object_key b k) n)"
    and Q: "\<And>t'. moved ext s c' w
        (d(OBJECT_COUNT := d OBJECT_COUNT + of_bool (inn \<noteq> None), LOGICAL_BYTES := d LOGICAL_BYTES + uint (opt_size inn))) q t' \<Longrightarrow>
        Q (u\<lparr>bu_current_objects := bu_current_objects u + of_bool (inn \<noteq> None), bu_logical_bytes := bu_logical_bytes u + opt_size inn\<rparr>, t')"
  shows "post (publish_latest t b k u) Q"
proof -
  note E = core_eqD [OF movedD(1) [OF t]]
  have latest: "latest_version t b k = latest_version c b k"
    using E by (intro latest_version_cong) simp_all
  show ?thesis
  proof (cases "latest_version c b k")
    case None
    with t Q [of t] latest show ?thesis
      by (simp add: publish_latest_def post_Inr c' inn opt_size_def)
  next
    case (Some n)
    have p: "moved ext s c' w d q (publish_current t (object_key b k) n)"
      using moved_publish_current [OF t, of "object_key b k" n] by (simp add: c' Some)
    show ?thesis
    proof (cases "as_object n")
      case None
      with p Q [of "publish_current t (object_key b k) n"] latest Some show ?thesis
        by (simp add: publish_latest_def post_Inr inn opt_size_def)
    next
      case (Some m)
      with \<open>latest_version c b k = Some n\<close> have i: "inn = Some m" by (simp add: inn)
      show ?thesis
        unfolding publish_latest_def latest \<open>latest_version c b k = Some n\<close> Some option.case Let_def post_rbind post_Inr
        apply (rule moved_adjust [OF p], simp)
        apply (erule moved_adjust, simp)
        subgoal for t1 t2
          using Q [of t2] i by (simp add: opt_size_def)
        done
    qed
  qed
qed

lemma moved_release_payload:
  assumes t: "moved ext s c w d {} t"
    and Q: "\<And>t'. moved ext s c w (d(VERSION_BYTES := d VERSION_BYTES - uint (opt_size (as_object r)),
          PHYSICAL_BYTES := d PHYSICAL_BYTES - uint (opt_size (as_object r)))) (payloads (Some r)) t' \<Longrightarrow>
        Q (u\<lparr>bu_version_bytes := bu_version_bytes u - opt_size (as_object r)\<rparr>, t')"
  shows "post (release_payload t r u) Q"
proof (cases "as_object r")
  case None
  with t Q [of t] show ?thesis
    by (simp add: release_payload_def post_Inr opt_size_def payloads_def)
next
  case (Some m)
  show ?thesis
    unfolding release_payload_def Some option.case Let_def post_rbind post_Inr
    apply (rule moved_adjust [OF t], simp)
    apply (erule moved_adjust, simp)
    apply (drule moved_queue [where x = "om_id m"])
    subgoal for t1 t2
      using Q [of "queue_cleanup t2 (om_id m)"] Some by (simp add: opt_size_def payloads_def)
    done
qed

lemma observe_clock_state:
  "observe_clock s rel = Inr s' \<Longrightarrow> \<exists>x. s' = s\<lparr>clock := x\<rparr>"
  by (auto simp: observe_clock_def Let_def split: option.splits if_splits intro: exI [of _ "clock s"])

lemma enforce_deletable_state:
  "enforce_deletable s v rel = Inr s' \<Longrightarrow> \<exists>x. s' = s\<lparr>clock := x\<rparr>"
  by (auto simp: enforce_deletable_def Let_def rbind_Inr dest!: observe_clock_state
        split: option.splits if_splits intro: exI [of _ "clock s"])

lemma record_matches_iff: "record_matches r b k \<longleftrightarrow> rec_bucket r = b \<and> rec_key r = k"
  by (cases r) auto

text \<open>What is left of the index once the version itself is removed.\<close>

lemma removed_core:
  assumes inv: "index_inv s" and r: "ver s (rec_version_id r) = Some r"
    and x: "x = rec_object_key r"
    and t: "t = remove_version (remove_object_lock s (rec_version_id r)) r"
  shows "core (if rec_is_null r then clear_null t x (rec_version_id r) else t) = core (drop_record s r)"
proof -
  have "t_get (null_versions s) x = Some (uuid_bytes (rec_version_id r))" if "rec_is_null r"
    using null_versionD [OF inv] r x that by blast
  then show ?thesis
    by (intro core_eqI; cases "rec_is_null r";
        simp add: t x clear_null_def remove_version_def remove_object_lock_def drop_record_def Let_def)
qed

lemma unhooked_swap:
  "drop_record (hide s x) r = hide (drop_record s r) x"
  by (simp add: drop_record_def hide_def)

lemma moved_current:
  assumes t: "moved ext s (drop_record s r) w d q t" and cur: "cur = current_of s r"
    and obj: "b = rec_bucket r" "k = rec_key r" "x = rec_object_key r"
    and out: "out = out_of s r" and inn: "inn = Option.bind (next_of s r) as_object"
    and Q: "\<And>t'. moved ext s (version_core s r) w
        (d(OBJECT_COUNT := d OBJECT_COUNT - of_bool (out \<noteq> None) + of_bool (inn \<noteq> None),
           LOGICAL_BYTES := d LOGICAL_BYTES - uint (opt_size out) + uint (opt_size inn))) q t' \<Longrightarrow>
        Q (u\<lparr>bu_current_objects := bu_current_objects u - of_bool (out \<noteq> None) + of_bool (inn \<noteq> None),
             bu_logical_bytes := bu_logical_bytes u - opt_size out + opt_size inn\<rparr>, t')"
  shows "post (if cur then rbind (unpublish_current t x u) (\<lambda>(usage, s). publish_latest s b k usage) else Inr (u, t)) Q"
proof (cases cur)
  case False
  with t Q [of t] cur show ?thesis
    by (simp add: post_Inr out inn out_of_def next_of_def version_core_def unhooked_def opt_size_def)
next
  case True
  have h: "hide (drop_record s r) x = unhooked s r"
    using True by (simp add: unhooked_def cur obj unhooked_swap [symmetric])
  have n: "latest_version (unhooked s r) b k = next_of s r"
    using True by (simp add: next_of_def cur obj)
  have o: "out = t_get (objects (drop_record s r)) x"
    using True by (simp add: out out_of_def cur obj)
  have x: "object_key b k = rec_object_key r" by (simp add: obj rec_object_key_def)
  have "post (unpublish_current t x u) (\<lambda>(usage, s). post (publish_latest s b k usage) Q)"
    apply (rule moved_unpublish [OF t o], unfold h split_conv)
    apply (erule moved_publish_latest [where inn = inn and c' = "version_core s r"])
      apply (simp add: n inn)
     apply (unfold n version_core_def x, rule refl)
    apply (drule moved_eq [OF _ refl _ refl])
     prefer 2 apply (drule Q [unfolded version_core_def])
     apply (simp, simp add: fun_eq_iff)
    done
  with True show ?thesis
    by (simp add: post_rbind post_case_prod)
qed

lemma version_finish:
  assumes t: "moved ext s c w d q t" and Q: "\<And>t'. moved ext s c (t_insert (bucket_key b) us w) d q t' \<Longrightarrow> Q t'"
  shows "post (case read_bucket (write_bucket_usage t b us) b of None \<Rightarrow> Inr (write_bucket_usage t b us)
     | Some br \<Rightarrow> journal_event ext (write_bucket_usage t b us) ty (bucket_name br) k v sz at) Q"
  by (cases "read_bucket (write_bucket_usage t b us) b")
     (simp_all add: post_Inr Q moved_usage [OF t] moved_journal [OF moved_usage [OF t]])

lemma remove_one_effect:
  assumes inv: "index_inv s" and r: "ver s (rec_version_id r) = Some r"
    and v: "v = rec_version_id r" and obj: "b = rec_bucket r" "k = rec_key r"
  shows "post (remove_one_version ext s b k v r at)
     (\<lambda>(res, s'). version_effect ext s r s' \<and> res = Some \<lparr>removed = r, version_cleanup = as_object r\<rparr>)"
proof -
  let ?x = "object_key b k"
  let ?t = "remove_version (remove_object_lock s v) r"
  let ?t' = "if rec_is_null r then clear_null ?t ?x v else ?t"
  have x: "?x = rec_object_key r" by (simp add: obj rec_object_key_def)
  have cur: "(current_version s ?x = Some v) = current_of s r" by (simp add: current_of_def x v)
  have start: "moved ext s (drop_record s r) (bucket_usage s) no_delta {} ?t'"
  proof (rule moved_start)
    show "core ?t' = core (drop_record s r)"
      unfolding v by (rule removed_core [OF inv r x refl])
  qed (simp_all add: remove_version_def remove_object_lock_def clear_null_def Let_def)
  have u: "read_bucket_usage ?t' b = read_bucket_usage s b"
    by (simp add: read_bucket_usage_def remove_version_def remove_object_lock_def clear_null_def Let_def)
  show ?thesis
    unfolding remove_one_version_def Let_def post_rbind post_case_prod post_Inr split_conv u cur
    apply (rule moved_adjust [OF start], simp)
    apply (erule moved_release_payload)
    apply (simp only: split_conv)
    apply (erule moved_current [OF _ refl obj x refl refl])
    apply (simp only: split_conv)
    apply (erule version_finish)
    apply (simp only: version_effect_def Let_def simp_thms)
    apply (erule moved_eq)
      apply (simp add: version_usage_def null_usage_def obj)
     apply (simp add: version_delta_def null_delta_def fun_eq_iff)
    apply simp
    done
qed

lemma delete_version_effect:
  assumes inv: "index_inv s"
  shows "post (delete_object_version_tx ext s b k v rel) (\<lambda>(res, s').
     (res = None \<and> s' = s)
     \<or> (\<exists>r s1. ver s v = Some r \<and> record_matches r b k \<and> enforce_deletable s v rel = Inr s1
          \<and> version_effect ext s1 r s' \<and> res = Some \<lparr>removed = r, version_cleanup = as_object r\<rparr>))"
proof (cases "ver s v")
  case None
  then show ?thesis by (simp add: delete_object_version_tx_def post_Inr)
next
  case (Some r)
  show ?thesis
  proof (cases "record_matches r b k")
    case False
    with Some show ?thesis by (simp add: delete_object_version_tx_def post_Inr)
  next
    case True
    then have obj: "b = rec_bucket r" "k = rec_key r" by (simp_all add: record_matches_iff)
    have vid: "v = rec_version_id r" using version_keyedD [OF inv Some] by simp
    have "post (remove_one_version ext s1 b k v r (observed_at rel))
        (\<lambda>(res, s'). version_effect ext s1 r s' \<and> res = Some \<lparr>removed = r, version_cleanup = as_object r\<rparr>)"
      if s1: "enforce_deletable s v rel = Inr s1" for s1
    proof -
      from enforce_deletable_state [OF s1] obtain z where z: "s1 = s\<lparr>clock := z\<rparr>" ..
      then have "core s1 = core s" by simp
      then have inv1: "index_inv s1" and r1: "ver s1 (rec_version_id r) = Some r"
        using inv Some vid index_inv_cong core_eqD by (blast, metis)
      show ?thesis
        by (rule remove_one_effect [OF inv1 r1 vid obj])
    qed
    then have "post (enforce_deletable s v rel) (\<lambda>s1. post (remove_one_version ext s1 b k v r (observed_at rel))
        (\<lambda>(res, s'). (res = None \<and> s' = s)
     \<or> (\<exists>r s1. ver s v = Some r \<and> record_matches r b k \<and> enforce_deletable s v rel = Inr s1
          \<and> version_effect ext s1 r s' \<and> res = Some \<lparr>removed = r, version_cleanup = as_object r\<rparr>)))"
      using Some True unfolding post_def [of "enforce_deletable s v rel"] by (fastforce elim!: post_mono)
    with Some True show ?thesis
      by (simp add: delete_object_version_tx_def post_rbind)
  qed
qed

lemma index_delete_version:
  assumes inv: "index_inv s" and eff: "version_effect ext s r s'" and r: "ver s (rec_version_id r) = Some r"
  shows "index_inv s'"
proof -
  from eff have "core s' = core (version_core s r)"
    by (auto simp: version_effect_def Let_def dest: movedD(1))
  with index_version [OF inv r] show ?thesis using index_inv_cong by blast
qed

section \<open>Changing a lock\<close>

lemma put_object_lock_effect:
  "post (put_object_lock_tx s b k v requested rel) (\<lambda>(res, s').
     \<exists>bucket r l z. read_bucket s b = Some bucket \<and> object_lock bucket \<noteq> None \<and> ver s v = Some r
       \<and> record_matches r b k \<and> \<not> is_delete_marker r
       \<and> with_retention (read_object_lock s v) (lock_retention requested) (observed_at rel) (bypass_governance rel) = Inr l
       \<and> res = with_legal_hold l (legal_hold requested)
       \<and> (change_only_tightens (read_object_lock s v) requested \<longrightarrow> z = clock s)
       \<and> (\<not> change_only_tightens (read_object_lock s v) requested \<longrightarrow> observe_clock s rel = Inr (s\<lparr>clock := z\<rparr>))
       \<and> s' = write_object_lock (s\<lparr>clock := z\<rparr>) v res)"
  unfolding put_object_lock_tx_def Let_def post_rbind post_ok_or post_ensure post_map_err post_Inr split_conv
  apply (intro allI impI)
  apply (rule post_if [THEN iffD2], intro conjI impI)
  subgoal for bucket r
    apply (simp add: post_def)
    apply (intro allI impI)
    apply (frule observe_clock_state)
    apply auto
    done
  subgoal for bucket r
    by (auto simp: post_def)
  done

lemma index_put_object_lock:
  assumes inv: "index_inv s" and r: "ver s v = Some r" "record_matches r b k" "\<not> is_delete_marker r"
    and bucket: "read_bucket s b = Some bucket" "object_lock bucket \<noteq> None"
  shows "index_inv (write_object_lock (s\<lparr>clock := z\<rparr>) v l)"
proof -
  have "core (s\<lparr>clock := z\<rparr>) = core s" by simp
  with inv have inv': "index_inv (s\<lparr>clock := z\<rparr>)" using index_inv_cong by blast
  from r obtain m n where "r = ObjectRecord m n" "om_bucket m = b" by (cases r) auto
  with r bucket show ?thesis
    by (intro index_lock [OF inv', of v m n bucket]) (simp_all add: read_bucket_def)
qed

end
