(* ===== verification/Bucket_Commands.thy ===== *)
theory Bucket_Commands
  imports Version_Commands
begin

text \<open>
  The effect of the commands on buckets and lifecycle rules (\<^verbatim>\<open>create_bucket_tx\<close>,
  \<^verbatim>\<open>update_bucket_tx\<close>, \<^verbatim>\<open>delete_bucket_tx\<close>, \<^verbatim>\<open>put_lifecycle_rule_tx\<close>,
  \<^verbatim>\<open>delete_lifecycle_rule_tx\<close>) and that each preserves the structural invariant.
\<close>

section \<open>Replacing a bucket's record\<close>

definition set_bucket :: "catalog \<Rightarrow> Bucket \<Rightarrow> catalog" where
  "set_bucket s b = s\<lparr>buckets := t_insert (bucket_key (bucket_id b)) b (buckets s),
     bucket_names := t_insert (bucket_name b) b (bucket_names s)\<rparr>"

lemma set_bucket_frame [simp]:
  "objects (set_bucket s b) = objects s" "markers (set_bucket s b) = markers s" "versions (set_bucket s b) = versions s"
  "version_order (set_bucket s b) = version_order s" "null_versions (set_bucket s b) = null_versions s"
  "multipart (set_bucket s b) = multipart s" "multipart_order (set_bucket s b) = multipart_order s"
  "parts (set_bucket s b) = parts s" "lifecycle_rules (set_bucket s b) = lifecycle_rules s"
  "object_locks (set_bucket s b) = object_locks s"
  by (simp_all add: set_bucket_def)

lemma read_set_bucket: "read_bucket (set_bucket s b) i = (if i = bucket_id b then Some b else read_bucket s i)"
  by (simp add: read_bucket_def set_bucket_def)

text \<open>The conditions under which a bucket may be written: its name belongs to it alone, and Object Lock needs versioning.\<close>

lemma index_set_bucket:
  assumes inv: "index_inv s" and ff: "bucket_id b \<noteq> - 1"
    and name: "\<And>b'. t_get (bucket_names s) (bucket_name b) = Some b' \<Longrightarrow> bucket_id b' = bucket_id b"
    and old: "\<And>b'. read_bucket s (bucket_id b) = Some b' \<Longrightarrow> bucket_name b' = bucket_name b \<and> (object_lock b' \<noteq> None \<longleftrightarrow> object_lock b \<noteq> None)"
    and lock: "object_lock b \<noteq> None \<Longrightarrow> versioning b = Enabled"
  shows "index_inv (set_bucket s b)"
proof -
  note I = index_invD [OF inv]
  let ?t = "set_bucket s b"
  have same: "versions_keyed ?t = versions_keyed s" "order_indexed ?t = order_indexed s" "null_indexed ?t = null_indexed s"
    "current_recorded ?t = current_recorded s"
    by (simp_all only: index_parts set_bucket_frame)
  have more: "read_bucket s i \<noteq> None \<Longrightarrow> read_bucket ?t i \<noteq> None" for i
    by (auto simp: read_set_bucket)
  have "versions_owned ?t"
    using I(8) more unfolding versions_owned_def by simp
  moreover have "uploads_indexed ?t"
    using I(9) more unfolding uploads_indexed_def set_bucket_frame by blast
  moreover have "rules_owned ?t"
    using I(10) more unfolding rules_owned_def set_bucket_frame by blast
  moreover have "lock_versioned ?t"
    unfolding lock_versioned_def set_bucket_frame
  proof (intro allI impI)
    fix i b'
    assume b': "read_bucket ?t i = Some b' \<and> object_lock b' \<noteq> None"
    show "versioning b' = Enabled \<and> (\<forall>x r. t_get (versions s) x = Some r \<and> rec_bucket r = i \<longrightarrow> \<not> rec_is_null r)"
    proof (cases "i = bucket_id b")
      case True
      with b' have "b' = b" by (simp add: read_set_bucket)
      have "\<not> rec_is_null r" if r: "t_get (versions s) x = Some r" "rec_bucket r = i" for x r
      proof -
        from I(8) r True obtain b'' where "read_bucket s (bucket_id b) = Some b''"
          unfolding versions_owned_def by fastforce
        with old b' \<open>b' = b\<close> r True show ?thesis
          by (intro lock_bucket_not_null [OF inv _ _ r(1), of b'']) auto
      qed
      with lock b' \<open>b' = b\<close> show ?thesis by blast
    next
      case False
      with b' have "read_bucket s i = Some b' \<and> object_lock b' \<noteq> None" by (simp add: read_set_bucket)
      with I(6) show ?thesis
        unfolding lock_versioned_def by blast
    qed
  qed
  moreover have "locks_held ?t"
    unfolding locks_held_def set_bucket_frame
  proof (intro allI impI)
    fix x l
    assume "t_get (object_locks s) x = Some l"
    from lock_heldD [OF inv this] obtain m n b'
      where l: "\<not> is_unlocked l" "t_get (versions s) x = Some (ObjectRecord m n)"
        and b': "read_bucket s (om_bucket m) = Some b'" "object_lock b' \<noteq> None" by blast
    have "\<exists>b''. read_bucket ?t (om_bucket m) = Some b'' \<and> object_lock b'' \<noteq> None"
      using b' old [of b'] by (auto simp: read_set_bucket)
    with l show "\<not> is_unlocked l \<and> (\<exists>m n b. t_get (versions s) x = Some (ObjectRecord m n)
        \<and> read_bucket ?t (om_bucket m) = Some b \<and> object_lock b \<noteq> None)" by blast
  qed
  moreover have "buckets_indexed ?t"
  proof -
    have "bucket_name b' \<noteq> bucket_name b"
      if "t_get (buckets s) x = Some b'" "x \<noteq> bucket_key (bucket_id b)" for x b'
      using that I(5) name unfolding buckets_indexed_def by metis
    moreover have "bucket_id b' \<noteq> bucket_id b"
      if "t_get (bucket_names s) x = Some b'" "x \<noteq> bucket_name b" for x b'
      using that I(5) old [of b'] unfolding buckets_indexed_def read_bucket_def by metis
    ultimately show ?thesis
      using I(5) ff unfolding buckets_indexed_def by (auto simp: set_bucket_def)
  qed
  ultimately show ?thesis
    using I same by (simp add: index_inv_def)
qed

text \<open>An update of a bucket keeps its identity and whether it has Object Lock.\<close>

definition bucket_update_ok :: "Bucket \<Rightarrow> Bucket \<Rightarrow> bool" where
  "bucket_update_ok b b' \<longleftrightarrow> bucket_id b' = bucket_id b \<and> bucket_name b' = bucket_name b
     \<and> (object_lock b' \<noteq> None \<longleftrightarrow> object_lock b \<noteq> None)
     \<and> (object_lock b' \<noteq> None \<longrightarrow> versioning b = Enabled \<longrightarrow> versioning b' = Enabled)"

lemma update_bucket_effect:
  assumes inv: "index_inv s" and f: "\<And>b b'. f b = Inr b' \<Longrightarrow> bucket_update_ok b b'"
  shows "post (update_bucket_tx s i f) (\<lambda>(b', s'). \<exists>b. read_bucket s i = Some b \<and> f b = Inr b'
     \<and> bucket_update_ok b b' \<and> s' = set_bucket s b')"
proof -
  have "s\<lparr>buckets := t_insert (bucket_key i) b' (buckets s), bucket_names := t_insert (bucket_name b') b' (bucket_names s)\<rparr> = set_bucket s b'"
    if "read_bucket s i = Some b" "f b = Inr b'" for b b'
    using bucketD(1) [OF inv that(1)] f [OF that(2)] by (simp add: set_bucket_def bucket_update_ok_def)
  then show ?thesis
    by (auto simp: update_bucket_tx_def result_simps Let_def post_def f)
qed

lemma index_update_bucket:
  assumes inv: "index_inv s" and b: "read_bucket s i = Some b" and ok: "bucket_update_ok b b'"
  shows "index_inv (set_bucket s b')"
proof -
  note B = bucketD [OF inv b]
  from ok have id: "bucket_id b' = i" using B(1) by (simp add: bucket_update_ok_def)
  show ?thesis
  proof (rule index_set_bucket [OF inv])
    show "bucket_id b' \<noteq> - 1" using B(2) id by simp
    show "bucket_id b'' = bucket_id b'" if "t_get (bucket_names s) (bucket_name b') = Some b''" for b''
      using that ok B(1,3) by (simp add: bucket_update_ok_def)
    show "bucket_name b'' = bucket_name b' \<and> (object_lock b'' \<noteq> None \<longleftrightarrow> object_lock b' \<noteq> None)"
      if "read_bucket s (bucket_id b') = Some b''" for b''
      using that b id ok by (auto simp: bucket_update_ok_def)
    show "object_lock b' \<noteq> None \<Longrightarrow> versioning b' = Enabled"
      using B(4) ok by (simp add: bucket_update_ok_def)
  qed
qed

lemma bucket_updates:
  "set_bucket_versioning state b = Inr b' \<Longrightarrow> bucket_update_ok b b'"
  "set_bucket_object_lock conf b = Inr b' \<Longrightarrow> bucket_update_ok b b'"
  "Inr (b\<lparr>quota := q\<rparr>) = (Inr b' :: (MetadataError, Bucket) result) \<Longrightarrow> bucket_update_ok b b'"
  "Inr (b\<lparr>cors := c\<rparr>) = (Inr b' :: (MetadataError, Bucket) result) \<Longrightarrow> bucket_update_ok b b'"
  by (auto simp: set_bucket_versioning_def set_bucket_object_lock_def bucket_update_ok_def split: if_splits)

section \<open>Creating a bucket\<close>

definition create_effect :: "externs \<Rightarrow> catalog \<Rightarrow> Bucket \<Rightarrow> catalog \<Rightarrow> bool" where
  "create_effect ext s b s' \<longleftrightarrow>
     read_bucket s (bucket_id b) = None \<and> t_get (bucket_names s) (bucket_name b) = None
     \<and> (object_lock b \<noteq> None \<longrightarrow> versioning b = Enabled)
     \<and> moved ext s (set_bucket s b) (t_insert (bucket_key (bucket_id b)) default_usage (bucket_usage s))
         (no_delta(BUCKET_COUNT := 1)) {} s'"

lemma create_bucket_effect: "post (create_bucket_tx ext s b) (create_effect ext s b)"
proof -
  let ?t = "write_bucket_usage (set_bucket s b) (bucket_id b) default_usage"
  have m: "moved ext s (set_bucket s b) (t_insert (bucket_key (bucket_id b)) default_usage (bucket_usage s)) no_delta {} ?t"
    by (rule moved_start) (simp_all add: write_bucket_usage_def set_bucket_def)
  have tail: "post (journal_event ext ?t BucketCreated (bucket_name b) None None None (bucket_created_at b))
      (\<lambda>s'. post (adjust_counter s' BUCKET_COUNT 1) (\<lambda>s'.
         moved ext s (set_bucket s b) (t_insert (bucket_key (bucket_id b)) default_usage (bucket_usage s))
           (no_delta(BUCKET_COUNT := 1)) {} s'))"
    by (rule moved_journal [OF m], erule moved_adjust) simp_all
  have st: "write_bucket_usage (s\<lparr>buckets := t_insert (bucket_key (bucket_id b)) b (buckets s),
      bucket_names := t_insert (bucket_name b) b (bucket_names s)\<rparr>) (bucket_id b) default_usage = ?t"
    by (simp add: set_bucket_def)
  have lock: "post (case object_lock b of None \<Rightarrow> Inr () | Some c \<Rightarrow>
      rbind (map_err (\<lambda>e. MetaInvalidObjectLock (core_error_to_string e)) (lock_configuration_validate c)) (\<lambda>_.
        ensure (versioning b = Enabled) ObjectLockRequiresVersioning)) (\<lambda>_. object_lock b \<noteq> None \<longrightarrow> versioning b = Enabled)"
    by (cases "object_lock b") (auto simp: result_simps post_def)
  show ?thesis
    unfolding create_bucket_tx_def post_rbind Let_def post_if
    apply (rule post_mono [OF lock], intro conjI impI)
     apply (simp add: post_Inl)
    apply (simp add: st [simplified])
    apply (rule post_mono [OF tail], erule post_mono)
    apply (simp add: create_effect_def read_bucket_def)
    done
qed

lemma index_create:
  assumes inv: "index_inv s" and eff: "create_effect ext s b s'" and ff: "bucket_id b \<noteq> - 1"
  shows "index_inv s'"
proof -
  from eff have "core s' = core (set_bucket s b)" by (auto simp: create_effect_def dest: movedD(1))
  moreover have "index_inv (set_bucket s b)"
    using eff by (intro index_set_bucket [OF inv ff]) (simp_all add: create_effect_def)
  ultimately show ?thesis using index_inv_cong by blast
qed

section \<open>Deleting a bucket\<close>

definition without_bucket :: "catalog \<Rightarrow> Bucket \<Rightarrow> catalog" where
  "without_bucket s b = s\<lparr>bucket_names := t_remove (bucket_name b) (bucket_names s),
     buckets := t_remove (bucket_key (bucket_id b)) (buckets s),
     lifecycle_rules := t_remove_all (map fst (filter (\<lambda>e. rule_bucket (snd e) = bucket_id b) (t_iter (lifecycle_rules s)))) (lifecycle_rules s)\<rparr>"

definition drop_bucket_effect :: "externs \<Rightarrow> catalog \<Rightarrow> BucketName \<Rightarrow> Bucket \<Rightarrow> catalog \<Rightarrow> bool" where
  "drop_bucket_effect ext s name b s' \<longleftrightarrow>
     t_get (bucket_names s) name = Some b \<and> bu_versions (read_bucket_usage s (bucket_id b)) = 0
     \<and> \<not> has_multipart s (bucket_id b)
     \<and> moved ext s (without_bucket s b) (t_remove (bucket_key (bucket_id b)) (bucket_usage s)) (no_delta(BUCKET_COUNT := - 1)) {} s'"

lemma delete_bucket_effect:
  assumes inv: "index_inv s"
  shows "post (delete_bucket_tx ext s name at) (\<lambda>(b, s'). drop_bucket_effect ext s name b s')"
proof -
  have "post (adjust_counter t BUCKET_COUNT (- 1)) (\<lambda>s'. post (journal_event ext s' BucketDeleted (bucket_name b) None None None at)
      (\<lambda>s'. drop_bucket_effect ext s name b s'))"
    if b: "t_get (bucket_names s) name = Some b" "bu_versions (read_bucket_usage s (bucket_id b)) = 0" "\<not> has_multipart s (bucket_id b)"
      and t: "core t = core (without_bucket s b)" "bucket_usage t = t_remove (bucket_key (bucket_id b)) (bucket_usage s)"
        "clock t = clock s" "counters t = counters s" "cleanup t = cleanup s" "mutation_events t = mutation_events s" for b t
  proof -
    have "moved ext s (without_bucket s b) (t_remove (bucket_key (bucket_id b)) (bucket_usage s)) no_delta {} t"
      by (rule moved_start) (simp_all add: t)
    then show ?thesis
      by (rule moved_adjust, simp) (erule moved_journal, use b in \<open>simp add: drop_bucket_effect_def\<close>)
  qed
  note tail = this
  have name: "bucket_name b = name" if "t_get (bucket_names s) name = Some b" for b
    using that index_invD(5) [OF inv] unfolding buckets_indexed_def by blast
  show ?thesis
    unfolding delete_bucket_tx_def Let_def post_rbind post_ok_or post_if post_Inr split_conv
    by (intro allI impI conjI, simp add: post_Inl) (rule tail; (rule core_eqI)?; auto simp: without_bucket_def name)
qed

lemma be_bytes_max: "be_bytes w (256 ^ w - 1) = replicate w 0xFF"
proof (induction w)
  case (Suc w)
  have n: "256 ^ Suc w - 1 = 256 * (256 ^ w - 1) + (255 :: nat)"
    by (simp add: diff_mult_distrib2)
  have "(256 ^ Suc w - 1) div 256 = (256 ^ w - 1 :: nat)" "(256 ^ Suc w - 1) mod 256 = (255 :: nat)"
    unfolding n by simp_all
  with Suc show ?case by (simp only: be_bytes.simps) (simp add: replicate_append_same)
qed simp

lemma uuid_bytes_not_max:
  assumes "u \<noteq> - 1"
  shows "\<exists>y \<in> set (uuid_bytes u). y \<noteq> 0xFF"
proof (rule ccontr)
  assume "\<not> ?thesis"
  then have "uuid_bytes u = replicate 16 0xFF"
    by (intro replicate_eqI) (auto simp: uuid_bytes_def)
  also have "\<dots> = uuid_bytes (- 1)"
  proof -
    have "unat (- 1 :: uuid) = 256 ^ 16 - 1" by (simp add: unsigned_minus_1_eq_mask mask_eq_exp_minus_1)
    then show ?thesis by (simp only: uuid_bytes_def be_bytes_max)
  qed
  finally show False using assms by simp
qed

lemma uploadD:
  "index_inv s \<Longrightarrow> t_get (multipart s) x = Some u \<Longrightarrow>
     x = uuid_bytes (up_id u) \<and> up_id u \<noteq> - 1 \<and> read_bucket s (up_bucket u) \<noteq> None"
  by (drule index_invD(9)) (simp add: uploads_indexed_def)

lemma upload_orderD:
  "index_inv s \<Longrightarrow> t_get (multipart_order s) x = Some v \<longleftrightarrow>
     (\<exists>u. t_get (multipart s) v = Some u \<and> x = multipart_order_key u)"
  by (drule index_invD(9)) (simp add: uploads_indexed_def)

lemma partD:
  "index_inv s \<Longrightarrow> t_get (parts s) x = Some p \<Longrightarrow>
     x = part_key (part_upload p) (part_number p) \<and> t_get (multipart s) (uuid_bytes (part_upload p)) \<noteq> None"
  by (drule index_invD(9)) (simp add: uploads_indexed_def)

lemma has_multipart_iff:
  assumes inv: "index_inv s" and b: "b \<noteq> - 1"
  shows "has_multipart s b \<longleftrightarrow> (\<exists>v u. t_get (multipart s) v = Some u \<and> up_bucket u = b)"
proof -
  have "\<exists>y \<in> set (bucket_key b). y \<noteq> 0xFF"
    unfolding bucket_key_def by (rule uuid_bytes_not_max [OF b])
  note scan = prefix_range [OF this]
  have pre: "prefix (bucket_key b) (multipart_order_key u) \<longleftrightarrow> up_bucket u = b" for u
    by (auto simp: multipart_order_key_def object_key_def object_prefix_def bucket_key_def prefix_def append_prefix_inject)
  have "has_multipart s b \<longleftrightarrow> (\<exists>x v. t_get (multipart_order s) x = Some v \<and> prefix (bucket_key b) x)"
    unfolding has_multipart_def Let_def t_range_empty using scan by blast
  also have "\<dots> \<longleftrightarrow> (\<exists>v u. t_get (multipart s) v = Some u \<and> up_bucket u = b)"
    unfolding upload_orderD [OF inv] using pre by auto
  finally show ?thesis .
qed

lemma index_delete_bucket:
  assumes inv: "index_inv s" and b: "t_get (bucket_names s) name = Some b"
    and empty: "\<And>v r. t_get (versions s) v = Some r \<Longrightarrow> rec_bucket r \<noteq> bucket_id b"
      "\<And>v u. t_get (multipart s) v = Some u \<Longrightarrow> up_bucket u \<noteq> bucket_id b"
  shows "index_inv (without_bucket s b)"
proof -
  note I = index_invD [OF inv]
  let ?t = "without_bucket s b"
  have frame: "objects ?t = objects s" "markers ?t = markers s" "versions ?t = versions s" "version_order ?t = version_order s"
    "null_versions ?t = null_versions s" "multipart ?t = multipart s" "multipart_order ?t = multipart_order s"
    "parts ?t = parts s" "object_locks ?t = object_locks s"
    by (simp_all add: without_bucket_def)
  have rb: "read_bucket ?t i = (if i = bucket_id b then None else read_bucket s i)" for i
    by (simp add: read_bucket_def without_bucket_def)
  have same: "versions_keyed ?t = versions_keyed s" "order_indexed ?t = order_indexed s" "null_indexed ?t = null_indexed s"
    "current_recorded ?t = current_recorded s"
    by (simp_all only: index_parts frame)
  have "lock_versioned ?t" using I(6) unfolding lock_versioned_def rb frame by (auto split: if_splits)
  moreover have "versions_owned ?t" using I(8) empty(1) by (simp add: versions_owned_def rb frame)
  moreover have "locks_held ?t"
    unfolding locks_held_def frame rb using lock_heldD [OF inv] empty(1) by (metis rec_bucket.simps(1))
  moreover have "uploads_indexed ?t" using I(9) empty(2) by (simp add: uploads_indexed_def rb frame)
  moreover have "rules_owned ?t"
  proof -
    have "t_get (lifecycle_rules ?t) x = Some r \<longleftrightarrow> t_get (lifecycle_rules s) x = Some r \<and> rule_bucket r \<noteq> bucket_id b" for x r
    proof -
      let ?ids = "map fst (filter (\<lambda>e. rule_bucket (snd e) = bucket_id b) (t_iter (lifecycle_rules s)))"
      have ids: "x \<in> set ?ids \<longleftrightarrow> (\<exists>q. t_get (lifecycle_rules s) x = Some q \<and> rule_bucket q = bucket_id b)"
        unfolding t_get_iff by (force simp: image_iff)
      have l: "lifecycle_rules ?t = t_remove_all ?ids (lifecycle_rules s)" by (simp add: without_bucket_def)
      show ?thesis unfolding l t_get_remove_all ids by auto
    qed
    with I(10) show ?thesis by (auto simp: rules_owned_def rb)
  qed
  moreover have "buckets_indexed ?t"
    using I(5) b unfolding buckets_indexed_def by (simp add: without_bucket_def) metis
  ultimately show ?thesis using I same by (simp add: index_inv_def)
qed

section \<open>Lifecycle rules\<close>

lemma index_rules:
  assumes inv: "index_inv s"
    and rules: "\<And>x r. t_get rs x = Some r \<Longrightarrow> x = uuid_bytes (rule_id r) \<and> read_bucket s (rule_bucket r) \<noteq> None"
  shows "index_inv (s\<lparr>lifecycle_rules := rs\<rparr>)"
proof -
  let ?t = "s\<lparr>lifecycle_rules := rs\<rparr>"
  have rb: "read_bucket ?t = read_bucket s" by (rule read_bucket_cong) simp
  have "rules_owned ?t" using rules by (simp add: rules_owned_def rb)
  moreover have "versions_keyed ?t = versions_keyed s" "order_indexed ?t = order_indexed s" "null_indexed ?t = null_indexed s"
    "current_recorded ?t = current_recorded s" "buckets_indexed ?t = buckets_indexed s" "lock_versioned ?t = lock_versioned s"
    "locks_held ?t = locks_held s" "versions_owned ?t = versions_owned s" "uploads_indexed ?t = uploads_indexed s"
    by (simp_all add: index_parts rb)
  ultimately show ?thesis using index_invD [OF inv] by (simp add: index_inv_def)
qed

lemma ruleD:
  "index_inv s \<Longrightarrow> t_get (lifecycle_rules s) x = Some r \<Longrightarrow> x = uuid_bytes (rule_id r) \<and> read_bucket s (rule_bucket r) \<noteq> None"
  by (drule index_invD(10)) (simp add: rules_owned_def)

lemma index_put_rule:
  assumes "index_inv s" and "put_lifecycle_rule_tx s r = Inr s'"
  shows "index_inv s' \<and> (\<exists>rs. s' = s\<lparr>lifecycle_rules := rs\<rparr>)"
proof -
  from assms(2) have "read_bucket s (rule_bucket r) \<noteq> None"
    and s': "s' = s\<lparr>lifecycle_rules := t_insert (uuid_bytes (rule_id r)) r (lifecycle_rules s)\<rparr>"
    by (auto simp: put_lifecycle_rule_tx_def result_simps)
  with assms(1) have "index_inv s'"
    unfolding s' by (intro index_rules) (auto split: if_splits dest: ruleD)
  with s' show ?thesis by blast
qed

lemma index_delete_rule:
  assumes "index_inv s" and "delete_lifecycle_rule_tx s r = Inr s'"
  shows "index_inv s' \<and> (\<exists>rs. s' = s\<lparr>lifecycle_rules := rs\<rparr>)"
proof -
  from assms(2) have s': "s' = s\<lparr>lifecycle_rules := t_remove (uuid_bytes r) (lifecycle_rules s)\<rparr>"
    by (auto simp: delete_lifecycle_rule_tx_def split: if_splits)
  with assms(1) have "index_inv s'"
    unfolding s' by (intro index_rules) (auto split: if_splits dest: ruleD)
  with s' show ?thesis by blast
qed

end
