(* ===== verification/Multipart_Commands.thy ===== *)
theory Multipart_Commands
  imports Bucket_Commands
begin

text \<open>
  The effect of the commands on multipart uploads (\<^verbatim>\<open>create_multipart_upload_tx\<close>,
  \<^verbatim>\<open>put_multipart_part_tx\<close>, \<^verbatim>\<open>begin_multipart_completion_tx\<close>, \<^verbatim>\<open>remove_multipart_tx\<close>,
  \<^verbatim>\<open>recover_multipart_completions_tx\<close>) and that each preserves the structural invariant.
\<close>

lemma index_uploads:
  assumes inv: "index_inv s" and up: "uploads_indexed t"
    and same: "core (t\<lparr>multipart := t_empty, multipart_order := t_empty, parts := t_empty\<rparr>)
      = core (s\<lparr>multipart := t_empty, multipart_order := t_empty, parts := t_empty\<rparr>)"
  shows "index_inv t"
proof -
  from core_eqD [OF same] have E: "buckets t = buckets s" "bucket_names t = bucket_names s" "versions t = versions s"
    "version_order t = version_order s" "null_versions t = null_versions s" "objects t = objects s"
    "markers t = markers s" "lifecycle_rules t = lifecycle_rules s" "object_locks t = object_locks s" by simp_all
  have "versions_keyed t = versions_keyed s" "order_indexed t = order_indexed s" "null_indexed t = null_indexed s"
    "buckets_indexed t = buckets_indexed s" "lock_versioned t = lock_versioned s" "locks_held t = locks_held s"
    "versions_owned t = versions_owned s" "current_recorded t = current_recorded s" "rules_owned t = rules_owned s"
    by (simp_all only: index_parts read_bucket_def E)
  with index_invD [OF inv] up show ?thesis by (simp add: index_inv_def)
qed

section \<open>Starting an upload and replacing its record\<close>

definition with_upload :: "catalog \<Rightarrow> MultipartUpload \<Rightarrow> catalog" where
  "with_upload s u = s\<lparr>multipart := t_insert (uuid_bytes (up_id u)) u (multipart s),
     multipart_order := t_insert (multipart_order_key u) (uuid_bytes (up_id u)) (multipart_order s)\<rparr>"

lemma index_with_upload:
  assumes inv: "index_inv s" and b: "read_bucket s (up_bucket u) \<noteq> None" and ff: "up_id u \<noteq> - 1"
    and old: "\<And>u'. t_get (multipart s) (uuid_bytes (up_id u)) = Some u' \<Longrightarrow> multipart_order_key u' = multipart_order_key u"
  shows "index_inv (with_upload s u)"
proof (rule index_uploads [OF inv])
  let ?t = "with_upload s u"
  have rb: "read_bucket ?t = read_bucket s" by (rule read_bucket_cong) (simp add: with_upload_def)
  have m: "multipart ?t = t_insert (uuid_bytes (up_id u)) u (multipart s)"
    and o: "multipart_order ?t = t_insert (multipart_order_key u) (uuid_bytes (up_id u)) (multipart_order s)"
    and p: "parts ?t = parts s"
    by (simp_all add: with_upload_def)
  show "uploads_indexed ?t"
    unfolding uploads_indexed_def rb p
  proof (intro conjI allI impI)
    fix x p assume "t_get (parts s) x = Some p"
    from partD [OF inv this] show "x = part_key (part_upload p) (part_number p)"
      "t_get (multipart ?t) (uuid_bytes (part_upload p)) \<noteq> None" by (auto simp: m)
  next
    fix x v
    have other: "multipart_order_key u \<noteq> multipart_order_key u'" if "t_get (multipart s) v = Some u'" "v \<noteq> uuid_bytes (up_id u)" for u'
      using that uploadD [OF inv that(1)] multipart_order_key_upload [of u u'] by auto
    show "t_get (multipart_order ?t) x = Some v \<longleftrightarrow> (\<exists>u. t_get (multipart ?t) v = Some u \<and> x = multipart_order_key u)"
      unfolding m o using old by (auto simp: upload_orderD [OF inv] dest: other)
  qed (use uploadD [OF inv] b ff in \<open>auto simp: m split: if_splits\<close>)
qed (simp add: with_upload_def core_def)

lemma create_upload_effect:
  assumes "create_multipart_upload_tx s u = Inr s'"
  shows "read_bucket s (up_bucket u) \<noteq> None \<and> t_get (multipart s) (uuid_bytes (up_id u)) = None \<and> s' = with_upload s u"
  using assms by (auto simp: create_multipart_upload_tx_def with_upload_def Let_def split: if_splits)

lemma index_create_upload:
  assumes "index_inv s" and "create_multipart_upload_tx s u = Inr s'" and "up_id u \<noteq> - 1"
  shows "index_inv s'"
  using create_upload_effect [OF assms(2)] assms by (auto intro: index_with_upload)

text \<open>A change of an upload's state: its place in the order stays.\<close>

lemma restate_upload:
  assumes inv: "index_inv s" and u: "t_get (multipart s) x = Some u"
  shows "s\<lparr>multipart := t_insert x (u\<lparr>up_state := st\<rparr>) (multipart s)\<rparr> = with_upload s (u\<lparr>up_state := st\<rparr>)"
    and "index_inv (with_upload s (u\<lparr>up_state := st\<rparr>))"
proof -
  let ?u = "u\<lparr>up_state := st\<rparr>"
  have k: "multipart_order_key ?u = multipart_order_key u" by (simp add: multipart_order_key_def)
  note U = uploadD [OF inv u]
  have "t_get (multipart_order s) (multipart_order_key u) = Some x"
    using upload_orderD [OF inv] u by blast
  then show "s\<lparr>multipart := t_insert x ?u (multipart s)\<rparr> = with_upload s ?u"
    using U by (simp add: with_upload_def k t_insert_same)
  show "index_inv (with_upload s ?u)"
    using U u by (intro index_with_upload [OF inv]) (auto simp: k)
qed

lemma begin_completion_effect:
  assumes inv: "index_inv s"
  shows "post (begin_multipart_completion_tx s i x) (\<lambda>(u', s').
     \<exists>u. t_get (multipart s) (uuid_bytes i) = Some u \<and> u' = u\<lparr>up_state := Completing x\<rparr> \<and> s' = with_upload s u'
       \<and> (up_state u = Active \<or> up_state u = Completing x))"
  unfolding begin_multipart_completion_tx_def post_rbind post_ok_or
proof (intro allI impI)
  fix u assume u: "t_get (multipart s) (uuid_bytes i) = Some u"
  note r = restate_upload(1) [OF inv u, of "Completing x"]
  show "post (case up_state u of Active \<Rightarrow> Inr (u\<lparr>up_state := Completing x\<rparr>)
          | Completing existing \<Rightarrow> if existing = x then Inr u else Inl MultipartStateConflict)
        (\<lambda>y. post (Inr (y, s\<lparr>multipart := t_insert (uuid_bytes i) y (multipart s)\<rparr>)) (\<lambda>(u', s').
     \<exists>u. t_get (multipart s) (uuid_bytes i) = Some u \<and> u' = u\<lparr>up_state := Completing x\<rparr> \<and> s' = with_upload s u'
       \<and> (up_state u = Active \<or> up_state u = Completing x)))"
  proof (cases "up_state u")
    case Active
    with u r show ?thesis by (simp add: post_Inr)
  next
    case (Completing e)
    then have e: "u\<lparr>up_state := Completing e\<rparr> = u" by (cases u) simp
    show ?thesis
    proof (cases "e = x")
      case True
      with e have ux: "u\<lparr>up_state := Completing x\<rparr> = u" by simp
      from r [unfolded ux] True Completing u ux show ?thesis by (simp add: post_Inr)
    qed (simp add: Completing post_Inl)
  qed
qed

section \<open>Publishing a part\<close>

definition part_delta :: "int \<Rightarrow> str \<Rightarrow> int" where
  "part_delta k = no_delta(MULTIPART_BYTES := k)"

definition part_effect :: "externs \<Rightarrow> catalog \<Rightarrow> UploadedPart \<Rightarrow> catalog \<Rightarrow> bool" where
  "part_effect ext s p s' \<longleftrightarrow>
     (\<exists>u bucket. let x = part_key (part_upload p) (part_number p); previous = t_get (parts s) x;
          w = read_bucket_usage s (up_bucket u); bytes = bu_multipart_bytes w - opt_part_size previous + part_size p
      in t_get (multipart s) (uuid_bytes (part_upload p)) = Some u \<and> up_state u = Active
         \<and> read_bucket s (up_bucket u) = Some bucket
         \<and> bytes_allow (quota_bytes (quota bucket)) (saturating_add (bu_version_bytes w) bytes)
         \<and> moved ext s (s\<lparr>parts := t_insert x p (parts s)\<rparr>)
             (t_insert (bucket_key (up_bucket u)) (w\<lparr>bu_multipart_bytes := bytes\<rparr>) (bucket_usage s))
             (part_delta (uint (part_size p) - uint (opt_part_size previous)))
             (part_object ` set_option previous) s')"

lemma put_part_effect: "post (put_multipart_part_tx s p) (\<lambda>(res, s'). part_effect ext s p s')"
proof -
  let ?x = "part_key (part_upload p) (part_number p)"
  let ?previous = "t_get (parts s) ?x"
  have "post (adjust_counter (write_bucket_usage (s\<lparr>parts := t_insert ?x p (parts s)\<rparr>) b w) MULTIPART_BYTES d) (\<lambda>s'.
      Q (case ?previous of None \<Rightarrow> s' | Some old \<Rightarrow> queue_cleanup s' (part_object old)))"
    if Q: "\<And>t. moved ext s (s\<lparr>parts := t_insert ?x p (parts s)\<rparr>) (t_insert (bucket_key b) w (bucket_usage s)) (part_delta d)
        (part_object ` set_option ?previous) t \<Longrightarrow> Q t" for b w d Q
  proof -
    have m: "moved ext s (s\<lparr>parts := t_insert ?x p (parts s)\<rparr>) (t_insert (bucket_key b) w (bucket_usage s)) no_delta {}
        (write_bucket_usage (s\<lparr>parts := t_insert ?x p (parts s)\<rparr>) b w)"
      by (rule moved_start) (simp_all add: write_bucket_usage_def)
    have q: "moved ext s (s\<lparr>parts := t_insert ?x p (parts s)\<rparr>) (t_insert (bucket_key b) w (bucket_usage s)) (part_delta d)
        (part_object ` set_option ?previous) (case ?previous of None \<Rightarrow> t | Some old \<Rightarrow> queue_cleanup t (part_object old))"
      if t: "moved ext s (s\<lparr>parts := t_insert ?x p (parts s)\<rparr>) (t_insert (bucket_key b) w (bucket_usage s)) (no_delta(MULTIPART_BYTES := 0 + d)) {} t" for t
      using t moved_queue [OF t] by (cases ?previous) (simp_all add: part_delta_def)
    show ?thesis
      by (rule moved_adjust [OF m], simp) (rule Q, erule q)
  qed
  note tail = this
  show ?thesis
    unfolding put_multipart_part_tx_def Let_def post_rbind post_ok_or post_ensure post_Inr split_conv
    apply (intro allI impI)
    apply (rule tail)
    apply (auto simp: part_effect_def Let_def bind_eq_Some_conv checked_sub_Some checked_add_Some)
    done
qed

lemma index_put_part:
  assumes inv: "index_inv s" and eff: "part_effect ext s p s'"
  shows "index_inv s'"
proof -
  let ?t = "s\<lparr>parts := t_insert (part_key (part_upload p) (part_number p)) p (parts s)\<rparr>"
  from eff have m: "t_get (multipart s) (uuid_bytes (part_upload p)) \<noteq> None" and c: "core s' = core ?t"
    by (auto simp: part_effect_def Let_def dest: movedD(1))
  have rb: "read_bucket ?t = read_bucket s" by (rule read_bucket_cong) simp
  have "uploads_indexed ?t"
    using index_invD(9) [OF inv] m unfolding uploads_indexed_def rb by simp
  then have "index_inv ?t"
    by (rule index_uploads [OF inv]) (simp add: core_def)
  with c show ?thesis using index_inv_cong by blast
qed

section \<open>Removing an upload\<close>

definition parts_of :: "catalog \<Rightarrow> UploadId \<Rightarrow> UploadedPart list" where
  "parts_of s i = map snd (filter (\<lambda>e. part_upload (snd e) = i) (t_iter (parts s)))"

lemma list_parts_eq:
  assumes inv: "index_inv s" and i: "i \<noteq> - 1"
  shows "list_parts_tx s i = parts_of s i"
proof -
  have "prefix (uuid_bytes i) x \<longleftrightarrow> part_upload p = i" if "(x, p) \<in> set (t_iter (parts s))" for x p
    using partD [OF inv, of x p] that
    by (auto simp: t_get_iff part_key_def prefix_def append_prefix_inject)
  then have "filter (\<lambda>e. uuid_bytes i \<le> fst e \<and> fst e < prefix_successor (uuid_bytes i)) (t_iter (parts s))
      = filter (\<lambda>e. part_upload (snd e) = i) (t_iter (parts s))"
    by (intro filter_cong) (auto simp: prefix_range [OF uuid_bytes_not_max [OF i]])
  then show ?thesis by (simp add: list_parts_tx_def parts_of_def t_range_def Let_def)
qed

lemma set_parts_of: "p \<in> set (parts_of s i) \<longleftrightarrow> (\<exists>x. t_get (parts s) x = Some p) \<and> part_upload p = i"
  by (force simp: parts_of_def t_get_iff image_iff)

definition part_bytes :: "catalog \<Rightarrow> UploadId \<Rightarrow> nat" where
  "part_bytes s i = t_total (\<lambda>p. if part_upload p = i then unat (part_size p) else 0) (parts s)"

lemma sum_part_sizes_Some:
  "sum_part_sizes acc ps = Some freed \<Longrightarrow> unat freed = unat acc + sum_list (map (\<lambda>p. unat (part_size p)) ps)"
proof (induction ps arbitrary: acc)
  case (Cons p ps)
  then obtain acc' where "checked_add acc (part_size p) = Some acc'" and rest: "sum_part_sizes acc' ps = Some freed"
    by (auto simp: bind_eq_Some_conv)
  then have "unat acc' = unat acc + unat (part_size p)"
    by (auto simp: checked_add_Some intro: unat_add_no_wrap)
  with Cons.IH [OF rest] show ?case by simp
qed simp

lemma sum_parts_of: "sum_list (map (\<lambda>p. unat (part_size p)) (parts_of s i)) = part_bytes s i"
proof -
  have "sum_list (map (\<lambda>e. f (snd e)) (filter (\<lambda>e. P (snd e)) xs)) = sum_list (map (\<lambda>e. if P (snd e) then f (snd e) else 0) xs)"
    for xs :: "(bytes \<times> UploadedPart) list" and f :: "UploadedPart \<Rightarrow> nat" and P
    by (induction xs) auto
  then show ?thesis
    by (simp add: parts_of_def part_bytes_def t_total_def comp_def)
qed

definition without_upload :: "catalog \<Rightarrow> MultipartUpload \<Rightarrow> catalog" where
  "without_upload s u = s\<lparr>multipart := t_remove (uuid_bytes (up_id u)) (multipart s),
     multipart_order := t_remove (multipart_order_key u) (multipart_order s),
     parts := t_remove_all (map (\<lambda>p. part_key (up_id u) (part_number p)) (parts_of s (up_id u))) (parts s)\<rparr>"

definition remove_effect :: "externs \<Rightarrow> catalog \<Rightarrow> MultipartUpload \<Rightarrow> MultipartCleanupResult \<Rightarrow> catalog \<Rightarrow> bool" where
  "remove_effect ext s u res s' \<longleftrightarrow>
     (\<exists>freed. let w = read_bucket_usage s (up_bucket u) in unat freed = part_bytes s (up_id u)
       \<and> t_get (multipart s) (uuid_bytes (up_id u)) = Some u
       \<and> cleanup_parts res = parts_of s (up_id u)
       \<and> moved ext s (without_upload s u)
           (t_insert (bucket_key (up_bucket u)) (w\<lparr>bu_multipart_bytes := bu_multipart_bytes w - freed\<rparr>) (bucket_usage s))
           (part_delta (- uint freed)) (part_object ` set (parts_of s (up_id u))) s')"

lemma remove_multipart_effect:
  assumes inv: "index_inv s"
  shows "post (remove_multipart_tx ext s i completing at) (\<lambda>(res, s').
     \<exists>u. up_id u = i \<and> (completing \<longrightarrow> is_completing u) \<and> remove_effect ext s u res s')"
  unfolding remove_multipart_tx_def post_rbind post_ok_or post_ensure
proof (intro allI impI)
  fix u
  assume u: "t_get (multipart s) (uuid_bytes i) = Some u" and c: "completing \<longrightarrow> is_completing u"
  note U = uploadD [OF inv u]
  then have id: "up_id u = i" and ps: "list_parts_tx s i = parts_of s i"
    by (auto intro: list_parts_eq [OF inv])
  let ?t = "without_upload s u"
  have t: "(let s = s\<lparr>multipart := t_remove (uuid_bytes i) (multipart s)\<rparr>;
         s = s\<lparr>multipart_order := t_remove (multipart_order_key u) (multipart_order s)\<rparr>
      in s\<lparr>parts := t_remove_all (map (\<lambda>p. part_key i (part_number p)) (parts_of s i)) (parts s)\<rparr>) = ?t"
    by (simp add: without_upload_def id parts_of_def)
  have po: "parts_of (s\<lparr>multipart := x, multipart_order := y\<rparr>) i = parts_of s i" for x y
    by (simp add: parts_of_def)
  have w: "read_bucket_usage ?t b = read_bucket_usage s b" for b
    by (simp add: read_bucket_usage_def without_upload_def)
  have "post (adjust_counter (write_bucket_usage ?t b v) MULTIPART_BYTES d) (\<lambda>t.
      post (if \<not> completing then journal_event ext (queue_cleanups t (map part_object (parts_of s i))) MultipartAborted
          (bucket_name_of ext (queue_cleanups t (map part_object (parts_of s i))) b') k None None at
        else Inr (queue_cleanups t (map part_object (parts_of s i)))) Q)"
    if Q: "\<And>t. moved ext s ?t (t_insert (bucket_key b) v (bucket_usage s)) (part_delta d) (part_object ` set (parts_of s i)) t \<Longrightarrow> Q t"
    for b b' v d k Q
  proof -
    have m: "moved ext s ?t (t_insert (bucket_key b) v (bucket_usage s)) no_delta {} (write_bucket_usage ?t b v)"
      by (rule moved_start) (simp_all add: write_bucket_usage_def without_upload_def)
    have j: "post (if \<not> completing then journal_event ext t' MultipartAborted bn k None None at else Inr t') Q"
      if "moved ext s ?t (t_insert (bucket_key b) v (bucket_usage s)) (part_delta d) (part_object ` set (parts_of s i)) t'" for t' bn
      using that by (auto simp: post_Inr intro: moved_journal [OF that] Q)
    show ?thesis
      apply (rule moved_adjust [OF m], simp)
      apply (drule moved_queues [where xs = "map part_object (parts_of s i)"])
      apply (rule j, erule moved_eq)
        apply (simp_all add: part_delta_def)
      done
  qed
  note tail = this
  have "post (drop_upload ext s i u completing at) (\<lambda>(res, s'). remove_effect ext s u res s')"
    unfolding drop_upload_def Let_def post_rbind post_ok_or post_Inr split_conv ps
    apply (unfold t [unfolded Let_def po] w)
    apply (intro allI impI)
    subgoal premises prems for freed rest
    proof (rule tail [where Q = "remove_effect ext s u \<lparr>cleanup_parts = parts_of s i\<rparr>"])
      fix t
      assume m: "moved ext s ?t (t_insert (bucket_key (up_bucket u)) ((read_bucket_usage s (up_bucket u))\<lparr>bu_multipart_bytes := rest\<rparr>)
          (bucket_usage s)) (part_delta (- uint freed)) (part_object ` set (parts_of s i)) t"
      have "rest = bu_multipart_bytes (read_bucket_usage s (up_bucket u)) - freed"
        using prems(2) by (simp add: checked_sub_Some)
      with m sum_part_sizes_Some [OF prems(1)] u show "remove_effect ext s u \<lparr>cleanup_parts = parts_of s i\<rparr> t"
        unfolding remove_effect_def Let_def by (intro exI [of _ freed]) (simp add: sum_parts_of id)
    qed
    done
  with id c show "post (drop_upload ext s i u completing at) (\<lambda>(res, s').
     \<exists>u. up_id u = i \<and> (completing \<longrightarrow> is_completing u) \<and> remove_effect ext s u res s')"
    by (auto elim!: post_mono)
qed

lemma without_upload_parts:
  assumes inv: "index_inv s"
  shows "t_get (parts (without_upload s u)) x = Some p \<longleftrightarrow> t_get (parts s) x = Some p \<and> part_upload p \<noteq> up_id u"
proof -
  let ?ids = "map (\<lambda>p. part_key (up_id u) (part_number p)) (parts_of s (up_id u))"
  have "x \<in> set ?ids \<longleftrightarrow> (\<exists>q. t_get (parts s) x = Some q \<and> part_upload q = up_id u)"
  proof
    assume "x \<in> set ?ids"
    then obtain q y where "t_get (parts s) y = Some q" "part_upload q = up_id u" "x = part_key (up_id u) (part_number q)"
      by (auto simp: set_parts_of)
    moreover from this partD [OF inv, of y q] have "x = y" by simp
    ultimately show "\<exists>q. t_get (parts s) x = Some q \<and> part_upload q = up_id u" by blast
  next
    assume "\<exists>q. t_get (parts s) x = Some q \<and> part_upload q = up_id u"
    then obtain q where q: "t_get (parts s) x = Some q" "part_upload q = up_id u" by blast
    with partD [OF inv q(1)] have "q \<in> set (parts_of s (up_id u))" "x = part_key (up_id u) (part_number q)"
      by (auto simp: set_parts_of)
    then show "x \<in> set ?ids" by simp
  qed
  note ids = this
  have l: "parts (without_upload s u) = t_remove_all ?ids (parts s)" by (simp add: without_upload_def)
  show ?thesis unfolding l t_get_remove_all ids by auto
qed

lemma index_without_upload:
  assumes inv: "index_inv s" and u: "t_get (multipart s) (uuid_bytes (up_id u)) = Some u"
  shows "index_inv (without_upload s u)"
proof (rule index_uploads [OF inv])
  let ?t = "without_upload s u"
  have rb: "read_bucket ?t = read_bucket s" by (rule read_bucket_cong) (simp add: without_upload_def)
  have m: "multipart ?t = t_remove (uuid_bytes (up_id u)) (multipart s)"
    and o: "multipart_order ?t = t_remove (multipart_order_key u) (multipart_order s)"
    by (simp_all add: without_upload_def)
  show "uploads_indexed ?t"
    unfolding uploads_indexed_def rb without_upload_parts [OF inv]
  proof (intro conjI allI impI)
    fix x p assume "t_get (parts s) x = Some p \<and> part_upload p \<noteq> up_id u"
    with partD [OF inv, of x p] show "x = part_key (part_upload p) (part_number p)"
      "t_get (multipart ?t) (uuid_bytes (part_upload p)) \<noteq> None" by (auto simp: m)
  next
    fix x v
    have other: "multipart_order_key u \<noteq> multipart_order_key u'" if "t_get (multipart s) v = Some u'" "v \<noteq> uuid_bytes (up_id u)" for u'
      using that uploadD [OF inv that(1)] multipart_order_key_upload [of u u'] by auto
    show "t_get (multipart_order ?t) x = Some v \<longleftrightarrow> (\<exists>u. t_get (multipart ?t) v = Some u \<and> x = multipart_order_key u)"
      unfolding m o using u by (auto simp: upload_orderD [OF inv] dest: other)
  qed (use uploadD [OF inv] in \<open>auto simp: m split: if_splits\<close>)
qed (simp add: without_upload_def core_def)

lemma index_remove_upload:
  assumes inv: "index_inv s" and eff: "remove_effect ext s u res s'"
  shows "index_inv s'"
proof -
  from eff have "t_get (multipart s) (uuid_bytes (up_id u)) = Some u" "core s' = core (without_upload s u)"
    by (auto simp: remove_effect_def Let_def dest: movedD(1))
  with index_without_upload [OF inv] show ?thesis using index_inv_cong by blast
qed

section \<open>Recovery after a restart\<close>

text \<open>Recovery is a run of removals and resets, so what both preserve, recovery preserves.\<close>

lemma recover_all_preserves:
  assumes "index_inv s" and "P s" and "distinct (map up_id us)"
    and "\<And>u. u \<in> set us \<Longrightarrow> t_get (multipart s) (uuid_bytes (up_id u)) = Some u"
    and rem: "\<And>s u res s'. index_inv s \<Longrightarrow> P s \<Longrightarrow> remove_effect ext s u res s' \<Longrightarrow> P s'"
    and reset: "\<And>s u. index_inv s \<Longrightarrow> P s \<Longrightarrow> t_get (multipart s) (uuid_bytes (up_id u)) = Some u
        \<Longrightarrow> P (with_upload s (u\<lparr>up_state := Active\<rparr>))"
  shows "post (recover_all ext s us) (\<lambda>(ps, s'). index_inv s' \<and> P s')"
  using assms(1-4)
proof (induction us arbitrary: s)
  case Nil
  then show ?case by (simp add: post_Inr)
next
  case (Cons u us)
  from Cons.prems have u: "t_get (multipart s) (uuid_bytes (up_id u)) = Some u" by simp
  have "post (recover_one ext s u) (\<lambda>(ps, s'). index_inv s' \<and> P s'
      \<and> (\<forall>v. v \<noteq> uuid_bytes (up_id u) \<longrightarrow> t_get (multipart s') v = t_get (multipart s) v))"
  proof (cases "up_state u")
    case Active
    with Cons.prems show ?thesis by (simp add: recover_one_def post_Inr)
  next
    case (Completing x)
    note r = restate_upload [OF Cons.prems(1) u, of Active]
    have "post (Inr ([], s\<lparr>multipart := t_insert (uuid_bytes (up_id u)) (u\<lparr>up_state := Active\<rparr>) (multipart s)\<rparr>))
        (\<lambda>(ps, s'). index_inv s' \<and> P s' \<and> (\<forall>v. v \<noteq> uuid_bytes (up_id u) \<longrightarrow> t_get (multipart s') v = t_get (multipart s) v))"
      unfolding r(1) using r(2) reset [OF Cons.prems(1,2) u] by (simp add: post_Inr with_upload_def)
    moreover have "post (remove_multipart_tx ext s (up_id u) True EPOCH) (\<lambda>(res, s'). index_inv s' \<and> P s'
        \<and> (\<forall>v. v \<noteq> uuid_bytes (up_id u) \<longrightarrow> t_get (multipart s') v = t_get (multipart s) v))"
    proof (rule post_mono [OF remove_multipart_effect [OF Cons.prems(1)]], clarify)
      fix res s' u'
      assume id: "up_id u' = up_id u" and eff: "remove_effect ext s u' res s'"
      from eff have "multipart s' = t_remove (uuid_bytes (up_id u')) (multipart s)"
        by (auto simp: remove_effect_def Let_def without_upload_def dest!: movedD(1) dest: core_eqD(8))
      with index_remove_upload [OF Cons.prems(1) eff] rem [OF Cons.prems(1,2) eff] id
      show "index_inv s' \<and> P s' \<and> (\<forall>v. v \<noteq> uuid_bytes (up_id u) \<longrightarrow> t_get (multipart s') v = t_get (multipart s) v)"
        by simp
    qed
    ultimately show ?thesis
      using Completing by (auto simp: recover_one_def Let_def post_rbind post_case_prod post_Inr elim!: post_mono)
  qed
  moreover have "post (recover_all ext s' us) (\<lambda>(ps, s'). index_inv s' \<and> P s')"
    if "index_inv s'" "P s'" "\<forall>v. v \<noteq> uuid_bytes (up_id u) \<longrightarrow> t_get (multipart s') v = t_get (multipart s) v" for s'
  proof (rule Cons.IH [OF that(1,2)])
    show "t_get (multipart s') (uuid_bytes (up_id u')) = Some u'" if "u' \<in> set us" for u'
    proof -
      from that Cons.prems(3) have "up_id u' \<noteq> up_id u" by (force simp: image_iff)
      with that Cons.prems(4) [of u'] \<open>\<forall>v. _\<close> show ?thesis by simp
    qed
  qed (use Cons.prems in simp)
  ultimately show ?case
    by (auto simp: post_rbind post_case_prod post_Inr elim!: post_mono)
qed

lemma recover_preserves:
  assumes inv: "index_inv s" and "P s"
    and rem: "\<And>s u res s'. index_inv s \<Longrightarrow> P s \<Longrightarrow> remove_effect ext s u res s' \<Longrightarrow> P s'"
    and reset: "\<And>s u. index_inv s \<Longrightarrow> P s \<Longrightarrow> t_get (multipart s) (uuid_bytes (up_id u)) = Some u
        \<Longrightarrow> P (with_upload s (u\<lparr>up_state := Active\<rparr>))"
  shows "post (recover_multipart_completions_tx ext s) (\<lambda>(res, s'). index_inv s' \<and> P s')"
proof -
  let ?us = "filter is_completing (map snd (t_iter (multipart s)))"
  have u: "t_get (multipart s) (uuid_bytes (up_id u)) = Some u" if "u \<in> set ?us" for u
    using that uploadD [OF inv] by (auto simp: t_get_iff)
  have "distinct (map (\<lambda>e. uuid_bytes (up_id (snd e))) (t_iter (multipart s)))"
  proof -
    have "map (\<lambda>e. uuid_bytes (up_id (snd e))) (t_iter (multipart s)) = map fst (t_iter (multipart s))"
      using uploadD [OF inv] by (auto simp: t_get_iff intro!: map_cong)
    from this distinct_keys [OF t_iter_sorted [of "multipart s"]] show ?thesis
      by (rule ssubst [where P = distinct])
  qed
  then have "distinct (map up_id (map snd (t_iter (multipart s))))"
    by (simp add: distinct_map inj_on_def comp_def)
  then have d: "distinct (map up_id ?us)"
    by (rule distinct_map_filter)
  have "post (recover_all ext s ?us) (\<lambda>(ps, s'). index_inv s' \<and> P s')"
    by (rule recover_all_preserves [where P = P, OF inv assms(2) d]) (fact u, fact rem, fact reset)
  then show ?thesis
    by (simp add: recover_multipart_completions_tx_def post_rbind post_case_prod post_Inr)
qed

end
