(* ===== verification/Accounting.thy ===== *)
theory Accounting
  imports Multipart_Commands
begin

text \<open>
  The accounting invariant: the usage record of every bucket and the global counters are the totals of
  the tables they summarise. The usage records are updated by wrapping arithmetic in the code; the checked
  global counters bound every bucket's share, so no update wraps.
\<close>

section \<open>Totals\<close>

text \<open>Each total counts what belongs to the buckets in \<open>B\<close>: one bucket for its usage record, all of them for the counters.\<close>

definition n_versions :: "catalog \<Rightarrow> (BucketId \<Rightarrow> bool) \<Rightarrow> int" where
  "n_versions s B = int (t_total (\<lambda>r. of_bool (B (rec_bucket r))) (versions s))"

definition rec_size :: "ObjectVersionRecord \<Rightarrow> nat" where
  "rec_size r = unat (opt_size (as_object r))"

definition n_version_bytes :: "catalog \<Rightarrow> (BucketId \<Rightarrow> bool) \<Rightarrow> int" where
  "n_version_bytes s B = int (t_total (\<lambda>r. of_bool (B (rec_bucket r)) * rec_size r) (versions s))"

definition n_objects :: "catalog \<Rightarrow> (BucketId \<Rightarrow> bool) \<Rightarrow> int" where
  "n_objects s B = int (t_total (\<lambda>m. of_bool (B (om_bucket m))) (objects s))"

definition n_object_bytes :: "catalog \<Rightarrow> (BucketId \<Rightarrow> bool) \<Rightarrow> int" where
  "n_object_bytes s B = int (t_total (\<lambda>m. of_bool (B (om_bucket m)) * unat (om_size m)) (objects s))"

definition part_in :: "catalog \<Rightarrow> (BucketId \<Rightarrow> bool) \<Rightarrow> UploadedPart \<Rightarrow> bool" where
  "part_in s B p = (case t_get (multipart s) (uuid_bytes (part_upload p)) of None \<Rightarrow> False | Some u \<Rightarrow> B (up_bucket u))"

definition n_part_bytes :: "catalog \<Rightarrow> (BucketId \<Rightarrow> bool) \<Rightarrow> int" where
  "n_part_bytes s B = int (t_total (\<lambda>p. of_bool (part_in s B p) * unat (part_size p)) (parts s))"

definition n_buckets :: "catalog \<Rightarrow> int" where
  "n_buckets s = int (t_total (\<lambda>_. 1) (buckets s))"

definition accounted :: "catalog \<Rightarrow> bool" where
  "accounted s \<longleftrightarrow>
     (\<forall>b. bu_versions (read_bucket_usage s b) = of_int (n_versions s ((=) b))
        \<and> bu_version_bytes (read_bucket_usage s b) = of_int (n_version_bytes s ((=) b))
        \<and> bu_current_objects (read_bucket_usage s b) = of_int (n_objects s ((=) b))
        \<and> bu_logical_bytes (read_bucket_usage s b) = of_int (n_object_bytes s ((=) b))
        \<and> bu_multipart_bytes (read_bucket_usage s b) = of_int (n_part_bytes s ((=) b)))
     \<and> ctr s VERSION_COUNT = n_versions s (\<lambda>_. True)
     \<and> ctr s VERSION_BYTES = n_version_bytes s (\<lambda>_. True)
     \<and> ctr s PHYSICAL_BYTES = n_version_bytes s (\<lambda>_. True)
     \<and> ctr s OBJECT_COUNT = n_objects s (\<lambda>_. True)
     \<and> ctr s LOGICAL_BYTES = n_object_bytes s (\<lambda>_. True)
     \<and> ctr s MULTIPART_BYTES = n_part_bytes s (\<lambda>_. True)
     \<and> ctr s BUCKET_COUNT = n_buckets s"

lemmas totals_def = n_versions_def n_version_bytes_def n_objects_def n_object_bytes_def n_part_bytes_def n_buckets_def

lemma accounted_empty: "accounted empty_catalog"
  by (simp add: accounted_def totals_def empty_catalog_def read_bucket_usage_def default_usage_def ctr_def read_counter_def)

lemma totals_core:
  assumes "core s = core t"
  shows "n_versions s = n_versions t" "n_version_bytes s = n_version_bytes t" "n_objects s = n_objects t"
    "n_object_bytes s = n_object_bytes t" "n_part_bytes s = n_part_bytes t" "n_buckets s = n_buckets t"
  by (simp_all only: fun_eq_iff totals_def part_in_def core_eqD [OF assms] simp_thms)

lemma totals_bounds:
  "0 \<le> n_versions s B" "n_versions s B \<le> n_versions s (\<lambda>_. True)"
  "0 \<le> n_version_bytes s B" "n_version_bytes s B \<le> n_version_bytes s (\<lambda>_. True)"
  "0 \<le> n_objects s B" "n_objects s B \<le> n_objects s (\<lambda>_. True)"
  "0 \<le> n_object_bytes s B" "n_object_bytes s B \<le> n_object_bytes s (\<lambda>_. True)"
  "0 \<le> n_part_bytes s B" "n_part_bytes s B \<le> n_part_bytes s (\<lambda>_. True)"
  by (auto simp: totals_def part_in_def intro!: t_total_mono split: option.split)

lemma uint_of_total: "0 \<le> n \<Longrightarrow> n < 2 ^ 64 \<Longrightarrow> uint (of_int n :: u64) = n"
  by (simp add: unsigned_of_int take_bit_int_eq_self)

text \<open>What the word-sized usage records say is exact, because each total is bounded by a counter that did not overflow.\<close>

lemma usage_exact:
  assumes "accounted s"
  shows "uint (bu_versions (read_bucket_usage s b)) = n_versions s ((=) b)"
    "uint (bu_version_bytes (read_bucket_usage s b)) = n_version_bytes s ((=) b)"
    "uint (bu_current_objects (read_bucket_usage s b)) = n_objects s ((=) b)"
    "uint (bu_logical_bytes (read_bucket_usage s b)) = n_object_bytes s ((=) b)"
    "uint (bu_multipart_bytes (read_bucket_usage s b)) = n_part_bytes s ((=) b)"
proof -
  note A = assms [unfolded accounted_def]
  have lt: "n_versions s ((=) b) < 2 ^ 64" "n_version_bytes s ((=) b) < 2 ^ 64" "n_objects s ((=) b) < 2 ^ 64"
    "n_object_bytes s ((=) b) < 2 ^ 64" "n_part_bytes s ((=) b) < 2 ^ 64"
    using A totals_bounds [of s "(=) b"] ctr_bounds(2) [of s VERSION_COUNT] ctr_bounds(2) [of s VERSION_BYTES]
      ctr_bounds(2) [of s OBJECT_COUNT] ctr_bounds(2) [of s LOGICAL_BYTES] ctr_bounds(2) [of s MULTIPART_BYTES]
    by linarith+
  from A show "uint (bu_versions (read_bucket_usage s b)) = n_versions s ((=) b)"
    "uint (bu_version_bytes (read_bucket_usage s b)) = n_version_bytes s ((=) b)"
    "uint (bu_current_objects (read_bucket_usage s b)) = n_objects s ((=) b)"
    "uint (bu_logical_bytes (read_bucket_usage s b)) = n_object_bytes s ((=) b)"
    "uint (bu_multipart_bytes (read_bucket_usage s b)) = n_part_bytes s ((=) b)"
    using uint_of_total [OF totals_bounds(1) lt(1)] uint_of_total [OF totals_bounds(3) lt(2)]
      uint_of_total [OF totals_bounds(5) lt(3)] uint_of_total [OF totals_bounds(7) lt(4)]
      uint_of_total [OF totals_bounds(9) lt(5)] by metis+
qed

section \<open>One step of the books\<close>

text \<open>A change of the totals that falls on one bucket.\<close>

definition shifted :: "catalog \<Rightarrow> catalog \<Rightarrow> BucketId \<Rightarrow> int \<Rightarrow> int \<Rightarrow> int \<Rightarrow> int \<Rightarrow> int \<Rightarrow> bool" where
  "shifted s c b dv dvb dn dl dp \<longleftrightarrow>
     (\<forall>B. n_versions c B = n_versions s B + of_bool (B b) * dv
        \<and> n_version_bytes c B = n_version_bytes s B + of_bool (B b) * dvb
        \<and> n_objects c B = n_objects s B + of_bool (B b) * dn
        \<and> n_object_bytes c B = n_object_bytes s B + of_bool (B b) * dl
        \<and> n_part_bytes c B = n_part_bytes s B + of_bool (B b) * dp)
     \<and> n_buckets c = n_buckets s"

lemma accounted_step:
  assumes acc: "accounted s" and m: "moved ext s c (t_insert (bucket_key b) w (bucket_usage s)) d q s'"
    and v: "shifted s c b dv dvb dn dl dp"
    and w: "bu_versions w = bu_versions (read_bucket_usage s b) + of_int dv"
      "bu_version_bytes w = bu_version_bytes (read_bucket_usage s b) + of_int dvb"
      "bu_current_objects w = bu_current_objects (read_bucket_usage s b) + of_int dn"
      "bu_logical_bytes w = bu_logical_bytes (read_bucket_usage s b) + of_int dl"
      "bu_multipart_bytes w = bu_multipart_bytes (read_bucket_usage s b) + of_int dp"
    and d: "d VERSION_COUNT = dv" "d VERSION_BYTES = dvb" "d PHYSICAL_BYTES = dvb" "d OBJECT_COUNT = dn"
      "d LOGICAL_BYTES = dl" "d MULTIPART_BYTES = dp" "d BUCKET_COUNT = 0"
  shows "accounted s'"
proof -
  note T = totals_core [OF movedD(1) [OF m]]
  have u: "read_bucket_usage s' b' = (if b' = b then w else read_bucket_usage s b')" for b'
    by (simp add: read_bucket_usage_def movedD(2) [OF m])
  show ?thesis
    using acc v unfolding accounted_def T shifted_def
    by (simp add: u w d movedD(4) [OF m])
qed

section \<open>How the steps of the object commands move the totals\<close>

definition v_total :: "(ObjectVersionRecord \<Rightarrow> nat) \<Rightarrow> catalog \<Rightarrow> int" where
  "v_total f s = int (t_total f (versions s))"

definition o_total :: "(ObjectMetadata \<Rightarrow> nat) \<Rightarrow> catalog \<Rightarrow> int" where
  "o_total g s = int (t_total g (objects s))"

definition weight :: "('a \<Rightarrow> nat) \<Rightarrow> 'a option \<Rightarrow> int" where
  "weight f q = (case q of None \<Rightarrow> 0 | Some x \<Rightarrow> int (f x))"

lemma weight_simps [simp]: "weight f None = 0" "weight f (Some x) = int (f x)"
  by (simp_all add: weight_def)

lemma t_total_insert_int: "int (t_total f (t_insert k v t)) = int (t_total f t) - weight f (t_get t k) + int (f v)"
  using t_total_insert [of f k v t] by (cases "t_get t k") simp_all

lemma o_total_hide: "o_total g (hide s x) = o_total g s - weight g (t_get (objects s) x)"
  using t_total_remove [of g x "objects s"]
  by (cases "t_get (objects s) x") (simp_all add: o_total_def hide_def)

lemma v_total_hide [simp]: "v_total f (hide s x) = v_total f s"
  by (simp add: v_total_def)

lemma v_total_drop:
  assumes "\<And>r. q = Some r \<Longrightarrow> ver s (rec_version_id r) = Some r"
  shows "v_total f (drop_opt s q) = v_total f s - weight f q"
  using assms t_total_remove_some [of "versions s" _ _ f]
  by (cases q) (fastforce simp: v_total_def drop_opt_def)+

lemma o_total_drop [simp]: "o_total g (drop_opt s q) = o_total g s"
  by (simp add: o_total_def drop_opt_def split: option.split)

lemma v_total_add: "ver s (rec_version_id r) = None \<Longrightarrow> v_total f (add_record s r) = v_total f s + int (f r)"
  by (simp add: v_total_def t_total_insert_new)

lemma o_total_add [simp]: "o_total g (add_record s r) = o_total g s"
  by (simp add: o_total_def)

lemma v_total_publish [simp]: "v_total f (publish_current s x r) = v_total f s"
  by (cases r) (simp_all add: v_total_def)

lemma o_total_publish:
  "t_get (objects s) x = None \<Longrightarrow> o_total g (publish_current s x r) = o_total g s + weight g (as_object r)"
  by (cases r) (simp_all add: o_total_def t_total_insert_new)

lemma total_lock_opt [simp]: "v_total f (lock_opt s v l) = v_total f s" "o_total g (lock_opt s v l) = o_total g s"
  by (simp_all add: v_total_def o_total_def lock_opt_def split: option.split)

lemma objects_steps [simp]:
  "objects (drop_opt s q) = objects s" "objects (lock_opt s v l) = objects s"
  "t_get (objects (hide s x)) x = None"
  by (simp_all add: drop_opt_def lock_opt_def hide_def split: option.split)

lemma ver_drop_opt: "ver s v = None \<Longrightarrow> ver (drop_opt s q) v = None"
  by (simp add: drop_opt_def split: option.split)

lemma replaced_ofD:
  assumes "index_inv s" and "replaced_of s bucket b k = Some r"
  shows "ver s (rec_version_id r) = Some r" "rec_bucket r = b" "rec_key r = k" "rec_is_null r"
  using assms null_of_Some [OF assms(1), of b k r] by (auto simp: replaced_of_def split: if_splits)

lemma totals_replace:
  assumes inv: "index_inv s" and new: "ver s (rec_version_id r) = None"
  shows "v_total f (publish_current (lock_opt (add_record (drop_opt (hide s x) (replaced_of s bucket b k)) r) v l) x r)
           = v_total f s - weight f (replaced_of s bucket b k) + int (f r)"
    "o_total g (publish_current (lock_opt (add_record (drop_opt (hide s x) (replaced_of s bucket b k)) r) v l) x r)
           = o_total g s - weight g (t_get (objects s) x) + weight g (as_object r)"
proof -
  have "ver (drop_opt (hide s x) (replaced_of s bucket b k)) (rec_version_id r) = None"
    by (rule ver_drop_opt) (simp add: new)
  then show "v_total f (publish_current (lock_opt (add_record (drop_opt (hide s x) (replaced_of s bucket b k)) r) v l) x r)
           = v_total f s - weight f (replaced_of s bucket b k) + int (f r)"
    using replaced_ofD(1) [OF inv] by (simp add: v_total_add v_total_drop)
  show "o_total g (publish_current (lock_opt (add_record (drop_opt (hide s x) (replaced_of s bucket b k)) r) v l) x r)
           = o_total g s - weight g (t_get (objects s) x) + weight g (as_object r)"
    by (simp add: o_total_publish o_total_hide)
qed

lemma n_totals:
  "n_versions s B = v_total (\<lambda>r. of_bool (B (rec_bucket r))) s"
  "n_version_bytes s B = v_total (\<lambda>r. of_bool (B (rec_bucket r)) * rec_size r) s"
  "n_objects s B = o_total (\<lambda>m. of_bool (B (om_bucket m))) s"
  "n_object_bytes s B = o_total (\<lambda>m. of_bool (B (om_bucket m)) * unat (om_size m)) s"
  by (simp_all add: totals_def v_total_def o_total_def)

lemma rec_size_simps [simp]: "rec_size (ObjectRecord m n) = unat (om_size m)" "rec_size (MarkerRecord d n) = 0"
  by (simp_all add: rec_size_def opt_size_def)

text \<open>The weight of a version or of an object that, if it is there, lies in bucket \<open>b\<close>.\<close>

lemma weight_version:
  assumes "\<And>r. q = Some r \<Longrightarrow> rec_bucket r = b"
  shows "weight (\<lambda>r. of_bool (B (rec_bucket r))) q = of_bool (B b) * of_bool (q \<noteq> None)"
    "weight (\<lambda>r. of_bool (B (rec_bucket r)) * rec_size r) q = of_bool (B b) * uint (opt_size (Option.bind q as_object))"
  using assms by (cases q; simp add: rec_size_def opt_size_def)+

lemma weight_object:
  assumes "\<And>m. q = Some m \<Longrightarrow> om_bucket m = b"
  shows "weight (\<lambda>m. of_bool (B (om_bucket m))) q = of_bool (B b) * of_bool (q \<noteq> None)"
    "weight (\<lambda>m. of_bool (B (om_bucket m)) * unat (om_size m)) q = of_bool (B b) * uint (opt_size q)"
  using assms by (cases q; simp add: opt_size_def)+

lemma current_in_bucket: "index_inv s \<Longrightarrow> t_get (objects s) (object_key b k) = Some m \<Longrightarrow> om_bucket m = b"
  by (drule (1) current_objectD) auto

lemma uploads_untouched:
  assumes "multipart c = multipart s" and "parts c = parts s" and "buckets c = buckets s"
  shows "n_part_bytes c = n_part_bytes s" "n_buckets c = n_buckets s"
  by (simp_all only: fun_eq_iff totals_def part_in_def assms simp_thms)

lemma frame_steps [simp]:
  "multipart (publish_current s x r) = multipart s" "parts (publish_current s x r) = parts s" "buckets (publish_current s x r) = buckets s"
  "multipart (lock_opt s v l) = multipart s" "parts (lock_opt s v l) = parts s" "buckets (lock_opt s v l) = buckets s"
  "multipart (drop_opt s q) = multipart s" "parts (drop_opt s q) = parts s" "buckets (drop_opt s q) = buckets s"
  by (simp_all add: lock_opt_def drop_opt_def split: option.split) (cases r; simp)+

section \<open>Every command keeps the books\<close>

lemma shift_put:
  assumes inv: "index_inv s" and new: "ver s (om_version m) = None"
    and q: "q = replaced_of s bucket (om_bucket m) (om_key m)" and p: "p = t_get (objects s) (object_key (om_bucket m) (om_key m))"
  shows "shifted s (put_core s bucket m lock) (om_bucket m) (1 - of_bool (q \<noteq> None))
     (uint (om_size m) - uint (opt_size (Option.bind q as_object))) (of_bool (p = None)) (uint (om_size m) - uint (opt_size p)) 0"
proof -
  let ?b = "om_bucket m" let ?x = "object_key ?b (om_key m)" let ?c = "put_core s bucket m lock"
  let ?r = "ObjectRecord m (versioning bucket \<noteq> Enabled)"
  have qb: "\<And>r. q = Some r \<Longrightarrow> rec_bucket r = ?b" and pb: "\<And>m'. p = Some m' \<Longrightarrow> om_bucket m' = ?b"
    unfolding q p using replaced_ofD(2) [OF inv] current_in_bucket [OF inv] by blast+
  have c: "?c = publish_current (lock_opt (add_record (drop_opt (hide s ?x) q) ?r) (om_version m) lock) ?x ?r"
    by (simp add: put_core_def Let_def q)
  have new': "ver s (rec_version_id ?r) = None" using new by simp
  have t: "v_total f ?c = v_total f s - weight f q + int (f ?r)"
    "o_total g ?c = o_total g s - weight g p + int (g m)" for f g
    unfolding c q p by (simp_all only: totals_replace [OF inv new'] as_object.simps weight_simps)
  have up: "n_part_bytes ?c = n_part_bytes s" "n_buckets ?c = n_buckets s"
    unfolding c by (rule uploads_untouched; simp)+
  show ?thesis
    unfolding shifted_def up
    apply (intro conjI allI)
    subgoal for B using weight_version [where q = q and B = B, OF qb] weight_object [where q = p and B = B, OF pb] by (simp add: n_totals t algebra_simps)
    subgoal for B using weight_version [where q = q and B = B, OF qb] weight_object [where q = p and B = B, OF pb] by (simp add: n_totals t algebra_simps)
    subgoal for B using weight_version [where q = q and B = B, OF qb] weight_object [where q = p and B = B, OF pb] by (simp add: n_totals t algebra_simps)
    subgoal for B using weight_version [where q = q and B = B, OF qb] weight_object [where q = p and B = B, OF pb] by (simp add: n_totals t algebra_simps)
    by simp_all
qed

lemma accounted_put:
  assumes inv: "index_inv s" and acc: "accounted s" and eff: "put_effect ext s bucket m lock s'"
    and new: "ver s (om_version m) = None"
  shows "accounted s'"
proof -
  from eff obtain d u p q where m: "moved ext s (put_core s bucket m lock) (t_insert (bucket_key (om_bucket m)) u (bucket_usage s)) d (payloads q) s'"
    and s: "q = replaced_of s bucket (om_bucket m) (om_key m)" "p = t_get (objects s) (object_key (om_bucket m) (om_key m))"
    and e: "u = put_usage (read_bucket_usage s (om_bucket m)) p q m" "d = put_delta p q m"
    by (simp add: put_effect_def Let_def)
  show ?thesis
    by (rule accounted_step [OF acc m shift_put [OF inv new s]]) (simp_all add: e put_usage_def put_delta_def)
qed

lemma shift_delete:
  assumes inv: "index_inv s" and new: "ver s (nm_version nm) = None"
    and q: "q = replaced_of s bucket b k" and p: "p = t_get (objects s) (object_key b k)"
    and marks: "marks = (versioning bucket \<noteq> Disabled)"
  shows "shifted s (delete_core s bucket b k nm) b (of_bool marks - of_bool (q \<noteq> None))
     (- uint (opt_size (Option.bind q as_object))) (- of_bool (p \<noteq> None)) (- uint (opt_size p)) 0"
proof -
  let ?x = "object_key b k" let ?c = "delete_core s bucket b k nm"
  let ?r = "MarkerRecord (marker_of b k nm) (versioning bucket = Suspended)"
  have qb: "\<And>r. q = Some r \<Longrightarrow> rec_bucket r = b" and pb: "\<And>m'. p = Some m' \<Longrightarrow> om_bucket m' = b"
    unfolding q p using replaced_ofD(2) [OF inv] current_in_bucket [OF inv] by blast+
  have c: "?c = (if marks then publish_current (lock_opt (add_record (drop_opt (hide s ?x) q) ?r) (nm_version nm) None) ?x ?r
      else drop_opt (hide s ?x) q)"
    by (simp add: delete_core_def Let_def lock_opt_def q marks)
  have new': "ver s (rec_version_id ?r) = None" using new by (simp add: marker_of_def)
  have "v_total f (drop_opt (hide s ?x) q) = v_total f s - weight f q" for f
    using replaced_ofD(1) [OF inv] by (simp add: v_total_drop q)
  from this [unfolded q] have t: "v_total f ?c = v_total f s - weight f q + of_bool marks * int (f ?r)"
    "o_total g ?c = o_total g s - weight g p" for f g
    unfolding c p q using totals_replace(1) [OF inv new', of f ?x bucket b k "nm_version nm" None]
      totals_replace(2) [OF inv new', of g ?x bucket b k "nm_version nm" None]
    by (simp_all add: o_total_hide split del: if_split) (auto simp: o_total_hide)
  have up: "n_part_bytes ?c = n_part_bytes s" "n_buckets ?c = n_buckets s"
    unfolding c by (rule uploads_untouched; simp)+
  show ?thesis
    unfolding shifted_def up
    apply (intro conjI allI)
    subgoal for B using weight_version [where q = q and B = B, OF qb] weight_object [where q = p and B = B, OF pb] by (simp add: n_totals t marker_of_def algebra_simps)
    subgoal for B using weight_version [where q = q and B = B, OF qb] weight_object [where q = p and B = B, OF pb] by (simp add: n_totals t marker_of_def algebra_simps)
    subgoal for B using weight_version [where q = q and B = B, OF qb] weight_object [where q = p and B = B, OF pb] by (simp add: n_totals t marker_of_def algebra_simps)
    subgoal for B using weight_version [where q = q and B = B, OF qb] weight_object [where q = p and B = B, OF pb] by (simp add: n_totals t marker_of_def algebra_simps)
    by simp_all
qed

lemma accounted_delete:
  assumes inv: "index_inv s" and acc: "accounted s" and eff: "delete_effect ext s bucket b k nm s'"
    and new: "ver s (nm_version nm) = None"
  shows "accounted s'"
proof -
  from eff obtain d u p q marks where m: "moved ext s (delete_core s bucket b k nm) (t_insert (bucket_key b) u (bucket_usage s)) d (payloads q) s'"
    and s: "q = replaced_of s bucket b k" "p = t_get (objects s) (object_key b k)" "marks = (versioning bucket \<noteq> Disabled)"
    and e: "u = delete_usage (read_bucket_usage s b) p q marks" "d = delete_delta p q marks"
    by (simp add: delete_effect_def Let_def)
  show ?thesis
    by (rule accounted_step [OF acc m shift_delete [OF inv new s]])
      (simp_all add: e delete_usage_def delete_delta_def null_usage_def null_delta_def)
qed

lemma shift_version:
  assumes inv: "index_inv s" and r: "ver s (rec_version_id r) = Some r"
    and o: "out = out_of s r" and i: "inn = Option.bind (next_of s r) as_object"
  shows "shifted s (version_core s r) (rec_bucket r) (- 1) (- uint (opt_size (as_object r)))
     (of_bool (inn \<noteq> None) - of_bool (out \<noteq> None)) (uint (opt_size inn) - uint (opt_size out)) 0"
proof -
  let ?b = "rec_bucket r" let ?c = "version_core s r" let ?x = "rec_object_key r"
  have nx: "current_of s r \<and> rec_bucket n = ?b" if "next_of s r = Some n" for n
    using that latest_version_Some [OF index_unhooked [OF inv r], of "rec_key r" ?b n] version_keyedD [OF inv r]
    by (auto simp: next_of_def split: if_splits)
  have ib: "\<And>m'. inn = Some m' \<Longrightarrow> om_bucket m' = ?b"
    using nx i by (cases "next_of s r") (auto elim!: as_object.elims)
  have ob: "\<And>m'. out = Some m' \<Longrightarrow> om_bucket m' = ?b"
    using current_in_bucket [OF inv] o by (auto simp: out_of_def rec_object_key_def split: if_splits)
  have vu: "v_total f (unhooked s r) = v_total f s - int (f r)" for f
    using v_total_drop [of "Some r" "if current_of s r then hide s ?x else s" f] r
    by (simp add: unhooked_def drop_opt_def)
  have ou: "o_total g (unhooked s r) = o_total g s - weight g out" for g
    using o_total_drop [of g "if current_of s r then hide s ?x else s" "Some r"]
    by (simp add: unhooked_def drop_opt_def o_total_hide out_of_def o)
  have free: "t_get (objects (unhooked s r)) ?x = None" if "next_of s r = Some n" for n
    using nx [OF that] by (simp add: unhooked_def)
  have t: "v_total f ?c = v_total f s - int (f r)" "o_total g ?c = o_total g s - weight g out + weight g inn" for f g
    using free by (cases "next_of s r"; simp add: version_core_def vu ou o_total_publish i)+
  have up: "n_part_bytes ?c = n_part_bytes s" "n_buckets ?c = n_buckets s"
    by (rule uploads_untouched; simp add: version_core_def unhooked_def split: option.split)+
  show ?thesis
    unfolding shifted_def up
    apply (intro conjI allI)
    subgoal for B using weight_object [where q = inn and B = B, OF ib] weight_object [where q = out and B = B, OF ob] by (simp add: n_totals t rec_size_def algebra_simps)
    subgoal for B using weight_object [where q = inn and B = B, OF ib] weight_object [where q = out and B = B, OF ob] by (simp add: n_totals t rec_size_def algebra_simps)
    subgoal for B using weight_object [where q = inn and B = B, OF ib] weight_object [where q = out and B = B, OF ob] by (simp add: n_totals t rec_size_def algebra_simps)
    subgoal for B using weight_object [where q = inn and B = B, OF ib] weight_object [where q = out and B = B, OF ob] by (simp add: n_totals t rec_size_def algebra_simps)
    by simp_all
qed

lemma accounted_delete_version:
  assumes inv: "index_inv s" and acc: "accounted s" and eff: "version_effect ext s r s'"
    and r: "ver s (rec_version_id r) = Some r"
  shows "accounted s'"
proof -
  from eff obtain d u out inn where m: "moved ext s (version_core s r) (t_insert (bucket_key (rec_bucket r)) u (bucket_usage s)) d (payloads (Some r)) s'"
    and s: "out = out_of s r" "inn = Option.bind (next_of s r) as_object"
    and e: "u = version_usage (read_bucket_usage s (rec_bucket r)) r out inn" "d = version_delta r out inn"
    by (simp add: version_effect_def Let_def)
  show ?thesis
    by (rule accounted_step [OF acc m shift_version [OF inv r s]])
      (simp_all add: e version_usage_def version_delta_def null_usage_def null_delta_def)
qed

lemma part_in_cong: "multipart c = multipart s \<Longrightarrow> part_in c = part_in s"
  by (simp add: part_in_def fun_eq_iff)

lemma versions_untouched:
  assumes "versions c = versions s" and "objects c = objects s" and "buckets c = buckets s"
  shows "n_versions c = n_versions s" "n_version_bytes c = n_version_bytes s" "n_objects c = n_objects s"
    "n_object_bytes c = n_object_bytes s" "n_buckets c = n_buckets s"
  by (simp_all only: fun_eq_iff totals_def assms simp_thms)

lemma shift_part:
  assumes inv: "index_inv s" and u: "t_get (multipart s) (uuid_bytes (part_upload p)) = Some u"
    and x: "x = part_key (part_upload p) (part_number p)"
  shows "shifted s (s\<lparr>parts := t_insert x p (parts s)\<rparr>) (up_bucket u) 0 0 0 0
     (uint (part_size p) - uint (opt_part_size (t_get (parts s) x)))"
proof -
  let ?c = "s\<lparr>parts := t_insert x p (parts s)\<rparr>"
  have in_p: "part_in s B p' \<longleftrightarrow> B (up_bucket u)" if "part_upload p' = part_upload p" for B p'
    using u that by (simp add: part_in_def)
  have "part_upload p' = part_upload p" if "t_get (parts s) x = Some p'" for p'
    using partD [OF inv that] by (simp add: x)
  then have "weight (\<lambda>p. of_bool (part_in s B p) * unat (part_size p)) (t_get (parts s) x)
      = of_bool (B (up_bucket u)) * uint (opt_part_size (t_get (parts s) x))" for B
    by (cases "t_get (parts s) x") (auto simp: in_p opt_part_size_def)
  then have "n_part_bytes ?c B = n_part_bytes s B + of_bool (B (up_bucket u)) * (uint (part_size p) - uint (opt_part_size (t_get (parts s) x)))" for B
    by (simp add: n_part_bytes_def part_in_cong [of ?c s] t_total_insert_int in_p)
  then show ?thesis
    unfolding shifted_def by (simp add: versions_untouched [of ?c s])
qed

lemma accounted_part:
  assumes inv: "index_inv s" and acc: "accounted s" and eff: "part_effect ext s p s'"
  shows "accounted s'"
proof -
  from eff obtain u x w where u: "t_get (multipart s) (uuid_bytes (part_upload p)) = Some u"
    and x: "x = part_key (part_upload p) (part_number p)"
    and m: "moved ext s (s\<lparr>parts := t_insert x p (parts s)\<rparr>) (t_insert (bucket_key (up_bucket u)) w (bucket_usage s))
      (part_delta (uint (part_size p) - uint (opt_part_size (t_get (parts s) x)))) (part_object ` set_option (t_get (parts s) x)) s'"
    and w: "w = (read_bucket_usage s (up_bucket u))\<lparr>bu_multipart_bytes :=
         bu_multipart_bytes (read_bucket_usage s (up_bucket u)) - opt_part_size (t_get (parts s) x) + part_size p\<rparr>"
    by (auto simp: part_effect_def Let_def)
  show ?thesis
    by (rule accounted_step [OF acc m shift_part [OF inv u x]]) (simp_all add: w part_delta_def)
qed

lemma shift_remove_upload:
  assumes inv: "index_inv s" and u: "t_get (multipart s) (uuid_bytes (up_id u)) = Some u"
  shows "shifted s (without_upload s u) (up_bucket u) 0 0 0 0 (- int (part_bytes s (up_id u)))"
proof -
  let ?c = "without_upload s u" let ?b = "up_bucket u"
  have "t_total (\<lambda>p. of_bool (part_in ?c B p) * unat (part_size p)) (parts ?c)
      + of_bool (B ?b) * part_bytes s (up_id u) = t_total (\<lambda>p. of_bool (part_in s B p) * unat (part_size p)) (parts s)" for B
  proof -
    let ?k = "\<lambda>p. if part_upload p \<noteq> up_id u then of_bool (part_in s B p) * unat (part_size p) else 0"
    let ?d = "\<lambda>p. if part_upload p = up_id u then of_bool (B ?b) * unat (part_size p) else 0"
    have "t_total (\<lambda>p. of_bool (part_in ?c B p) * unat (part_size p)) (parts ?c) = t_total ?k (parts s)"
      unfolding t_total_keep [OF without_upload_parts [OF inv]]
      by (rule t_total_cong) (simp add: part_in_def without_upload_def)
    moreover have "of_bool (B ?b) * part_bytes s (up_id u) = t_total ?d (parts s)"
      by (cases "B ?b") (simp_all add: part_bytes_def t_total_zero if_distrib cong: if_cong)
    moreover have "t_total ?k (parts s) + t_total ?d (parts s) = t_total (\<lambda>p. ?k p + ?d p) (parts s)"
      by (simp add: t_total_def sum_list_addf)
    moreover have "\<dots> = t_total (\<lambda>p. of_bool (part_in s B p) * unat (part_size p)) (parts s)"
      by (rule t_total_cong) (simp add: part_in_def u)
    ultimately show ?thesis by simp
  qed
  note parts = this
  have "n_part_bytes ?c B = n_part_bytes s B + of_bool (B ?b) * - int (part_bytes s (up_id u))" for B
    using parts [of B] by (cases "B ?b") (simp_all add: n_part_bytes_def)
  moreover have "versions ?c = versions s" "objects ?c = objects s" "buckets ?c = buckets s"
    by (simp_all add: without_upload_def)
  ultimately show ?thesis
    unfolding shifted_def by (simp add: versions_untouched [of ?c s])
qed

lemma accounted_remove_upload:
  assumes inv: "index_inv s" and acc: "accounted s" and eff: "remove_effect ext s u res s'"
  shows "accounted s'"
proof -
  from eff obtain freed w where freed: "unat freed = part_bytes s (up_id u)" and u: "t_get (multipart s) (uuid_bytes (up_id u)) = Some u"
    and m: "moved ext s (without_upload s u) (t_insert (bucket_key (up_bucket u)) w (bucket_usage s))
      (part_delta (- uint freed)) (part_object ` set (parts_of s (up_id u))) s'"
    and w: "w = (read_bucket_usage s (up_bucket u))\<lparr>bu_multipart_bytes := bu_multipart_bytes (read_bucket_usage s (up_bucket u)) - freed\<rparr>"
    by (auto simp: remove_effect_def Let_def)
  from freed have "int (part_bytes s (up_id u)) = uint freed" by (metis uint_nat)
  with shift_remove_upload [OF inv u] have "shifted s (without_upload s u) (up_bucket u) 0 0 0 0 (- uint freed)" by simp
  then show ?thesis
    by (rule accounted_step [OF acc m]) (simp_all add: w part_delta_def)
qed

text \<open>A step that leaves usage, counters and all totals alone.\<close>

lemma accounted_same:
  assumes "accounted s" and "bucket_usage s' = bucket_usage s" and "counters s' = counters s"
    and "versions s' = versions s" and "objects s' = objects s" and "n_buckets s' = n_buckets s"
    and "n_part_bytes s' = n_part_bytes s"
  shows "accounted s'"
proof -
  have "n_versions s' = n_versions s" "n_version_bytes s' = n_version_bytes s" "n_objects s' = n_objects s"
    "n_object_bytes s' = n_object_bytes s"
    by (simp_all only: fun_eq_iff totals_def assms simp_thms)
  with assms show ?thesis
    by (simp add: accounted_def read_bucket_usage_def ctr_def read_counter_def)
qed

lemma part_bytes_with_upload:
  assumes inv: "index_inv s"
    and old: "\<And>u'. t_get (multipart s) (uuid_bytes (up_id u)) = Some u' \<Longrightarrow> up_bucket u' = up_bucket u"
  shows "n_part_bytes (with_upload s u) = n_part_bytes s"
proof -
  have "part_in (with_upload s u) B p = part_in s B p" if "t_get (parts s) x = Some p" for B x p
    using partD [OF inv that] old by (auto simp: part_in_def with_upload_def)
  moreover have "parts (with_upload s u) = parts s" by (simp add: with_upload_def)
  ultimately show ?thesis
    by (auto simp: fun_eq_iff n_part_bytes_def intro!: t_total_cong)
qed

lemma accounted_with_upload:
  assumes inv: "index_inv s" and acc: "accounted s"
    and old: "\<And>u'. t_get (multipart s) (uuid_bytes (up_id u)) = Some u' \<Longrightarrow> up_bucket u' = up_bucket u"
  shows "accounted (with_upload s u)"
  by (rule accounted_same [OF acc _ _ _ _ _ part_bytes_with_upload [OF inv old]]) (simp_all add: with_upload_def n_buckets_def)

lemma totals_of_absent:
  assumes inv: "index_inv s"
    and v: "\<And>x r. t_get (versions s) x = Some r \<Longrightarrow> rec_bucket r \<noteq> b"
    and u: "\<And>x u. t_get (multipart s) x = Some u \<Longrightarrow> up_bucket u \<noteq> b"
  shows "n_versions s ((=) b) = 0" "n_version_bytes s ((=) b) = 0" "n_objects s ((=) b) = 0"
    "n_object_bytes s ((=) b) = 0" "n_part_bytes s ((=) b) = 0"
proof -
  have o: "om_bucket m \<noteq> b" if "t_get (objects s) x = Some m" for x m
    using current_objectD [OF inv that] v by fastforce
  have p: "\<not> part_in s ((=) b) q" for q
    by (auto simp: part_in_def dest: u split: option.splits)
  show "n_versions s ((=) b) = 0" "n_version_bytes s ((=) b) = 0" "n_objects s ((=) b) = 0"
    "n_object_bytes s ((=) b) = 0" "n_part_bytes s ((=) b) = 0"
    using v o by (auto simp: totals_def t_total_zero p)
qed

lemma totals_of_missing:
  assumes inv: "index_inv s" and no: "read_bucket s b = None"
  shows "n_versions s ((=) b) = 0" "n_version_bytes s ((=) b) = 0" "n_objects s ((=) b) = 0"
    "n_object_bytes s ((=) b) = 0" "n_part_bytes s ((=) b) = 0"
proof -
  have "read_bucket s (rec_bucket r) \<noteq> None" if "t_get (versions s) x = Some r" for x r
    using index_invD(8) [OF inv] that unfolding versions_owned_def by blast
  then have v: "rec_bucket r \<noteq> b" if "t_get (versions s) x = Some r" for x r
    using that no by metis
  have u: "up_bucket u \<noteq> b" if "t_get (multipart s) x = Some u" for x u
    using uploadD [OF inv that] no by auto
  show "n_versions s ((=) b) = 0" "n_version_bytes s ((=) b) = 0" "n_objects s ((=) b) = 0"
    "n_object_bytes s ((=) b) = 0" "n_part_bytes s ((=) b) = 0"
    using totals_of_absent [OF inv v u] by simp_all
qed

lemma accounted_buckets:
  assumes acc: "accounted s" and m: "moved ext s c u (no_delta(BUCKET_COUNT := k)) q s'"
    and same: "versions c = versions s" "objects c = objects s" "multipart c = multipart s" "parts c = parts s"
    and k: "n_buckets c = n_buckets s + k"
    and u: "\<And>b'. b' \<noteq> b \<Longrightarrow> t_get u (bucket_key b') = t_get (bucket_usage s) (bucket_key b')"
      "t_get u (bucket_key b) \<in> {None, Some default_usage}"
    and zero: "n_versions s ((=) b) = 0" "n_version_bytes s ((=) b) = 0" "n_objects s ((=) b) = 0"
      "n_object_bytes s ((=) b) = 0" "n_part_bytes s ((=) b) = 0"
  shows "accounted s'"
proof -
  note T = totals_core [OF movedD(1) [OF m]]
  have S: "n_versions c = n_versions s" "n_version_bytes c = n_version_bytes s" "n_objects c = n_objects s"
    "n_object_bytes c = n_object_bytes s" "n_part_bytes c = n_part_bytes s"
    by (simp_all only: fun_eq_iff totals_def part_in_def same simp_thms)
  have r: "read_bucket_usage s' b' = (if b' = b then default_usage else read_bucket_usage s b')" for b'
    using u by (auto simp: read_bucket_usage_def movedD(2) [OF m])
  show ?thesis
    using acc zero unfolding accounted_def T S
    by (simp add: r k default_usage_def movedD(4) [OF m])
qed

lemma accounted_create:
  assumes inv: "index_inv s" and acc: "accounted s" and eff: "create_effect ext s b s'"
  shows "accounted s'"
proof -
  from eff have no: "read_bucket s (bucket_id b) = None"
    and m: "moved ext s (set_bucket s b) (t_insert (bucket_key (bucket_id b)) default_usage (bucket_usage s)) (no_delta(BUCKET_COUNT := 1)) {} s'"
    by (simp_all add: create_effect_def)
  show ?thesis
  proof (rule accounted_buckets [OF acc m])
    show "n_buckets (set_bucket s b) = n_buckets s + 1"
      using no by (simp add: n_buckets_def set_bucket_def read_bucket_def t_total_insert_new)
    show "n_versions s ((=) (bucket_id b)) = 0" "n_version_bytes s ((=) (bucket_id b)) = 0" "n_objects s ((=) (bucket_id b)) = 0"
      "n_object_bytes s ((=) (bucket_id b)) = 0" "n_part_bytes s ((=) (bucket_id b)) = 0"
      by (fact totals_of_missing [OF inv no])+
  qed (simp_all add: set_bucket_def bucket_key_def)
qed

text \<open>An empty version count really means that the bucket has no versions left.\<close>

lemma no_versions:
  assumes "accounted s" and "bu_versions (read_bucket_usage s b) = 0" and "t_get (versions s) x = Some r"
  shows "rec_bucket r \<noteq> b"
  using usage_exact(1) [OF assms(1), of b] assms(2,3) by (auto simp: n_versions_def t_total_zero)

lemma drop_bucket_empty:
  assumes inv: "index_inv s" and acc: "accounted s" and eff: "drop_bucket_effect ext s name b s'"
  shows "\<And>x r. t_get (versions s) x = Some r \<Longrightarrow> rec_bucket r \<noteq> bucket_id b"
    "\<And>x u. t_get (multipart s) x = Some u \<Longrightarrow> up_bucket u \<noteq> bucket_id b"
    "read_bucket s (bucket_id b) = Some b"
proof -
  from eff have e: "t_get (bucket_names s) name = Some b" "bu_versions (read_bucket_usage s (bucket_id b)) = 0"
    "\<not> has_multipart s (bucket_id b)" by (simp_all add: drop_bucket_effect_def)
  show rb: "read_bucket s (bucket_id b) = Some b"
    using index_invD(5) [OF inv] e(1) by (auto simp: buckets_indexed_def read_bucket_def)
  show "\<And>x r. t_get (versions s) x = Some r \<Longrightarrow> rec_bucket r \<noteq> bucket_id b"
    using no_versions [OF acc e(2)] by blast
  show "\<And>x u. t_get (multipart s) x = Some u \<Longrightarrow> up_bucket u \<noteq> bucket_id b"
    using has_multipart_iff [OF inv bucketD(2) [OF inv rb]] e(3) by blast
qed

lemma drop_bucket_keeps:
  assumes inv: "index_inv s" and acc: "accounted s" and eff: "drop_bucket_effect ext s name b s'"
  shows "index_inv s'" "accounted s'"
proof -
  note empty = drop_bucket_empty [OF assms]
  from eff have name: "t_get (bucket_names s) name = Some b"
    and m: "moved ext s (without_bucket s b) (t_remove (bucket_key (bucket_id b)) (bucket_usage s)) (no_delta(BUCKET_COUNT := - 1)) {} s'"
    by (simp_all add: drop_bucket_effect_def)
  show "index_inv s'"
    unfolding index_inv_cong [OF movedD(1) [OF m]]
    by (rule index_delete_bucket [OF inv name]) (auto dest: empty(1,2))
  show "accounted s'"
  proof (rule accounted_buckets [OF acc m])
    show "n_buckets (without_bucket s b) = n_buckets s + - 1"
      using t_total_remove_some [of "buckets s" "bucket_key (bucket_id b)" b "\<lambda>_. 1"] empty(3)
      by (simp add: n_buckets_def without_bucket_def read_bucket_def)
    show "n_versions s ((=) (bucket_id b)) = 0" "n_version_bytes s ((=) (bucket_id b)) = 0" "n_objects s ((=) (bucket_id b)) = 0"
      "n_object_bytes s ((=) (bucket_id b)) = 0" "n_part_bytes s ((=) (bucket_id b)) = 0"
      using totals_of_absent [OF inv empty(1,2)] by simp_all
  qed (simp_all add: without_bucket_def bucket_key_def)
qed

end
