(* ===== verification/Machine.thy ===== *)
theory Machine
  imports Accounting
begin

text \<open>
  The command machine: what each command does to the catalog, in terms of the effects of the component
  theories, and the invariants of every run. A run applies commands one after another and keeps the
  catalog when a command is refused, as a transaction that is dropped before its commit does.
\<close>

section \<open>The effect of a command\<close>

definition rebucket :: "catalog \<Rightarrow> BucketId \<Rightarrow> (Bucket \<Rightarrow> (MetadataError, Bucket) result) \<Rightarrow> catalog \<Rightarrow> bool" where
  "rebucket s i f s' \<longleftrightarrow> (\<exists>b b'. read_bucket s i = Some b \<and> f b = Inr b' \<and> bucket_update_ok b b' \<and> s' = set_bucket s b')"

definition quota_fits :: "catalog \<Rightarrow> BucketId \<Rightarrow> BucketQuota \<Rightarrow> bool" where
  "quota_fits s i q \<longleftrightarrow> (let u = read_bucket_usage s i in
     bytes_allow (quota_bytes q) (saturating_add (bu_version_bytes u) (bu_multipart_bytes u))
     \<and> objects_allow (quota_objects q) (bu_current_objects u))"

fun command_effect :: "externs \<Rightarrow> catalog \<Rightarrow> MetadataCommand \<Rightarrow> catalog \<Rightarrow> bool" where
  "command_effect ext s (CreateBucket b) s' = create_effect ext s b s'"
| "command_effect ext s (SetBucketVersioning i state) s' = rebucket s i (set_bucket_versioning state) s'"
| "command_effect ext s (SetBucketObjectLock i conf) s' =
     (\<exists>conf'. lock_configuration_validate conf = Inr conf' \<and> rebucket s i (set_bucket_object_lock conf') s')"
| "command_effect ext s (SetBucketQuota i q) s' =
     (quota_fits s i q \<and> rebucket s i (\<lambda>b. Inr (b\<lparr>quota := q\<rparr>)) s')"
| "command_effect ext s (SetBucketCors i c) s' = rebucket s i (\<lambda>b. Inr (b\<lparr>cors := c\<rparr>)) s'"
| "command_effect ext s (DeleteBucket name at) s' = (\<exists>b. drop_bucket_effect ext s name b s')"
| "command_effect ext s (PutObject m lock origin) s' = (\<exists>bucket. put_effect ext s bucket m lock s')"
| "command_effect ext s (DeleteObject b k nm) s' = (\<exists>bucket. delete_effect ext s bucket b k nm s')"
| "command_effect ext s (DeleteObjectVersion b k v rel) s' =
     (s' = s \<or> (\<exists>r s1. ver s v = Some r \<and> record_matches r b k \<and> enforce_deletable s v rel = Inr s1 \<and> version_effect ext s1 r s'))"
| "command_effect ext s (PutObjectLock b k v requested rel) s' =
     (\<exists>bucket r l z. read_bucket s b = Some bucket \<and> object_lock bucket \<noteq> None \<and> ver s v = Some r
       \<and> record_matches r b k \<and> \<not> is_delete_marker r
       \<and> with_retention (read_object_lock s v) (lock_retention requested) (observed_at rel) (bypass_governance rel) = Inr l
       \<and> (change_only_tightens (read_object_lock s v) requested \<longrightarrow> z = clock s)
       \<and> (\<not> change_only_tightens (read_object_lock s v) requested \<longrightarrow> observe_clock s rel = Inr (s\<lparr>clock := z\<rparr>))
       \<and> s' = write_object_lock (s\<lparr>clock := z\<rparr>) v (with_legal_hold l (legal_hold requested)))"
| "command_effect ext s (ObserveClock rel) s' = (observe_clock s rel = Inr s')"
| "command_effect ext s (CreateMultipartUpload u) s' = (create_multipart_upload_tx s u = Inr s')"
| "command_effect ext s (PutMultipartPart p) s' = part_effect ext s p s'"
| "command_effect ext s (BeginMultipartCompletion i x) s' =
     (\<exists>u. t_get (multipart s) (uuid_bytes i) = Some u \<and> s' = with_upload s (u\<lparr>up_state := Completing x\<rparr>))"
| "command_effect ext s (FinishMultipartUpload i) s' =
     (\<exists>u res. up_id u = i \<and> is_completing u \<and> remove_effect ext s u res s')"
| "command_effect ext s (AbortMultipartUpload i at) s' = (\<exists>u res. up_id u = i \<and> remove_effect ext s u res s')"
| "command_effect ext s RecoverMultipartCompletions s' = (\<exists>res. recover_multipart_completions_tx ext s = Inr (res, s'))"
| "command_effect ext s (PutLifecycleRule r) s' = (put_lifecycle_rule_tx s r = Inr s')"
| "command_effect ext s (DeleteLifecycleRule i) s' = (delete_lifecycle_rule_tx s i = Inr s')"
| "command_effect ext s (CompleteCleanup x) s' = (s' = complete_cleanup_tx s x)"
| "command_effect ext s (PruneMutationEvents n) s' = (s' = snd (prune_mutation_events_tx s n))"

lemma post_outcome: "post (outcome f r) (\<lambda>(x, s'). Q s') \<longleftrightarrow> post r (\<lambda>(x, s'). Q s')"
  by (auto simp: outcome_def result_simps post_def rbind_def split: sum.splits)

lemma outcome_Inl [simp]: "outcome f (Inl e) = Inl e"
  by (simp add: outcome_def rbind_def)

lemma post_no_outcome: "post (no_outcome r) (\<lambda>(x, s'). Q s') \<longleftrightarrow> post r Q"
  by (auto simp: no_outcome_def result_simps post_def rbind_def split: sum.splits)

lemma rebucket_post:
  assumes inv: "index_inv s" and f: "\<And>b b'. f b = Inr b' \<Longrightarrow> bucket_update_ok b b'"
  shows "post (update_bucket_tx s i f) (\<lambda>(b', s'). rebucket s i f s')"
  by (rule post_mono [OF update_bucket_effect [OF inv f]]) (auto simp: rebucket_def)

lemma post_triv: "post r (\<lambda>_. True)"
  by (simp add: post_def split: sum.split)

lemma post_eqI: "post r (\<lambda>x. r = Inr x)"
  by (simp add: post_def split: sum.split)

lemma apply_command_effect:
  assumes inv: "index_inv s"
  shows "post (apply_command_tx ext s c) (\<lambda>(out, s'). command_effect ext s c s')"
proof (cases c)
  case (SetBucketObjectLock i conf)
  then show ?thesis
    using rebucket_post [OF inv bucket_updates(2)]
    by (cases "lock_configuration_validate conf") (auto simp: post_rbind post_map_err post_outcome post_Inl post_Inr elim: post_mono)
next
  case (SetBucketQuota i q)
  have "post (update_bucket_tx s i (\<lambda>b. Inr (b\<lparr>quota := q\<rparr>))) (\<lambda>(b', s'). rebucket s i (\<lambda>b. Inr (b\<lparr>quota := q\<rparr>)) s')"
    by (rule rebucket_post [OF inv]) (rule bucket_updates(3))
  with SetBucketQuota show ?thesis
    by (simp add: post_outcome set_bucket_quota_tx_def Let_def post_Inl quota_fits_def)
next
  case (SetBucketCors i conf)
  have "post (update_bucket_tx s i (\<lambda>b. Inr (b\<lparr>cors := conf\<rparr>))) (\<lambda>(b', s'). rebucket s i (\<lambda>b. Inr (b\<lparr>cors := conf\<rparr>)) s')"
    by (rule rebucket_post [OF inv]) (rule bucket_updates(4))
  with SetBucketCors show ?thesis by (simp add: post_outcome)
next
  case (DeleteObjectVersion b k v rel)
  then show ?thesis
    by (auto simp: post_outcome intro!: post_mono [OF delete_version_effect [OF inv]])
next
  case (PutObjectLock b k v requested rel)
  then show ?thesis
    by (auto simp: post_outcome intro!: post_mono [OF put_object_lock_effect])
next
  case (DeleteBucket name at)
  then show ?thesis by (auto simp: post_outcome intro!: post_mono [OF delete_bucket_effect [OF inv]])
next
  case (BeginMultipartCompletion i x)
  then show ?thesis by (auto simp: post_outcome intro!: post_mono [OF begin_completion_effect [OF inv]])
next
  case (FinishMultipartUpload i)
  then show ?thesis by (auto simp: post_outcome intro!: post_mono [OF remove_multipart_effect [OF inv]])
next
  case (AbortMultipartUpload i at)
  then show ?thesis by (auto simp: post_outcome intro!: post_mono [OF remove_multipart_effect [OF inv]])
next
  case RecoverMultipartCompletions
  then show ?thesis by (auto simp: post_outcome intro!: post_mono [OF post_eqI])
qed (simp_all add: post_outcome post_no_outcome post_Inr post_eqI create_bucket_effect put_part_effect
      put_object_effect [OF inv] delete_object_effect [OF inv]
      rebucket_post [OF inv bucket_updates(1)])

section \<open>Commands that may be applied\<close>

text \<open>
  What the service guarantees of a command: identifiers of new versions are fresh, object keys passed their
  validation, and no generated identifier is the all-ones value.
\<close>

fun command_ok :: "catalog \<Rightarrow> MetadataCommand \<Rightarrow> bool" where
  "command_ok s (CreateBucket b) = (bucket_id b \<noteq> - 1)"
| "command_ok s (PutObject m lock origin) = (ver s (om_version m) = None \<and> object_key_new (om_key m) = Inr (om_key m))"
| "command_ok s (DeleteObject b k nm) = (ver s (nm_version nm) = None \<and> object_key_new k = Inr k)"
| "command_ok s (CreateMultipartUpload u) = (up_id u \<noteq> - 1)"
| "command_ok s _ = True"

lemma accepted_no_nul: "object_key_new k = Inr k' \<Longrightarrow> 0 \<notin> set k"
  using validate_object_key_ok [of k] not_any_control [of k 0] by (auto simp: object_key_new_def result_simps)

definition books :: "catalog \<Rightarrow> bool" where
  "books s \<longleftrightarrow> index_inv s \<and> accounted s"

lemma books_empty: "books empty_catalog"
  by (simp add: books_def index_inv_empty accounted_empty)

lemma books_cong:
  assumes "books s" and "core s' = core s" and "bucket_usage s' = bucket_usage s" and "counters s' = counters s"
  shows "books s'"
  using assms index_inv_cong [OF assms(2)] accounted_same [of s s'] totals_core [OF assms(2)] core_eqD [OF assms(2)]
  by (simp add: books_def)

lemma books_rebucket:
  assumes "books s" and "rebucket s x f s'"
  shows "books s'"
proof -
  from assms obtain b b' where b: "read_bucket s x = Some b" and ok: "bucket_update_ok b b'" and s': "s' = set_bucket s b'"
    and i: "index_inv s" and a: "accounted s" by (auto simp: rebucket_def books_def)
  have "t_get (buckets s) (bucket_key (bucket_id b')) = Some b"
    using b bucketD(1) [OF i b] ok by (simp add: read_bucket_def bucket_update_ok_def)
  then have "n_buckets s' = n_buckets s"
    by (simp add: s' n_buckets_def set_bucket_def t_total_insert_int)
  moreover have "n_part_bytes s' = n_part_bytes s"
    by (simp add: s' fun_eq_iff n_part_bytes_def part_in_def set_bucket_def)
  ultimately have "accounted s'"
    by (intro accounted_same [OF a]) (simp_all add: s' set_bucket_def)
  with index_update_bucket [OF i b ok] s' show ?thesis by (simp add: books_def)
qed

lemma books_objects:
  "books s \<Longrightarrow> put_effect ext s bucket m lock s' \<Longrightarrow> ver s (om_version m) = None \<Longrightarrow> object_key_new (om_key m) = Inr (om_key m) \<Longrightarrow> books s'"
  "books s \<Longrightarrow> delete_effect ext s bucket b k nm s' \<Longrightarrow> ver s (nm_version nm) = None \<Longrightarrow> object_key_new k = Inr k \<Longrightarrow> books s'"
  unfolding books_def by (blast intro: index_put accounted_put index_delete accounted_delete dest: accepted_no_nul)+

lemma books_delete_version:
  assumes inv: "books s" and r: "ver s v = Some r" and e: "enforce_deletable s v rel = Inr s1" and eff: "version_effect ext s1 r s'"
  shows "books s'"
proof -
  from enforce_deletable_state [OF e] obtain z where z: "s1 = s\<lparr>clock := z\<rparr>" by blast
  then have "books s1" by (intro books_cong [OF inv]) simp_all
  moreover from r version_keyedD [of s "uuid_bytes v" r] inv z have "ver s1 (rec_version_id r) = Some r" by (simp add: books_def)
  ultimately show ?thesis
    using index_delete_version [OF _ eff] accounted_delete_version [OF _ _ eff] by (simp add: books_def)
qed

lemma accounted_lock:
  assumes "accounted s"
  shows "accounted (write_object_lock (s\<lparr>clock := z\<rparr>) v l)"
proof (rule accounted_same [OF assms])
  show "n_part_bytes (write_object_lock (s\<lparr>clock := z\<rparr>) v l) = n_part_bytes s"
    "n_buckets (write_object_lock (s\<lparr>clock := z\<rparr>) v l) = n_buckets s"
    by (rule uploads_untouched; simp)+
  show "bucket_usage (write_object_lock (s\<lparr>clock := z\<rparr>) v l) = bucket_usage s"
    "counters (write_object_lock (s\<lparr>clock := z\<rparr>) v l) = counters s"
    by (simp_all add: write_object_lock_def)
qed simp_all

lemma books_put_object_lock:
  assumes "books s" and "ver s v = Some r" "record_matches r b k" "\<not> is_delete_marker r"
    and "read_bucket s b = Some bucket" "object_lock bucket \<noteq> None"
  shows "books (write_object_lock (s\<lparr>clock := z\<rparr>) v l)"
  using assms unfolding books_def by (blast intro: accounted_lock index_put_object_lock)

lemma books_uploads:
  "books s \<Longrightarrow> create_multipart_upload_tx s u = Inr s' \<Longrightarrow> up_id u \<noteq> - 1 \<Longrightarrow> books s'"
  "books s \<Longrightarrow> t_get (multipart s) (uuid_bytes i) = Some u \<Longrightarrow> books (with_upload s (u\<lparr>up_state := st\<rparr>))"
  "books s \<Longrightarrow> part_effect ext s p s' \<Longrightarrow> books s'"
  "books s \<Longrightarrow> remove_effect ext s u res s' \<Longrightarrow> books s'"
proof -
  show "books s \<Longrightarrow> create_multipart_upload_tx s u = Inr s' \<Longrightarrow> up_id u \<noteq> - 1 \<Longrightarrow> books s'"
    unfolding books_def using index_create_upload [of s u s'] create_upload_effect [of s u s'] accounted_with_upload [of s u] by simp
  show "books s \<Longrightarrow> part_effect ext s p s' \<Longrightarrow> books s'"
    unfolding books_def by (blast intro: index_put_part accounted_part)
  show "books s \<Longrightarrow> remove_effect ext s u res s' \<Longrightarrow> books s'"
    unfolding books_def by (blast intro: index_remove_upload accounted_remove_upload)
  assume b: "books s" and u: "t_get (multipart s) (uuid_bytes i) = Some u"
  then have i: "index_inv s" and a: "accounted s" by (simp_all add: books_def)
  have "up_id u = i" using uploadD [OF i u] by simp
  with u have "accounted (with_upload s (u\<lparr>up_state := st\<rparr>))" by (intro accounted_with_upload [OF i a]) simp
  with restate_upload(2) [OF i u] show "books (with_upload s (u\<lparr>up_state := st\<rparr>))" by (simp add: books_def)
qed

lemma books_recover:
  assumes b: "books s" and r: "recover_multipart_completions_tx ext s = Inr (res, s')"
  shows "books s'"
proof -
  from b have "index_inv s" "accounted s" by (simp_all add: books_def)
  then have "post (recover_multipart_completions_tx ext s) (\<lambda>(res, s'). index_inv s' \<and> accounted s')"
    by (rule recover_preserves) (use books_uploads(2,4) in \<open>unfold books_def, blast+\<close>)
  with r show ?thesis by (simp add: post_def books_def)
qed

lemma accounted_rules:
  assumes "accounted s"
  shows "accounted (s\<lparr>lifecycle_rules := rs\<rparr>)"
proof (rule accounted_same [OF assms])
  show "n_part_bytes (s\<lparr>lifecycle_rules := rs\<rparr>) = n_part_bytes s" "n_buckets (s\<lparr>lifecycle_rules := rs\<rparr>) = n_buckets s"
    by (rule uploads_untouched; simp)+
qed simp_all

lemma books_rules:
  "books s \<Longrightarrow> put_lifecycle_rule_tx s r = Inr s' \<Longrightarrow> books s'"
  "books s \<Longrightarrow> delete_lifecycle_rule_tx s i = Inr s' \<Longrightarrow> books s'"
  unfolding books_def using index_put_rule [of s r s'] index_delete_rule [of s i s'] accounted_rules by blast+

lemma books_bookkeeping:
  "books s \<Longrightarrow> observe_clock s rel = Inr s' \<Longrightarrow> books s'" "books s \<Longrightarrow> books (complete_cleanup_tx s x)"
  "books s \<Longrightarrow> books (snd (prune_mutation_events_tx s n))"
  by (auto dest!: observe_clock_state simp: complete_cleanup_tx_def prune_mutation_events_tx_def Let_def intro!: books_cong [of s])

lemma books_buckets:
  "books s \<Longrightarrow> create_effect ext s b s' \<Longrightarrow> bucket_id b \<noteq> - 1 \<Longrightarrow> books s'"
  "books s \<Longrightarrow> drop_bucket_effect ext s name b s' \<Longrightarrow> books s'"
  unfolding books_def by (blast intro: index_create accounted_create drop_bucket_keeps)+

lemmas books_steps = books_rebucket books_objects books_delete_version books_put_object_lock books_uploads books_recover
  books_rules books_bookkeeping books_buckets

lemma books_step: "books s \<Longrightarrow> command_ok s c \<Longrightarrow> command_effect ext s c s' \<Longrightarrow> books s'"
  by (cases c) (simp_all, (blast intro: books_steps)+)

end
