(* ===== verification/Protection.thy ===== *)
theory Protection
  imports Machine
begin

text \<open>
  What Object Lock promises of the whole catalog. A version leaves the catalog only when its lock releases
  it, its payload is then queued for cleanup, and a version under compliance retention survives every run
  of commands decided before its date.
\<close>

section \<open>What a command can do to a version\<close>

definition kept :: "catalog \<Rightarrow> catalog \<Rightarrow> VersionId \<Rightarrow> bool" where
  "kept s s' v \<longleftrightarrow> ver s' v = ver s v \<and> read_object_lock s' v = read_object_lock s v"

lemma kept_tables: "versions s' = versions s \<Longrightarrow> object_locks s' = object_locks s \<Longrightarrow> kept s s' v"
  by (simp add: kept_def read_object_lock_def)

lemma kept_core: "core s' = core c \<Longrightarrow> kept s c v \<Longrightarrow> kept s s' v"
  by (simp add: kept_def read_object_lock_def core_eqD [of s' c])

lemma read_object_lock_cong: "object_locks s = object_locks t \<Longrightarrow> read_object_lock s = read_object_lock t"
  by (simp add: read_object_lock_def fun_eq_iff)

lemma kept_drop:
  assumes "\<And>r. q = Some r \<Longrightarrow> rec_version_id r \<noteq> v"
  shows "kept s (drop_opt s q) v"
  using assms by (cases q) (auto simp: kept_def drop_opt_def drop_record_def read_object_lock_def lock_key_def)

lemma kept_trans: "kept s t v \<Longrightarrow> kept t u v \<Longrightarrow> kept s u v"
  by (simp add: kept_def)

lemma kept_steps:
  "kept s (hide s x) v" "kept s (publish_current s x r) v"
  "rec_version_id r \<noteq> v \<Longrightarrow> kept s (add_record s r) v"
  "w \<noteq> v \<Longrightarrow> kept s (write_object_lock s w l) v"
  "w \<noteq> v \<Longrightarrow> kept s (lock_opt s w lk) v"
  by (cases r; auto simp: kept_def add_record_def read_object_lock_def write_object_lock_def lock_opt_def lock_key_def hide_def
        split: option.split)+

lemma kept_put:
  assumes "\<And>r. replaced_of s bucket (om_bucket m) (om_key m) = Some r \<Longrightarrow> rec_version_id r \<noteq> v" and "om_version m \<noteq> v"
  shows "kept s (put_core s bucket m lock) v"
  unfolding put_core_def Let_def
  by (intro kept_trans [OF kept_trans [OF kept_trans [OF kept_trans [OF kept_steps(1) kept_drop] kept_steps(3)] kept_steps(5)] kept_steps(2)])
    (use assms in auto)

lemma kept_delete:
  assumes "\<And>r. replaced_of s bucket b k = Some r \<Longrightarrow> rec_version_id r \<noteq> v" and "nm_version nm \<noteq> v"
  shows "kept s (delete_core s bucket b k nm) v"
proof -
  have "kept s (drop_opt (hide s (object_key b k)) (replaced_of s bucket b k)) v"
    by (rule kept_trans [OF kept_steps(1) kept_drop]) (use assms in auto)
  moreover from this have "kept s (publish_current (add_record (drop_opt (hide s (object_key b k)) (replaced_of s bucket b k)) r) x r) v"
    if "rec_version_id r \<noteq> v" for x r
    by (rule kept_trans [OF kept_trans [OF _ kept_steps(3)] kept_steps(2)]) (fact that)
  ultimately show ?thesis
    using assms(2) unfolding delete_core_def Let_def by (simp add: marker_of_def del: publish_current.simps)
qed

lemma kept_version:
  assumes "rec_version_id r \<noteq> v"
  shows "kept s (version_core s r) v"
proof -
  have "kept s (unhooked s r) v"
    unfolding unhooked_def using kept_drop [of "Some r" v] kept_trans [OF kept_steps(1) kept_drop [of "Some r" v]] assms
    by (simp add: drop_opt_def)
  then show ?thesis
    by (auto simp: version_core_def intro: kept_trans [OF _ kept_steps(2)] split: option.split)
qed

text \<open>The fate of one version under one command: it is kept, its lock is changed, or it is released.\<close>

definition released :: "ObjectLockState \<Rightarrow> VersionId \<Rightarrow> MetadataCommand \<Rightarrow> bool" where
  "released l v c \<longleftrightarrow> is_unlocked l
     \<or> (\<exists>b k rel. c = DeleteObjectVersion b k v rel \<and> releasable l (observed_at rel) (bypass_governance rel))"

definition payload_queued :: "catalog \<Rightarrow> ObjectVersionRecord \<Rightarrow> bool" where
  "payload_queued s r \<longleftrightarrow> (\<forall>m. as_object r = Some m \<longrightarrow> t_get (cleanup s) (uuid_bytes (om_id m)) = Some 1)"

lemma moved_payloads: "moved ext s c u d (payloads (Some r)) s' \<Longrightarrow> payload_queued s' r"
  by (auto simp: payload_queued_def payloads_def movedD(5))

lemma replaced_unlocked:
  assumes inv: "index_inv s" and b: "read_bucket s b = Some bucket" and r: "replaced_of s bucket b k = Some r"
  shows "is_unlocked (read_object_lock s (rec_version_id r))"
proof (cases "t_get (object_locks s) (lock_key (rec_version_id r))")
  case None
  then show ?thesis by (simp add: read_object_lock_def is_unlocked_def default_lock_def)
next
  case (Some l)
  note R = replaced_ofD [OF inv r]
  from lock_heldD [OF inv Some] R(1,2) b have "object_lock bucket \<noteq> None"
    by (auto simp: lock_key_def)
  with lock_bucket_not_null [OF inv _ _ R(1)] R b show ?thesis by auto
qed

lemma enforce_released:
  assumes "enforce_deletable s v rel = Inr s1"
  shows "is_unlocked (read_object_lock s v) \<or> releasable (read_object_lock s v) (observed_at rel) (bypass_governance rel)"
  using assms unfolding deletion_block_releasable
  by (auto simp: enforce_deletable_def Let_def rbind_Inr split: if_splits option.splits)

lemma versions_cores:
  "versions (put_core s bucket m lock) = t_insert (uuid_bytes (om_version m)) (ObjectRecord m (versioning bucket \<noteq> Enabled))
     (versions (drop_opt s (replaced_of s bucket (om_bucket m) (om_key m))))"
  "versions (delete_core s bucket b k nm) = (if versioning bucket = Disabled then versions (drop_opt s (replaced_of s bucket b k))
     else t_insert (uuid_bytes (nm_version nm)) (MarkerRecord (marker_of b k nm) (versioning bucket = Suspended))
        (versions (drop_opt s (replaced_of s bucket b k))))"
  "versions (version_core s r) = t_remove (uuid_bytes (rec_version_id r)) (versions s)"
proof -
  have p: "versions (publish_current t x r) = versions t" for t x r by (cases r) simp_all
  have l: "versions (lock_opt t v lk) = versions t" for t v lk by (simp add: lock_opt_def split: option.split)
  have d: "versions (drop_opt (hide t x) q) = versions (drop_opt t q)" for t x q by (simp add: drop_opt_def split: option.split)
  show "versions (put_core s bucket m lock) = t_insert (uuid_bytes (om_version m)) (ObjectRecord m (versioning bucket \<noteq> Enabled))
     (versions (drop_opt s (replaced_of s bucket (om_bucket m) (om_key m))))"
    by (simp add: put_core_def Let_def p l d del: publish_current.simps)
  show "versions (delete_core s bucket b k nm) = (if versioning bucket = Disabled then versions (drop_opt s (replaced_of s bucket b k))
     else t_insert (uuid_bytes (nm_version nm)) (MarkerRecord (marker_of b k nm) (versioning bucket = Suspended))
        (versions (drop_opt s (replaced_of s bucket b k))))"
    by (simp add: delete_core_def Let_def p d marker_of_def del: publish_current.simps)
  show "versions (version_core s r) = t_remove (uuid_bytes (rec_version_id r)) (versions s)"
    by (simp add: version_core_def unhooked_def p split: option.split)
qed

definition fate :: "catalog \<Rightarrow> catalog \<Rightarrow> VersionId \<Rightarrow> ObjectVersionRecord \<Rightarrow> MetadataCommand \<Rightarrow> bool" where
  "fate s s' v r c \<longleftrightarrow> kept s s' v \<or> ver s' v = Some r \<and> (\<exists>b k q rel. c = PutObjectLock b k v q rel)
     \<or> ver s' v = None \<and> released (read_object_lock s v) v c \<and> payload_queued s' r"

lemma fate_replace:
  assumes inv: "index_inv s" and b: "read_bucket s b = Some bucket" and r: "ver s v = Some r"
    and p: "\<And>q. replaced_of s bucket b k = Some q \<Longrightarrow> payload_queued s' q"
    and gone: "\<And>q. replaced_of s bucket b k = Some q \<Longrightarrow> rec_version_id q = v \<Longrightarrow> ver s' v = None"
    and keep: "(\<And>q. replaced_of s bucket b k = Some q \<Longrightarrow> rec_version_id q \<noteq> v) \<Longrightarrow> kept s s' v"
  shows "fate s s' v r c"
proof (cases "\<exists>q. replaced_of s bucket b k = Some q \<and> rec_version_id q = v")
  case True
  then obtain q where q: "replaced_of s bucket b k = Some q" "rec_version_id q = v" by blast
  with replaced_ofD(1) [OF inv q(1)] r have "q = r" by simp
  then show ?thesis
    using replaced_unlocked [OF inv b q(1)] p [OF q(1)] gone [OF q] q(2) by (simp add: fate_def released_def)
next
  case False
  with keep show ?thesis by (auto simp: fate_def)
qed

lemma fate_put:
  assumes inv: "index_inv s" and eff: "put_effect ext s bucket m lock s'" and new: "ver s (om_version m) = None"
    and r: "ver s v = Some r"
  shows "fate s s' v r c"
proof -
  let ?q = "replaced_of s bucket (om_bucket m) (om_key m)"
  from eff have b: "read_bucket s (om_bucket m) = Some bucket" and c: "core s' = core (put_core s bucket m lock)"
    and p: "\<And>r. ?q = Some r \<Longrightarrow> payload_queued s' r"
    by (auto simp: put_effect_def Let_def dest: movedD(1) moved_payloads)
  from new r have nv: "om_version m \<noteq> v" by auto
  show ?thesis
  proof (rule fate_replace [OF inv b r p])
    show "ver s' v = None" if "?q = Some q" "rec_version_id q = v" for q
      using that nv core_eqD(5) [OF c] by (simp add: versions_cores drop_opt_def)
    show "kept s s' v" if "\<And>q. ?q = Some q \<Longrightarrow> rec_version_id q \<noteq> v"
      using that nv by (intro kept_core [OF c] kept_put)
  qed
qed

lemma fate_delete:
  assumes inv: "index_inv s" and eff: "delete_effect ext s bucket b k nm s'" and new: "ver s (nm_version nm) = None"
    and r: "ver s v = Some r"
  shows "fate s s' v r c"
proof -
  let ?q = "replaced_of s bucket b k"
  from eff have b: "read_bucket s b = Some bucket" and c: "core s' = core (delete_core s bucket b k nm)"
    and p: "\<And>r. ?q = Some r \<Longrightarrow> payload_queued s' r"
    by (auto simp: delete_effect_def Let_def dest: movedD(1) moved_payloads)
  from new r have nv: "nm_version nm \<noteq> v" by auto
  show ?thesis
  proof (rule fate_replace [OF inv b r p])
    show "ver s' v = None" if "?q = Some q" "rec_version_id q = v" for q
      using that nv core_eqD(5) [OF c] by (simp add: versions_cores drop_opt_def)
    show "kept s s' v" if "\<And>q. ?q = Some q \<Longrightarrow> rec_version_id q \<noteq> v"
      using that nv by (intro kept_core [OF c] kept_delete)
  qed
qed

lemma fate_delete_version:
  assumes inv: "index_inv s" and q: "ver s w = Some q" and e: "enforce_deletable s w rel = Inr s1"
    and eff: "version_effect ext s1 q s'" and r: "ver s v = Some r"
  shows "fate s s' v r (DeleteObjectVersion b k w rel)"
proof -
  from eff have c: "core s' = core (version_core s1 q)" and p: "payload_queued s' q"
    by (auto simp: version_effect_def Let_def dest: movedD(1) moved_payloads)
  from enforce_deletable_state [OF e] obtain z where z: "s1 = s\<lparr>clock := z\<rparr>" by blast
  from version_keyedD [OF inv q] have w: "rec_version_id q = w" by simp
  show ?thesis
  proof (cases "w = v")
    case True
    have "ver s' v = None" using True w core_eqD(5) [OF c] by (simp add: versions_cores)
    moreover have "q = r" using True q r by simp
    ultimately show ?thesis
      using enforce_released [OF e] p True by (simp add: fate_def released_def)
  next
    case False
    then have "kept s1 (version_core s1 q) v" by (intro kept_version) (simp add: w)
    then have "kept s (version_core s1 q) v" by (simp add: z kept_def read_object_lock_def)
    with c show ?thesis by (auto simp: fate_def intro: kept_core)
  qed
qed

lemma fate_put_lock:
  assumes "ver s v = Some r"
  shows "fate s (write_object_lock (s\<lparr>clock := z\<rparr>) w l) v r (PutObjectLock b k w requested rel)"
proof (cases "w = v")
  case False
  then have "kept (s\<lparr>clock := z\<rparr>) (write_object_lock (s\<lparr>clock := z\<rparr>) w l) v" by (rule kept_steps)
  then have "kept s (write_object_lock (s\<lparr>clock := z\<rparr>) w l) v" by (simp add: kept_def read_object_lock_def)
  then show ?thesis by (simp add: fate_def)
qed (simp add: fate_def assms)

section \<open>Commands that leave the versions alone\<close>

definition same_versions :: "catalog \<Rightarrow> catalog \<Rightarrow> bool" where
  "same_versions s s' \<longleftrightarrow> versions s' = versions s \<and> object_locks s' = object_locks s"

fun touches_versions :: "MetadataCommand \<Rightarrow> bool" where
  "touches_versions (PutObject m lock origin) = True"
| "touches_versions (DeleteObject b k nm) = True"
| "touches_versions (DeleteObjectVersion b k v rel) = True"
| "touches_versions (PutObjectLock b k v requested rel) = True"
| "touches_versions _ = False"

lemma same_versions_core: "core s' = core c \<Longrightarrow> same_versions s c \<Longrightarrow> same_versions s s'"
  by (simp add: same_versions_def core_eqD [of s' c])

lemma same_moved:
  "moved ext s c u d q s' \<Longrightarrow> versions c = versions s \<Longrightarrow> object_locks c = object_locks s \<Longrightarrow> same_versions s s'"
  by (drule movedD(1), erule same_versions_core) (simp add: same_versions_def)

lemma same_recover:
  assumes "index_inv s" and r: "recover_multipart_completions_tx ext s = Inr (res, s')"
  shows "same_versions s s'"
proof -
  have "post (recover_multipart_completions_tx ext s) (\<lambda>(res, s'). index_inv s' \<and> same_versions s s')"
  proof (rule recover_preserves [OF assms(1), where P = "same_versions s"])
    show "same_versions s t'" if "same_versions s t" "remove_effect ext t u res t'" for t u res t'
    proof -
      from that(2) have "core t' = core (without_upload t u)" by (auto simp: remove_effect_def Let_def dest: movedD(1))
      then show ?thesis
        by (rule same_versions_core) (use that(1) in \<open>simp add: same_versions_def without_upload_def\<close>)
    qed
  qed (auto simp: with_upload_def same_versions_def)
  with r show ?thesis by (simp add: post_def)
qed

lemma same_uploads:
  "create_multipart_upload_tx s u = Inr s' \<Longrightarrow> same_versions s s'" "same_versions s (with_upload s u)"
  "part_effect ext s p s' \<Longrightarrow> same_versions s s'" "remove_effect ext s u res s' \<Longrightarrow> same_versions s s'"
proof -
  show w: "same_versions s (with_upload s u)" for u by (simp add: same_versions_def with_upload_def)
  then show "create_multipart_upload_tx s u = Inr s' \<Longrightarrow> same_versions s s'" by (auto dest: create_upload_effect)
qed (auto simp: part_effect_def remove_effect_def Let_def without_upload_def intro: same_moved)

lemma same_buckets:
  "create_effect ext s b s' \<Longrightarrow> same_versions s s'" "drop_bucket_effect ext s name b s' \<Longrightarrow> same_versions s s'"
  "rebucket s i f s' \<Longrightarrow> same_versions s s'"
proof -
  show "rebucket s i f s' \<Longrightarrow> same_versions s s'" by (auto simp: rebucket_def set_bucket_def same_versions_def)
qed (auto simp: create_effect_def drop_bucket_effect_def set_bucket_def without_bucket_def intro: same_moved)

lemma same_bookkeeping:
  "observe_clock s rel = Inr s' \<Longrightarrow> same_versions s s'" "same_versions s (complete_cleanup_tx s x)"
  "same_versions s (snd (prune_mutation_events_tx s n))"
  "put_lifecycle_rule_tx s rule = Inr s' \<Longrightarrow> same_versions s s'" "delete_lifecycle_rule_tx s j = Inr s' \<Longrightarrow> same_versions s s'"
  by (auto dest!: observe_clock_state simp: complete_cleanup_tx_def prune_mutation_events_tx_def Let_def same_versions_def
      put_lifecycle_rule_tx_def delete_lifecycle_rule_tx_def result_simps split: if_splits)

lemma other_commands:
  "index_inv s \<Longrightarrow> command_effect ext s c s' \<Longrightarrow> \<not> touches_versions c \<Longrightarrow> same_versions s s'"
  by (cases c) (auto intro: same_uploads same_buckets same_bookkeeping same_recover)

lemma fate_step:
  assumes inv: "index_inv s" and ok: "command_ok s c" and eff: "command_effect ext s c s'" and r: "ver s v = Some r"
  shows "fate s s' v r c"
proof (cases "touches_versions c")
  case False
  with other_commands [OF inv eff] show ?thesis
    by (simp add: fate_def same_versions_def kept_tables)
next
  case True
  show ?thesis
  proof (cases c)
    case (DeleteObjectVersion b k w rel)
    have "fate s s v r c" by (simp add: fate_def kept_def)
    with DeleteObjectVersion eff fate_delete_version [OF inv _ _ _ r] show ?thesis by auto
  next
    case (PutObjectLock b k w requested rel)
    with eff obtain z l where "s' = write_object_lock (s\<lparr>clock := z\<rparr>) w l" by fastforce
    then show ?thesis unfolding PutObjectLock by (simp only: fate_put_lock [OF r])
  qed (use True eff ok in \<open>auto intro: fate_put [OF inv _ _ r] fate_delete [OF inv _ _ r]\<close>)
qed

end
