(* ===== verification/Runs.thy ===== *)
theory Runs
  imports Protection
begin

text \<open>
  Runs of commands. The interface \<open>guarded_machine\<close> is what every invariant of the catalog has to show of
  one accepted command; its lemma extends it to whole runs. It is interpreted for the index and the books,
  the journal, the clock watermark, the byte quotas and compliance retention.
\<close>

section \<open>Runs of a machine with guarded steps\<close>

definition attempt :: "('s \<Rightarrow> 'c \<Rightarrow> ('e, 'o \<times> 's) result) \<Rightarrow> 's \<Rightarrow> 'c \<Rightarrow> 's" where
  "attempt ap s c = (case ap s c of Inl e \<Rightarrow> s | Inr (x, s') \<Rightarrow> s')"

fun run :: "('s \<Rightarrow> 'c \<Rightarrow> ('e, 'o \<times> 's) result) \<Rightarrow> 's \<Rightarrow> 'c list \<Rightarrow> 's" where
  "run ap s [] = s"
| "run ap s (c # cs) = run ap (attempt ap s c) cs"

fun admitted :: "('s \<Rightarrow> 'c \<Rightarrow> bool) \<Rightarrow> ('s \<Rightarrow> 'c \<Rightarrow> ('e, 'o \<times> 's) result) \<Rightarrow> 's \<Rightarrow> 'c list \<Rightarrow> bool" where
  "admitted ok ap s [] = True"
| "admitted ok ap s (c # cs) = (ok s c \<and> admitted ok ap (attempt ap s c) cs)"

lemma run_append: "run ap s (cs @ ds) = run ap (run ap s cs) ds"
  by (induction cs arbitrary: s) simp_all

lemma admitted_append:
  "admitted ok ap s (cs @ ds) \<longleftrightarrow> admitted ok ap s cs \<and> admitted ok ap (run ap s cs) ds"
  by (induction cs arbitrary: s) simp_all

lemma admitted_conj: "admitted (\<lambda>s c. ok s c \<and> P c) ap s cs \<longleftrightarrow> admitted ok ap s cs \<and> list_all P cs"
  by (induction cs arbitrary: s) auto

locale guarded_machine =
  fixes ap :: "'s \<Rightarrow> 'c \<Rightarrow> ('e, 'o \<times> 's) result" and ok :: "'s \<Rightarrow> 'c \<Rightarrow> bool" and inv :: "'s \<Rightarrow> bool"
  assumes step: "inv s \<Longrightarrow> ok s c \<Longrightarrow> ap s c = Inr (x, s') \<Longrightarrow> inv s'"
begin

lemma attempt_inv: "inv s \<Longrightarrow> ok s c \<Longrightarrow> inv (attempt ap s c)"
  using step by (auto simp: attempt_def split: sum.split)

lemma run_inv: "inv s \<Longrightarrow> admitted ok ap s cs \<Longrightarrow> inv (run ap s cs)"
  by (induction cs arbitrary: s) (simp_all add: attempt_inv)

end

section \<open>Admissible command sequences\<close>

text \<open>
  The hypothesis of the run theorems speaks of the commands alone: every version identifier is introduced
  at most once, keys passed their validation, and generated identifiers are not the all-ones value.
\<close>

fun introduces :: "MetadataCommand \<Rightarrow> VersionId list" where
  "introduces (PutObject m lock origin) = [om_version m]"
| "introduces (DeleteObject b k nm) = [nm_version nm]"
| "introduces _ = []"

fun well_formed :: "MetadataCommand \<Rightarrow> bool" where
  "well_formed (CreateBucket b) = (bucket_id b \<noteq> - 1)"
| "well_formed (PutObject m lock origin) = (object_key_new (om_key m) = Inr (om_key m))"
| "well_formed (DeleteObject b k nm) = (object_key_new k = Inr k)"
| "well_formed (CreateMultipartUpload u) = (up_id u \<noteq> - 1)"
| "well_formed _ = True"

definition admissible :: "MetadataCommand list \<Rightarrow> bool" where
  "admissible cs \<longleftrightarrow> distinct (concat (map introduces cs)) \<and> list_all well_formed cs"

lemma command_ok_iff: "command_ok s c \<longleftrightarrow> well_formed c \<and> (\<forall>v \<in> set (introduces c). ver s v = None)"
  by (cases c) auto

lemma admissible_Cons: "admissible (c # cs) \<Longrightarrow> well_formed c \<and> admissible cs"
  by (simp add: admissible_def)

text \<open>A command records no version but the one it introduces.\<close>

lemma kept_absent:
  assumes inv: "index_inv s" and eff: "command_effect ext s c s'" and new: "ver s v = None" "v \<notin> set (introduces c)"
  shows "ver s' v = None"
proof -
  show ?thesis
  proof (cases c)
    case (PutObject m lock origin)
    with eff obtain bucket where e: "put_effect ext s bucket m lock s'" by auto
    then have "core s' = core (put_core s bucket m lock)" by (auto simp: put_effect_def Let_def dest: movedD(1))
    from core_eqD(5) [OF this] new PutObject show ?thesis
      using ver_drop_opt [OF new(1)] by (simp add: versions_cores)
  next
    case (DeleteObject b k nm)
    with eff obtain bucket where e: "delete_effect ext s bucket b k nm s'" by auto
    then have "core s' = core (delete_core s bucket b k nm)" by (auto simp: delete_effect_def Let_def dest: movedD(1))
    from core_eqD(5) [OF this] new DeleteObject show ?thesis
      using ver_drop_opt [OF new(1)] by (simp add: versions_cores)
  next
    case (DeleteObjectVersion b k w rel)
    with eff consider "s' = s" | r s1 where "enforce_deletable s w rel = Inr s1" "version_effect ext s1 r s'" by auto
    then show ?thesis
    proof cases
      case 2
      from enforce_deletable_state [OF 2(1)] have v: "versions s1 = versions s" by auto
      from 2(2) have "core s' = core (version_core s1 r)" by (auto simp: version_effect_def Let_def dest: movedD(1))
      from core_eqD(5) [OF this] v new show ?thesis by (simp add: versions_cores)
    qed (simp add: new)
  next
    case (PutObjectLock b k w requested rel)
    with eff new show ?thesis by auto
  qed (use new other_commands [OF inv eff] in \<open>auto simp: same_versions_def\<close>)
qed

lemma admitted_run:
  assumes "books s" and "admissible cs" and "\<And>v. v \<in> set (concat (map introduces cs)) \<Longrightarrow> ver s v = None"
  shows "admitted command_ok (apply_command_tx ext) s cs"
  using assms
proof (induction cs arbitrary: s)
  case (Cons c cs)
  let ?ap = "apply_command_tx ext"
  have i: "index_inv s" using Cons.prems(1) by (simp add: books_def)
  have ok: "command_ok s c"
    using Cons.prems(2,3) admissible_Cons by (auto simp: command_ok_iff)
  have eff: "command_effect ext s c s'" if "?ap s c = Inr (x, s')" for x s'
    using apply_command_effect [OF i, of ext c] that by (simp add: post_def)
  have "books (attempt ?ap s c)"
    using Cons.prems(1) books_step [OF Cons.prems(1) ok eff] by (auto simp: attempt_def split: sum.split)
  moreover have "ver (attempt ?ap s c) v = None" if v: "v \<in> set (concat (map introduces cs))" for v
  proof -
    have "v \<notin> set (introduces c)" using v Cons.prems(2) by (auto simp: admissible_def)
    moreover have "ver s v = None" using v Cons.prems(3) by simp
    ultimately show ?thesis using kept_absent [OF i eff] by (auto simp: attempt_def split: sum.split)
  qed
  ultimately show ?case
    using Cons.IH ok Cons.prems(2) admissible_Cons by simp
qed simp

lemma command_effectD:
  "books s \<Longrightarrow> apply_command_tx ext s c = Inr (x, s') \<Longrightarrow> command_effect ext s c s'"
  using apply_command_effect [of s ext c] by (simp add: books_def post_def)

interpretation bk: guarded_machine "apply_command_tx ext" command_ok books for ext
  by unfold_locales (blast intro: books_step command_effectD)

abbreviation after :: "externs \<Rightarrow> MetadataCommand list \<Rightarrow> catalog" where
  "after ext cs \<equiv> run (apply_command_tx ext) empty_catalog cs"

lemma admitted_after: "admissible cs \<Longrightarrow> admitted command_ok (apply_command_tx ext) empty_catalog cs"
  by (rule admitted_run [OF books_empty]) (simp_all add: empty_catalog_def)

lemma admitted_later:
  "admissible (cs @ ds) \<Longrightarrow> admitted command_ok (apply_command_tx ext) (after ext cs) ds"
  using admitted_after [of "cs @ ds" ext] by (simp add: admitted_append)

lemma admissible_append: "admissible (cs @ ds) \<Longrightarrow> admissible cs"
  by (simp add: admissible_def)

lemma books_after: "admissible cs \<Longrightarrow> books (after ext cs)"
  by (rule bk.run_inv [OF books_empty admitted_after])

lemma after_snoc: "after ext (cs @ [c]) = attempt (apply_command_tx ext) (after ext cs) c"
  by (simp add: run_append)

section \<open>Compliance retention over a run\<close>

text \<open>When the release of a lock is decided: at the time the command carries.\<close>

fun decided_before :: "datetime \<Rightarrow> MetadataCommand \<Rightarrow> bool" where
  "decided_before U (DeleteObjectVersion b k v rel) = (timestamp_micros (observed_at rel) < timestamp_micros U)"
| "decided_before U (PutObjectLock b k v q rel) = (timestamp_micros (observed_at rel) < timestamp_micros U)"
| "decided_before U _ = True"

definition sealed :: "datetime \<Rightarrow> VersionId \<Rightarrow> ObjectVersionRecord \<Rightarrow> catalog \<Rightarrow> bool" where
  "sealed U v r s \<longleftrightarrow> ver s v = Some r
     \<and> (\<exists>c. lock_retention (read_object_lock s v) = Some c \<and> ret_mode c = Compliance \<and> U \<le> retain_until c)"

lemma active_before:
  "timestamp_micros now < timestamp_micros U \<Longrightarrow> U \<le> retain_until c \<Longrightarrow> is_active_at c now"
  using is_active_at_mono [of "c\<lparr>retain_until := U\<rparr>" c now] by (simp add: is_active_at_def)

lemma read_written_lock: "\<not> is_unlocked l \<Longrightarrow> read_object_lock (write_object_lock s v l) v = l"
  by (simp add: read_object_lock_def write_object_lock_def)

lemma sealed_step:
  assumes b: "books s" and sl: "sealed U v r s" and ok: "command_ok s c" "decided_before U c"
    and eff: "command_effect ext s c s'"
  shows "sealed U v r s'"
proof -
  from b have i: "index_inv s" by (simp add: books_def)
  from sl obtain k where r: "ver s v = Some r" and k: "lock_retention (read_object_lock s v) = Some k"
    "ret_mode k = Compliance" "U \<le> retain_until k"
    by (auto simp: sealed_def)
  have "fate s s' v r c" by (rule fate_step [OF i ok(1) eff r])
  then consider "kept s s' v" | b k' q rel where "ver s' v = Some r" "c = PutObjectLock b k' v q rel"
    | "released (read_object_lock s v) v c"
    by (auto simp: fate_def)
  then show ?thesis
  proof cases
    case 1
    with r k show ?thesis by (auto simp: sealed_def kept_def)
  next
    case (2 b k' q rel)
    with eff obtain l z where l: "with_retention (read_object_lock s v) (lock_retention q) (observed_at rel) (bypass_governance rel) = Inr l"
      and s': "s' = write_object_lock (s\<lparr>clock := z\<rparr>) v (with_legal_hold l (legal_hold q))" by auto
    have act: "is_active_at k (observed_at rel)" using ok(2) 2(2) k(3) by (simp add: active_before)
    from with_retention_active [OF k(1) act l] k(2) obtain r' where q: "lock_retention q = Some r'" "retention_ge r' k" by auto
    have "lock_retention l = Some r'" using with_retention_result [OF l] q by simp
    moreover have "ret_mode r' = Compliance" using retention_ge_compliance [OF q(2) k(2)] .
    moreover have "U \<le> retain_until r'" using q(2) k(3) by (simp add: retention_ge_def)
    moreover from calculation(1) have "read_object_lock s' v = with_legal_hold l (legal_hold q)"
      unfolding s' by (intro read_written_lock) (simp add: is_unlocked_def with_legal_hold_def)
    ultimately show ?thesis using 2(1) by (simp add: sealed_def with_legal_hold_def)
  next
    case 3
    with k(1) obtain b k' rel where "c = DeleteObjectVersion b k' v rel"
      "releasable (read_object_lock s v) (observed_at rel) (bypass_governance rel)"
      by (auto simp: released_def is_unlocked_def)
    with ok(2) k active_before [of "observed_at rel" U k] show ?thesis by (simp add: releasable_def)
  qed
qed

interpretation worm: guarded_machine "apply_command_tx ext" "\<lambda>s c. command_ok s c \<and> decided_before U c"
  "\<lambda>s. books s \<and> sealed U v r s" for ext U v r
  by unfold_locales (blast intro: books_step sealed_step command_effectD)

end
