(* ===== verification/Journal.thy ===== *)
theory Journal
  imports Runs
begin

text \<open>
  The event journal and the clock watermark over a run. The journal has no gap: it holds exactly the
  sequence numbers after the last pruned one, and every event carries the identifier derived from its
  contents. The watermark never moves back.
\<close>

section \<open>The journal\<close>

text \<open>A step that leaves the journal and its counter alone, or only appends to it.\<close>

definition journal_kept :: "externs \<Rightarrow> catalog \<Rightarrow> catalog \<Rightarrow> bool" where
  "journal_kept ext s s' \<longleftrightarrow> (\<forall>lo. journal_from ext lo s \<longrightarrow> journal_from ext lo s')"

lemma journal_kept_refl: "journal_kept ext s s"
  by (simp add: journal_kept_def)

lemma journal_kept_trans: "journal_kept ext s t \<Longrightarrow> journal_kept ext t u \<Longrightarrow> journal_kept ext s u"
  by (simp add: journal_kept_def)

lemma journal_kept_moved: "moved ext s c u d q s' \<Longrightarrow> journal_kept ext s s'"
  by (simp add: journal_kept_def movedD(6))

lemma journal_kept_same: "counters s' = counters s \<Longrightarrow> mutation_events s' = mutation_events s \<Longrightarrow> journal_kept ext s s'"
  using journal_from_cong [of s' s] by (simp add: journal_kept_def ctr_def read_counter_def)

lemma with_upload_journal: "journal_kept ext s (with_upload s u)"
  by (rule journal_kept_same) (simp_all add: with_upload_def)

lemma remove_journal: "remove_effect ext s u res s' \<Longrightarrow> journal_kept ext s s'"
  by (auto simp: remove_effect_def Let_def dest: journal_kept_moved)

lemma recover_journal:
  assumes "index_inv s" and r: "recover_multipart_completions_tx ext s = Inr (res, s')"
  shows "journal_kept ext s s'"
proof -
  have "post (recover_multipart_completions_tx ext s) (\<lambda>(res, s'). index_inv s' \<and> journal_kept ext s s')"
    by (rule recover_preserves [OF assms(1), where P = "journal_kept ext s"])
      (auto intro: journal_kept_refl journal_kept_trans [OF _ remove_journal] journal_kept_trans [OF _ with_upload_journal])
  with r show ?thesis by (simp add: post_def)
qed

lemma journal_step:
  assumes inv: "index_inv s" and eff: "command_effect ext s c s'" and c: "\<And>n. c \<noteq> PruneMutationEvents n"
  shows "journal_kept ext s s'"
proof (cases c)
  case (DeleteObjectVersion b k v rel)
  with eff consider "s' = s" | r s1 where "enforce_deletable s v rel = Inr s1" "version_effect ext s1 r s'" by auto
  then show ?thesis
  proof cases
    case 2
    from enforce_deletable_state [OF 2(1)] have "journal_kept ext s s1" by (auto intro: journal_kept_same)
    with 2(2) show ?thesis by (auto simp: version_effect_def Let_def intro: journal_kept_trans journal_kept_moved)
  qed (simp add: journal_kept_refl)
next
  case (PutObjectLock b k v q rel)
  with eff obtain z l where "s' = write_object_lock (s\<lparr>clock := z\<rparr>) v l" by fastforce
  then show ?thesis by (auto intro!: journal_kept_same simp: write_object_lock_def)
next
  case RecoverMultipartCompletions
  with eff recover_journal [OF inv] show ?thesis by auto
next
  case (CreateMultipartUpload u)
  with eff show ?thesis by (auto dest!: create_upload_effect intro: with_upload_journal)
next
  case (BeginMultipartCompletion i x)
  with eff show ?thesis by (auto intro: with_upload_journal)
qed (use eff c in \<open>auto simp: create_effect_def drop_bucket_effect_def rebucket_def set_bucket_def put_effect_def delete_effect_def
      part_effect_def Let_def complete_cleanup_tx_def put_lifecycle_rule_tx_def delete_lifecycle_rule_tx_def result_simps
      dest!: observe_clock_state split: if_splits intro: journal_kept_moved journal_kept_same remove_journal\<close>)

lemma set_t_upto: "(k, v) \<in> set (t_upto t hi) \<longleftrightarrow> t_get t k = Some v \<and> k \<le> hi"
  by (auto simp: t_upto_def t_get_iff)

lemma prune_journal:
  assumes j: "journal_from ext lo s"
  shows "journal_from ext (max lo (min (uint n) (ctr s MUTATION_EVENT_SEQUENCE))) (snd (prune_mutation_events_tx s n))"
proof -
  let ?s = "snd (prune_mutation_events_tx s n)"
  have c: "ctr ?s = ctr s" by (simp add: fun_eq_iff prune_mutation_events_tx_def Let_def)
  have doomed: "k \<in> fst ` set (t_upto (mutation_events s) n) \<longleftrightarrow> t_get (mutation_events s) k \<noteq> None \<and> uint k \<le> uint n" for k
  proof -
    have "k \<in> fst ` set (t_upto (mutation_events s) n) \<longleftrightarrow> (\<exists>v. (k, v) \<in> set (t_upto (mutation_events s) n))"
      by force
    then show ?thesis by (auto simp: set_t_upto word_le_def)
  qed
  have e: "t_get (mutation_events ?s) k = (if uint k \<le> uint n then None else t_get (mutation_events s) k)" for k
    using doomed [of k] by (cases "t_get (mutation_events s) k") (auto simp: prune_mutation_events_tx_def Let_def t_get_remove_all)
  have "t_get (mutation_events s) k \<noteq> None \<longleftrightarrow> lo < uint k \<and> uint k \<le> ctr s MUTATION_EVENT_SEQUENCE" for k
    using j unfolding journal_from_def by blast
  then have "t_get (mutation_events ?s) k \<noteq> None \<longleftrightarrow>
      max lo (min (uint n) (ctr s MUTATION_EVENT_SEQUENCE)) < uint k \<and> uint k \<le> ctr s MUTATION_EVENT_SEQUENCE" for k
    unfolding e by (auto simp: max_def min_def)
  with j show ?thesis
    unfolding journal_from_def c by (auto simp: e split: if_splits)
qed

text \<open>How far a run has pruned: the floor of the journal after each command.\<close>

definition journal_ok :: "externs \<Rightarrow> catalog \<Rightarrow> bool" where
  "journal_ok ext s \<longleftrightarrow> (\<exists>lo. 0 \<le> lo \<and> journal_from ext lo s)"

lemma journal_ok_step:
  assumes inv: "index_inv s" and j: "journal_ok ext s" and eff: "command_effect ext s c s'"
  shows "journal_ok ext s'"
proof -
  from j obtain lo where lo: "0 \<le> lo" "journal_from ext lo s" by (auto simp: journal_ok_def)
  show ?thesis
  proof (cases "\<exists>n. c = PruneMutationEvents n")
    case True
    then obtain n where "s' = snd (prune_mutation_events_tx s n)" using eff by auto
    moreover have "0 \<le> max lo (min (uint n) (ctr s MUTATION_EVENT_SEQUENCE))" using lo(1) by simp
    ultimately show ?thesis unfolding journal_ok_def using prune_journal [OF lo(2), of n] by blast
  next
    case False
    with journal_step [OF inv eff] lo show ?thesis by (auto simp: journal_ok_def journal_kept_def)
  qed
qed

lemma journal_empty: "journal_from ext 0 empty_catalog"
proof -
  have "\<not> (0 < uint n \<and> uint n \<le> 0)" for n :: u64 by linarith
  then show ?thesis by (simp add: journal_from_def ctr_def read_counter_def empty_catalog_def)
qed

lemma books_index: "books s \<Longrightarrow> index_inv s"
  by (simp add: books_def)

interpretation jn: guarded_machine "apply_command_tx ext" command_ok "\<lambda>s. books s \<and> journal_ok ext s" for ext
  by unfold_locales (blast intro: journal_ok_step books_index books_step command_effectD)

section \<open>The clock watermark\<close>

definition watermark :: "catalog \<Rightarrow> int option" where
  "watermark s = t_get (clock s) CLOCK_WATERMARK"

definition not_before :: "int \<Rightarrow> catalog \<Rightarrow> bool" where
  "not_before t s \<longleftrightarrow> (\<exists>m. watermark s = Some m \<and> t \<le> m)"

lemma observe_clock_mark:
  "observe_clock s rel = Inr s' \<Longrightarrow> not_before (timestamp_micros (observed_at rel)) s' \<and> (not_before t s \<longrightarrow> not_before t s')"
  by (auto simp: observe_clock_def Let_def not_before_def watermark_def split: option.splits if_splits)

lemma clock_recover:
  assumes "index_inv s" and r: "recover_multipart_completions_tx ext s = Inr (res, s')"
  shows "clock s' = clock s"
proof -
  have "post (recover_multipart_completions_tx ext s) (\<lambda>(res, s'). index_inv s' \<and> clock s' = clock s)"
    by (rule recover_preserves [OF assms(1), where P = "\<lambda>t. clock t = clock s"])
      (auto simp: remove_effect_def Let_def with_upload_def dest: movedD(3))
  with r show ?thesis by (simp add: post_def)
qed

lemma enforce_deletable_mark: "enforce_deletable s v rel = Inr s' \<Longrightarrow> not_before t s \<Longrightarrow> not_before t s'"
  using observe_clock_mark [of s rel _ t] by (auto simp: enforce_deletable_def Let_def rbind_Inr split: if_splits option.splits)

lemma clock_step:
  assumes inv: "index_inv s" and eff: "command_effect ext s c s'" and t: "not_before t s"
  shows "not_before t s'"
proof -
  have same: "not_before t u" if "clock u = clock s" for u using t that by (simp add: not_before_def watermark_def)
  show ?thesis
  proof (cases c)
    case (DeleteObjectVersion b k v rel)
    with eff consider "s' = s" | r s1 where "enforce_deletable s v rel = Inr s1" "version_effect ext s1 r s'" by auto
    then show ?thesis
    proof cases
      case 2
      from 2(2) have "clock s' = clock s1" by (auto simp: version_effect_def Let_def dest: movedD(3))
      with enforce_deletable_mark [OF 2(1) t] show ?thesis by (simp add: not_before_def watermark_def)
    qed (simp add: t)
  next
    case (PutObjectLock b k v q rel)
    with eff obtain z l where z: "z = clock s \<or> observe_clock s rel = Inr (s\<lparr>clock := z\<rparr>)"
      and s': "s' = write_object_lock (s\<lparr>clock := z\<rparr>) v l" by auto
    have "clock s' = z" by (simp add: s' write_object_lock_def)
    with z show ?thesis using same observe_clock_mark [of s rel "s\<lparr>clock := z\<rparr>" t] t by (auto simp: not_before_def watermark_def)
  next
    case (ObserveClock rel)
    with eff observe_clock_mark t show ?thesis by auto
  next
    case RecoverMultipartCompletions
    with eff clock_recover [OF inv] show ?thesis by (auto intro: same)
  qed (use eff in \<open>auto simp: create_effect_def drop_bucket_effect_def rebucket_def set_bucket_def put_effect_def delete_effect_def
      part_effect_def remove_effect_def Let_def complete_cleanup_tx_def put_lifecycle_rule_tx_def delete_lifecycle_rule_tx_def result_simps
      with_upload_def prune_mutation_events_tx_def
      dest!: create_upload_effect movedD(3) split: if_splits intro!: same\<close>)
qed

interpretation ck: guarded_machine "apply_command_tx ext" command_ok "\<lambda>s. books s \<and> not_before t s" for ext t
  by unfold_locales (blast intro: clock_step books_index books_step command_effectD)

end
