(* ===== verification/Quotas.thy ===== *)
theory Quotas
  imports Runs
begin

text \<open>
  Byte quotas over a run: what the versions and the uploaded parts of a bucket really occupy stays within
  the limit of its quota, whatever the order of writes, deletions and quota changes. The code compares a
  saturating sum with the limit, so a limit of \<open>u64::MAX\<close> bounds nothing and is left out.
\<close>

definition occupied :: "catalog \<Rightarrow> BucketId \<Rightarrow> int" where
  "occupied s i = n_version_bytes s ((=) i) + n_part_bytes s ((=) i)"

definition within_quota :: "catalog \<Rightarrow> bool" where
  "within_quota s \<longleftrightarrow> (\<forall>i b q. read_bucket s i = Some b \<and> quota_bytes (quota b) = BytesLimit q \<and> q \<noteq> - 1 \<longrightarrow> occupied s i \<le> uint q)"

lemma within_quotaD:
  "within_quota s \<Longrightarrow> read_bucket s i = Some b \<Longrightarrow> quota_bytes (quota b) = BytesLimit q \<Longrightarrow> q \<noteq> - 1 \<Longrightarrow> occupied s i \<le> uint q"
  unfolding within_quota_def by blast

lemma bytes_allow_sum:
  assumes "bytes_allow l (saturating_add a b)" and "l = BytesLimit q" and "q \<noteq> - 1"
  shows "uint a + uint b \<le> uint q"
proof (cases "unat a + unat b < 2 ^ 64")
  case True
  then have "int (unat a + unat b) < int (2 ^ 64)" by (simp only: of_nat_less_iff)
  then have "uint a + uint b < 2 ^ 64" by simp
  then have "uint (a + b) = uint a + uint b" by (simp add: uint_word_ariths)
  with True assms show ?thesis by (simp add: saturating_add_def word_le_def)
next
  case False
  with assms have "- 1 \<le> q" by (simp add: saturating_add_def)
  with assms(3) show ?thesis by (simp add: word_order.extremum_unique)
qed

lemma occupied_exact:
  "accounted s \<Longrightarrow> occupied s i = uint (bu_version_bytes (read_bucket_usage s i)) + uint (bu_multipart_bytes (read_bucket_usage s i))"
  by (simp add: occupied_def usage_exact)

lemma occupied_core: "core s = core t \<Longrightarrow> occupied s = occupied t"
  using totals_core [of s t] by (simp add: occupied_def fun_eq_iff)

lemma occupied_shifted: "shifted s c b dv dvb dn dl dp \<Longrightarrow> occupied c i = occupied s i + (if i = b then dvb + dp else 0)"
  by (simp add: shifted_def occupied_def)

lemma quota_frame:
  assumes "within_quota s" and "\<And>i b q. read_bucket s' i = Some b \<Longrightarrow> \<exists>b0. read_bucket s i = Some b0 \<and> quota b0 = quota b"
    and "\<And>i. occupied s' i \<le> occupied s i"
  shows "within_quota s'"
  unfolding within_quota_def
proof (intro allI impI)
  fix i b q assume b: "read_bucket s' i = Some b \<and> quota_bytes (quota b) = BytesLimit q \<and> q \<noteq> - 1"
  then obtain b0 where "read_bucket s i = Some b0" "quota b0 = quota b" using assms(2) by blast
  with b assms(1) have "occupied s i \<le> uint q" unfolding within_quota_def by metis
  with assms(3) [of i] show "occupied s' i \<le> uint q" by linarith
qed

text \<open>A step that checked the usage record it wrote for one bucket and left the other buckets alone.\<close>

lemma quota_checked:
  assumes q: "within_quota s" and acc: "accounted s'" and u: "read_bucket_usage s' i = w"
    and b: "read_bucket s' = read_bucket s" "read_bucket s i = Some b"
    and ok: "bytes_allow (quota_bytes (quota b)) (saturating_add (bu_version_bytes w) (bu_multipart_bytes w))"
    and other: "\<And>j. j \<noteq> i \<Longrightarrow> occupied s' j = occupied s j"
  shows "within_quota s'"
  unfolding within_quota_def b(1)
proof (intro allI impI)
  fix j c l assume c: "read_bucket s j = Some c \<and> quota_bytes (quota c) = BytesLimit l \<and> l \<noteq> - 1"
  show "occupied s' j \<le> uint l"
  proof (cases "j = i")
    case True
    with c b(2) have "quota_bytes (quota b) = BytesLimit l" "l \<noteq> - 1" by auto
    from bytes_allow_sum [OF ok this] have "uint (bu_version_bytes w) + uint (bu_multipart_bytes w) \<le> uint l" .
    with occupied_exact [OF acc] u True show ?thesis by simp
  next
    case False
    with c other within_quotaD [OF q] show ?thesis by simp
  qed
qed

lemma usage_of_moved: "moved ext s c (t_insert (bucket_key b) w (bucket_usage s)) d q s' \<Longrightarrow> read_bucket_usage s' b = w"
  by (simp add: read_bucket_usage_def movedD(2))

lemma buckets_moved:
  assumes "moved ext s c u d q s'" and "buckets c = buckets s"
  shows "read_bucket s' = read_bucket s"
  by (rule read_bucket_cong) (simp add: core_eqD(1) [OF movedD(1) [OF assms(1)]] assms(2))

section \<open>Every command keeps within the quotas\<close>

lemma quota_put:
  assumes inv: "index_inv s" and q: "within_quota s" and acc: "accounted s'" and eff: "put_effect ext s bucket m lock s'"
    and new: "ver s (om_version m) = None"
  shows "within_quota s'"
proof -
  let ?c = "put_core s bucket m lock"
  from eff obtain u d p r where m: "moved ext s ?c (t_insert (bucket_key (om_bucket m)) u (bucket_usage s)) d (payloads r) s'"
    and b: "read_bucket s (om_bucket m) = Some bucket"
    and r: "r = replaced_of s bucket (om_bucket m) (om_key m)" and p: "p = t_get (objects s) (object_key (om_bucket m) (om_key m))"
    and ok: "bytes_allow (quota_bytes (quota bucket)) (saturating_add (bu_version_bytes u) (bu_multipart_bytes u))"
    unfolding put_effect_def Let_def by blast
  have "read_bucket s' = read_bucket s"
    by (rule buckets_moved [OF m]) (simp add: put_core_def Let_def)
  moreover have "occupied s' j = occupied s j" if "j \<noteq> om_bucket m" for j
    using occupied_shifted [OF shift_put [OF inv new r p], of lock j] that occupied_core [OF movedD(1) [OF m]] by simp
  ultimately show ?thesis
    by (intro quota_checked [OF q acc usage_of_moved [OF m] _ b ok])
qed

lemma quota_part:
  assumes inv: "index_inv s" and q: "within_quota s" and acc: "accounted s'" and eff: "part_effect ext s p s'"
  shows "within_quota s'"
proof -
  from eff obtain u x w bucket k y where m: "moved ext s (s\<lparr>parts := t_insert x p (parts s)\<rparr>) (t_insert (bucket_key (up_bucket u)) w (bucket_usage s)) k y s'"
    and u: "t_get (multipart s) (uuid_bytes (part_upload p)) = Some u" and x: "x = part_key (part_upload p) (part_number p)"
    and b: "read_bucket s (up_bucket u) = Some bucket"
    and ok: "bytes_allow (quota_bytes (quota bucket)) (saturating_add (bu_version_bytes w) (bu_multipart_bytes w))"
    by (auto simp: part_effect_def Let_def)
  have "read_bucket s' = read_bucket s" by (rule buckets_moved [OF m]) simp
  moreover have "occupied s' j = occupied s j" if "j \<noteq> up_bucket u" for j
    using occupied_shifted [OF shift_part [OF inv u x], of j] that occupied_core [OF movedD(1) [OF m]] by simp
  ultimately show ?thesis
    by (intro quota_checked [OF q acc usage_of_moved [OF m] _ b ok])
qed

text \<open>Steps that only release bytes.\<close>

lemma quota_release:
  assumes q: "within_quota s" and m: "moved ext s c u d y s'" and c: "buckets c = buckets s"
    and sh: "shifted s c b dv dvb dn dl dp" and neg: "dvb \<le> 0" "dp \<le> 0"
  shows "within_quota s'"
proof (rule quota_frame [OF q])
  show "\<exists>b0. read_bucket s i = Some b0 \<and> quota b0 = quota b" if "read_bucket s' i = Some b" for i b
    using that buckets_moved [OF m c] by simp
  show "occupied s' i \<le> occupied s i" for i
    using occupied_shifted [OF sh, of i] occupied_core [OF movedD(1) [OF m]] neg by (simp split: if_splits)
qed

lemma quota_delete:
  assumes inv: "index_inv s" and q: "within_quota s" and eff: "delete_effect ext s bucket b k nm s'"
    and new: "ver s (nm_version nm) = None"
  shows "within_quota s'"
proof -
  from eff obtain u d y where m: "moved ext s (delete_core s bucket b k nm) u d y s'" unfolding delete_effect_def Let_def by blast
  show ?thesis
    by (rule quota_release [OF q m _ shift_delete [OF inv new refl refl refl]]) (simp_all add: delete_core_def Let_def)
qed

lemma quota_delete_version:
  assumes inv: "index_inv s" and q: "within_quota s" and eff: "version_effect ext s r s'" and r: "ver s (rec_version_id r) = Some r"
  shows "within_quota s'"
proof -
  from eff obtain u d y where m: "moved ext s (version_core s r) u d y s'" unfolding version_effect_def Let_def by blast
  show ?thesis
    by (rule quota_release [OF q m _ shift_version [OF inv r refl refl]]) (simp_all add: version_core_def unhooked_def split: option.split)
qed

lemma quota_remove_upload:
  assumes inv: "index_inv s" and q: "within_quota s" and eff: "remove_effect ext s u res s'"
  shows "within_quota s'"
proof -
  from eff obtain w d y where m: "moved ext s (without_upload s u) w d y s'" and u: "t_get (multipart s) (uuid_bytes (up_id u)) = Some u"
    unfolding remove_effect_def Let_def by blast
  show ?thesis
    by (rule quota_release [OF q m _ shift_remove_upload [OF inv u]]) (simp_all add: without_upload_def)
qed

lemma occupied_same:
  "versions t = versions s \<Longrightarrow> multipart t = multipart s \<Longrightarrow> parts t = parts s \<Longrightarrow> occupied t = occupied s"
  by (simp add: occupied_def fun_eq_iff n_version_bytes_def n_part_bytes_def part_in_def)

lemma quota_same:
  assumes "within_quota s" and "buckets s' = buckets s" and "occupied s' = occupied s"
  shows "within_quota s'"
  using assms read_bucket_cong [OF assms(2)] by (simp add: within_quota_def)

lemma quota_tables:
  assumes "within_quota s" and "buckets s' = buckets s" and "versions s' = versions s" "multipart s' = multipart s" "parts s' = parts s"
  shows "within_quota s'"
  by (rule quota_same [OF assms(1,2) occupied_same [OF assms(3-5)]])

lemma quota_create:
  assumes inv: "index_inv s" and q: "within_quota s" and eff: "create_effect ext s b s'"
  shows "within_quota s'"
proof -
  from eff have no: "read_bucket s (bucket_id b) = None" and c: "core s' = core (set_bucket s b)"
    by (auto simp: create_effect_def dest: movedD(1))
  have o: "occupied s' = occupied s"
    unfolding occupied_core [OF c] by (rule occupied_same) (simp_all add: set_bucket_def)
  have r: "read_bucket s' i = (if i = bucket_id b then Some b else read_bucket s i)" for i
    using core_eqD(1) [OF c] by (simp add: read_bucket_def set_bucket_def bucket_key_def)
  have "occupied s (bucket_id b) = 0" by (simp add: occupied_def totals_of_missing [OF inv no])
  then show ?thesis unfolding within_quota_def o r by (auto dest: within_quotaD [OF q])
qed

lemma quota_drop:
  assumes q: "within_quota s" and eff: "drop_bucket_effect ext s name b s'"
  shows "within_quota s'"
proof -
  from eff have c: "core s' = core (without_bucket s b)" by (auto simp: drop_bucket_effect_def dest: movedD(1))
  have o: "occupied s' = occupied s"
    unfolding occupied_core [OF c] by (rule occupied_same) (simp_all add: without_bucket_def)
  have "read_bucket s i = Some c" if "read_bucket s' i = Some c" for i c
    using that core_eqD(1) [OF c] by (auto simp: read_bucket_def without_bucket_def split: if_splits)
  then show ?thesis by (intro quota_frame [OF q]) (auto simp: o)
qed

lemma quota_rebucket:
  assumes inv: "index_inv s" and acc: "accounted s" and q: "within_quota s" and eff: "rebucket s i f s'"
    and f: "\<And>b b'. f b = Inr b' \<Longrightarrow> quota b' = quota b \<or> quota_fits s i (quota b')"
  shows "within_quota s'"
proof -
  from eff obtain b b' where b: "read_bucket s i = Some b" "f b = Inr b'" "bucket_update_ok b b'" and s': "s' = set_bucket s b'"
    by (auto simp: rebucket_def)
  have id: "bucket_id b' = i" using bucketD(1) [OF inv b(1)] b(3) by (simp add: bucket_update_ok_def)
  have o: "occupied s' = occupied s" by (rule occupied_same) (simp_all add: s' set_bucket_def)
  have r: "read_bucket s' j = (if j = i then Some b' else read_bucket s j)" for j
    by (simp add: s' read_bucket_def set_bucket_def id bucket_key_def)
  have "occupied s i \<le> uint l" if l: "quota_bytes (quota b') = BytesLimit l" "l \<noteq> - 1" for l
  proof (cases "quota b' = quota b")
    case True
    with l b(1) within_quotaD [OF q] show ?thesis by simp
  next
    case False
    with f [OF b(2)] have "bytes_allow (quota_bytes (quota b')) (saturating_add (bu_version_bytes (read_bucket_usage s i))
        (bu_multipart_bytes (read_bucket_usage s i)))" by (simp add: quota_fits_def Let_def)
    from bytes_allow_sum [OF this l] show ?thesis by (simp add: occupied_exact [OF acc])
  qed
  then show ?thesis unfolding within_quota_def o r by (auto dest: within_quotaD [OF q])
qed

lemma quota_updates:
  "set_bucket_versioning st b = Inr b' \<Longrightarrow> quota b' = quota b" "set_bucket_object_lock conf b = Inr b' \<Longrightarrow> quota b' = quota b"
  by (auto simp: set_bucket_versioning_def set_bucket_object_lock_def split: if_splits)

lemma quota_with_upload:
  assumes inv: "index_inv s" and q: "within_quota s"
    and old: "\<And>u'. t_get (multipart s) (uuid_bytes (up_id u)) = Some u' \<Longrightarrow> up_bucket u' = up_bucket u"
  shows "within_quota (with_upload s u)"
  by (rule quota_same [OF q]) (simp_all add: with_upload_def [of s u] occupied_def fun_eq_iff n_version_bytes_def
      part_bytes_with_upload [OF inv old, unfolded with_upload_def])

lemma quota_recover:
  assumes inv: "index_inv s" and q: "within_quota s" and r: "recover_multipart_completions_tx ext s = Inr (res, s')"
  shows "within_quota s'"
proof -
  have "post (recover_multipart_completions_tx ext s) (\<lambda>(res, s'). index_inv s' \<and> within_quota s')"
    by (rule recover_preserves [where P = within_quota, OF inv q]) (auto intro: quota_remove_upload quota_with_upload)
  with r show ?thesis by (simp add: post_def)
qed

lemma quota_step:
  assumes inv: "index_inv s" and acc: "accounted s" "accounted s'" and q: "within_quota s" and ok: "command_ok s c"
    and eff: "command_effect ext s c s'"
  shows "within_quota s'"
proof (cases c)
  case (DeleteObjectVersion b k v rel)
  with eff consider "s' = s" | r s1 where "ver s v = Some r" "enforce_deletable s v rel = Inr s1" "version_effect ext s1 r s'" by auto
  then show ?thesis
  proof cases
    case 2
    from enforce_deletable_state [OF 2(2)] obtain z where z: "s1 = s\<lparr>clock := z\<rparr>" by blast
    have q1: "within_quota s1" by (rule quota_tables [OF q]) (simp_all add: z)
    have i1: "index_inv s1" using index_inv_cong [of s1 s] inv by (simp add: z)
    have "ver s1 (rec_version_id r) = Some r" using version_keyedD [OF inv 2(1)] 2(1) by (simp add: z)
    then show ?thesis by (rule quota_delete_version [OF i1 q1 2(3)])
  qed (simp add: q)
next
  case (PutObjectLock b k v requested rel)
  with eff obtain z l where s': "s' = write_object_lock (s\<lparr>clock := z\<rparr>) v l" by fastforce
  show ?thesis by (rule quota_tables [OF q]) (simp_all add: s')
next
  case (BeginMultipartCompletion i x)
  with eff obtain u where u: "t_get (multipart s) (uuid_bytes i) = Some u" "s' = with_upload s (u\<lparr>up_state := Completing x\<rparr>)" by auto
  from uploadD [OF inv u(1)] have "up_id u = i" by simp
  with u show ?thesis by (auto intro!: quota_with_upload [OF inv q])
next
  case (CreateMultipartUpload u)
  with eff have "t_get (multipart s) (uuid_bytes (up_id u)) = None" "s' = with_upload s u" by (auto dest: create_upload_effect)
  then show ?thesis by (auto intro!: quota_with_upload [OF inv q])
next
  case (ObserveClock rel)
  with eff obtain z where "s' = s\<lparr>clock := z\<rparr>" by (auto dest: observe_clock_state)
  then show ?thesis by (intro quota_tables [OF q]) simp_all
next
  case (PutLifecycleRule r)
  with eff index_put_rule [OF inv] obtain rs where "s' = s\<lparr>lifecycle_rules := rs\<rparr>" by auto
  then show ?thesis by (intro quota_tables [OF q]) simp_all
next
  case (DeleteLifecycleRule r)
  with eff index_delete_rule [OF inv] obtain rs where "s' = s\<lparr>lifecycle_rules := rs\<rparr>" by auto
  then show ?thesis by (intro quota_tables [OF q]) simp_all
next
  case (CompleteCleanup x)
  with eff show ?thesis by (intro quota_tables [OF q]) (simp_all add: complete_cleanup_tx_def)
next
  case (PruneMutationEvents n)
  with eff show ?thesis by (intro quota_tables [OF q]) (simp_all add: prune_mutation_events_tx_def Let_def)
qed (use eff ok in \<open>auto intro: quota_create [OF inv q] quota_drop [OF q] quota_put [OF inv q acc(2)] quota_delete [OF inv q]
      quota_part [OF inv q acc(2)] quota_remove_upload [OF inv q] quota_recover [OF inv q]
      quota_rebucket [OF inv acc(1) q] dest: quota_updates\<close>)

interpretation qt: guarded_machine "apply_command_tx ext" command_ok "\<lambda>s. books s \<and> within_quota s" for ext
proof
  fix s c x s' assume "books s \<and> within_quota s" "command_ok s c" "apply_command_tx ext s c = Inr (x, s')"
  then have b: "books s" "books s'" and q: "within_quota s" and eff: "command_effect ext s c s'" and ok: "command_ok s c"
    using books_step command_effectD by blast+
  then show "books s' \<and> within_quota s'" using quota_step [OF _ _ _ q ok eff] by (simp add: books_def)
qed

end
