(* ===== verification/Samples.thy ===== *)
theory Samples
  imports Runs
begin

text \<open>A small concrete history, on which the theorems about runs are applied.\<close>

definition sample_ext :: externs where
  "sample_ext = \<lparr>new_v5 = (\<lambda>n m. n + of_nat (length m)), uuid_display = uuid_bytes\<rparr>"

definition sample_bucket :: Bucket where
  "sample_bucket = \<lparr>bucket_id = 7, organization_id = 1, bucket_name = lit ''records'', bucket_created_at = 1000,
     versioning = Enabled, quota = \<lparr>quota_bytes = BytesLimit 100, quota_objects = ObjectsUnlimited\<rparr>, storage_class = None,
     durability_policy = None, object_lock = Some \<lparr>default_retention = None\<rparr>, cors = None\<rparr>"

definition sample_object :: "VersionId \<Rightarrow> datetime \<Rightarrow> ObjectMetadata" where
  "sample_object v at = \<lparr>om_id = v + 100, om_bucket = 7, om_key = lit ''a/b'', om_version = v, om_size = 40,
     om_checksum = \<lparr>algorithm = Sha256, digest = []\<rparr>, om_payload_format = Plaintext, om_durability = Single,
     om_etag = lit ''e'', om_content_type = None, om_custom_metadata = t_empty, om_created_at = at, om_modified_at = at\<rparr>"

definition sample_lock :: ObjectLockState where
  "sample_lock = \<lparr>lock_retention = Some \<lparr>ret_mode = Compliance, retain_until = 9000000\<rparr>, legal_hold = False\<rparr>"

definition sample_release :: "datetime \<Rightarrow> LockRelease" where
  "sample_release at = lock_release_new at 0"

definition sample_run :: "MetadataCommand list" where
  "sample_run = [CreateBucket sample_bucket, PutObject (sample_object 1 2000) (Some sample_lock) Direct,
     PutObject (sample_object 2 3000) None Direct]"

lemma sample_admissible: "admissible sample_run"
  by (simp add: admissible_def sample_run_def sample_object_def sample_bucket_def object_key_new_def validate_object_key_def
      KEY_MAX_LENGTH_def lit_def starts_with_def)

lemmas run_eval = create_bucket_tx_def journal_event_def adjust_counter_def read_counter_def rbind_def ok_or_def checked_add_def
  checked_sub_def write_bucket_usage_def read_bucket_usage_def read_bucket_def Let_def no_outcome_def outcome_def ensure_def map_err_def
  lock_configuration_validate_def put_object_tx_def opt_size_def events_of_def insert_version_def drop_replaced_def
  remove_current_def write_object_lock_def take_null_def set_null_def saturating_add_def default_usage_def is_unlocked_def read_object_lock_def attempt_def empty_catalog_def

lemmas samples = sample_run_def sample_bucket_def sample_object_def sample_lock_def sample_release_def lock_release_new_def

lemma sample_versions:
  "ver (after sample_ext sample_run) 1 = Some (ObjectRecord (sample_object 1 2000) False)"
  "read_object_lock (after sample_ext sample_run) 1 = sample_lock"
  by (simp_all add: run_eval samples)

end
