(* ===== verification/Writer.thy ===== *)
theory Writer
  imports Samples
begin

text \<open>
  The writer thread of the repository (\<open>redb_store.rs\<close>): commands queue up, the writer takes up to
  \<open>MAXIMUM_BATCH\<close> of them, commits them in one transaction, and falls back to one transaction per command
  when any of them fails. The database engine is a parameter: \<open>faults n\<close> says whether the beginning or the
  commit of the n-th transaction fails and with which message. A transaction that does not commit leaves the
  catalog as it was, which is what the engine documents.
\<close>

section \<open>Committing\<close>

type_synonym reply = "(MetadataError, MetadataOutcome) result"
type_synonym faults = "nat \<Rightarrow> str option \<times> str option"

record database =
  db_catalog :: catalog
  db_transactions :: nat

definition MAXIMUM_BATCH :: nat where "MAXIMUM_BATCH = 128"

text \<open>One transaction around \<open>body\<close>: begin, run, commit.\<close>

definition transaction ::
  "faults \<Rightarrow> str \<Rightarrow> str \<Rightarrow> (catalog \<Rightarrow> (MetadataError, 'a \<times> catalog) result) \<Rightarrow> database \<Rightarrow> (MetadataError, 'a) result \<times> database" where
  "transaction faults beginning committing body db =
     (let db' = db\<lparr>db_transactions := db_transactions db + 1\<rparr>
      in case fst (faults (db_transactions db)) of
           Some e \<Rightarrow> (Inl (Database beginning e), db')
         | None \<Rightarrow>
             case body (db_catalog db) of
               Inl e \<Rightarrow> (Inl e, db')
             | Inr (x, s) \<Rightarrow>
                 case snd (faults (db_transactions db)) of
                   Some e \<Rightarrow> (Inl (Database committing e), db')
                 | None \<Rightarrow> (Inr x, db'\<lparr>db_catalog := s\<rparr>))"

definition commit_one :: "externs \<Rightarrow> faults \<Rightarrow> database \<Rightarrow> MetadataCommand \<Rightarrow> reply \<times> database" where
  "commit_one ext faults db command =
     transaction faults (lit ''begin metadata command'') (lit ''commit metadata command'')
       (\<lambda>s. apply_command_tx ext s command) db"

fun apply_batch :: "externs \<Rightarrow> catalog \<Rightarrow> MetadataCommand list \<Rightarrow> (MetadataError, MetadataOutcome list \<times> catalog) result" where
  "apply_batch ext s [] = Inr ([], s)"
| "apply_batch ext s (c # cs) =
     rbind (apply_command_tx ext s c) (\<lambda>(out, s).
     rbind (apply_batch ext s cs) (\<lambda>(outs, s). Inr (out # outs, s)))"

fun commit_each :: "externs \<Rightarrow> faults \<Rightarrow> database \<Rightarrow> MetadataCommand list \<Rightarrow> reply list \<times> database" where
  "commit_each ext faults db [] = ([], db)"
| "commit_each ext faults db (c # cs) =
     (let (r, db) = commit_one ext faults db c; (rs, db) = commit_each ext faults db cs in (r # rs, db))"

definition commit_batch ::
  "externs \<Rightarrow> faults \<Rightarrow> database \<Rightarrow> u64 \<Rightarrow> MetadataCommand list \<Rightarrow> reply list \<times> database \<times> u64" where
  "commit_batch ext faults db commits batch =
     (if length batch = 1 then
        let (rs, db) = commit_each ext faults db batch in (rs, db, commits + 1)
      else
        let (together, db) =
          transaction faults (lit ''begin metadata batch'') (lit ''commit metadata batch'') (\<lambda>s. apply_batch ext s batch) db
        in case together of
             Inr outcomes \<Rightarrow> (map Inr outcomes, db, commits + 1)
           | Inl e \<Rightarrow>
               let (rs, db) = commit_each ext faults db batch in (rs, db, commits + of_nat (length batch)))"

section \<open>The queue and the writer\<close>

text \<open>\<open>wr_answers\<close> records every answered command with its reply, in the order the replies are sent.\<close>

record writer =
  wr_db :: database
  wr_queue :: "MetadataCommand list"
  wr_commits :: u64
  wr_answers :: "(MetadataCommand \<times> reply) list"

definition commit_step :: "externs \<Rightarrow> faults \<Rightarrow> nat \<Rightarrow> writer \<Rightarrow> writer" where
  "commit_step ext faults n w =
     (let batch = take n (wr_queue w);
          (rs, db, commits) = commit_batch ext faults (wr_db w) (wr_commits w) batch
      in w\<lparr>wr_db := db, wr_queue := drop n (wr_queue w), wr_commits := commits, wr_answers := wr_answers w @ zip batch rs\<rparr>)"

text \<open>
  A sender appends to the queue. The writer takes what has arrived, at least one command and at most
  \<open>MAXIMUM_BATCH\<close>; how many depends on timing, so any such number is a step.
\<close>

inductive writer_step :: "externs \<Rightarrow> faults \<Rightarrow> writer \<Rightarrow> writer \<Rightarrow> bool" for ext faults where
  submit: "writer_step ext faults w (w\<lparr>wr_queue := wr_queue w @ [c]\<rparr>)"
| commit: "0 < n \<Longrightarrow> n \<le> length (wr_queue w) \<Longrightarrow> n \<le> MAXIMUM_BATCH \<Longrightarrow> writer_step ext faults w (commit_step ext faults n w)"

inductive_cases writer_stepE: "writer_step ext faults w w'"

inductive reachable :: "externs \<Rightarrow> faults \<Rightarrow> writer \<Rightarrow> writer \<Rightarrow> bool" for ext faults w where
  start: "reachable ext faults w w"
| more: "reachable ext faults w w' \<Longrightarrow> writer_step ext faults w' w'' \<Longrightarrow> reachable ext faults w w''"

text \<open>A history of the writer together with the commands the senders submitted in it, in the order they arrived.\<close>

inductive history :: "externs \<Rightarrow> faults \<Rightarrow> writer \<Rightarrow> MetadataCommand list \<Rightarrow> writer \<Rightarrow> bool" for ext faults w where
  begun: "history ext faults w [] w"
| arrived: "history ext faults w cs w' \<Longrightarrow> history ext faults w (cs @ [c]) (w'\<lparr>wr_queue := wr_queue w' @ [c]\<rparr>)"
| committed: "history ext faults w cs w' \<Longrightarrow> 0 < n \<Longrightarrow> n \<le> length (wr_queue w') \<Longrightarrow> n \<le> MAXIMUM_BATCH
    \<Longrightarrow> history ext faults w cs (commit_step ext faults n w')"

definition writer_open :: "catalog \<Rightarrow> writer" where
  "writer_open s = \<lparr>wr_db = \<lparr>db_catalog = s, db_transactions = 0\<rparr>, wr_queue = [], wr_commits = 0, wr_answers = []\<rparr>"

text \<open>Once every sender is gone the loop of the thread empties the queue and ends.\<close>

function drain :: "externs \<Rightarrow> faults \<Rightarrow> writer \<Rightarrow> writer" where
  "drain ext faults w = (if wr_queue w = [] then w else drain ext faults (commit_step ext faults MAXIMUM_BATCH w))"
  by auto

lemma queue_commit_step [simp]: "wr_queue (commit_step ext faults n w) = drop n (wr_queue w)"
  by (simp add: commit_step_def Let_def split: prod.split)

termination drain
proof (relation "measure (\<lambda>(ext, faults, w). length (wr_queue w))")
  fix ext faults and w :: writer assume "wr_queue w \<noteq> []"
  then show "((ext, faults, commit_step ext faults MAXIMUM_BATCH w), ext, faults, w) \<in> measure (\<lambda>(ext, faults, w). length (wr_queue w))"
    by (cases "wr_queue w") (simp_all add: MAXIMUM_BATCH_def)
qed simp

declare drain.simps [simp del]

section \<open>The sequential specification\<close>

text \<open>One command after another on the catalog: a refused command changes nothing.\<close>

fun serve :: "externs \<Rightarrow> catalog \<Rightarrow> MetadataCommand list \<Rightarrow> reply list \<times> catalog" where
  "serve ext s [] = ([], s)"
| "serve ext s (c # cs) =
     (case apply_command_tx ext s c of
        Inl e \<Rightarrow> (let (rs, s') = serve ext s cs in (Inl e # rs, s'))
      | Inr (out, s1) \<Rightarrow> (let (rs, s') = serve ext s1 cs in (Inr out # rs, s')))"

text \<open>Replaying the acknowledged commands of a history, which must give the outcomes that were reported.\<close>

fun replay :: "externs \<Rightarrow> catalog \<Rightarrow> (MetadataCommand \<times> reply) list \<Rightarrow> catalog option" where
  "replay ext s [] = Some s"
| "replay ext s ((c, Inl e) # h) = replay ext s h"
| "replay ext s ((c, Inr out) # h) =
     (case apply_command_tx ext s c of
        Inl e \<Rightarrow> None
      | Inr (out', s') \<Rightarrow> if out' = out then replay ext s' h else None)"

lemma replay_append: "replay ext s (h @ h') = Option.bind (replay ext s h) (\<lambda>s. replay ext s h')"
  by (induction ext s h rule: replay.induct) (auto split: sum.splits)

lemma serve_append:
  "serve ext s (cs @ ds) = (let (rs, s1) = serve ext s cs; (rs', s2) = serve ext s1 ds in (rs @ rs', s2))"
  by (induction cs arbitrary: s) (auto split: sum.splits prod.splits)

lemma serve_run: "snd (serve ext s cs) = run (apply_command_tx ext) s cs"
  by (induction cs arbitrary: s) (auto simp: attempt_def split_beta Let_def split: sum.splits)

lemma length_serve: "length (fst (serve ext s cs)) = length cs"
  by (induction cs arbitrary: s) (auto simp: split_beta Let_def split: sum.splits)

section \<open>Batches\<close>

lemma transaction_Inr:
  "transaction faults b k body db = (Inr x, db') \<Longrightarrow> \<exists>s. body (db_catalog db) = Inr (x, s) \<and> db_catalog db' = s"
  by (auto simp: transaction_def Let_def split: option.splits sum.splits prod.splits)

lemma transaction_Inl: "transaction faults b k body db = (Inl e, db') \<Longrightarrow> db_catalog db' = db_catalog db"
  by (auto simp: transaction_def Let_def split: option.splits sum.splits prod.splits)

lemma replay_commit_one:
  "commit_one ext faults db c = (r, db') \<Longrightarrow> replay ext (db_catalog db) [(c, r)] = Some (db_catalog db')"
  by (cases r) (auto simp: commit_one_def dest: transaction_Inr transaction_Inl)

lemma replay_commit_each:
  "commit_each ext faults db cs = (rs, db') \<Longrightarrow> length rs = length cs \<and> replay ext (db_catalog db) (zip cs rs) = Some (db_catalog db')"
proof (induction cs arbitrary: db rs)
  case (Cons c cs)
  from Cons.prems obtain r db1 rs1 where one: "commit_one ext faults db c = (r, db1)"
    and rest: "commit_each ext faults db1 cs = (rs1, db')" and rs: "rs = r # rs1"
    by (auto split: prod.splits)
  show ?case
    using replay_append [of ext "db_catalog db" "[(c, r)]" "zip cs rs1"] replay_commit_one [OF one] Cons.IH [OF rest] by (simp add: rs)
qed simp

lemma replay_apply_batch:
  "apply_batch ext s cs = Inr (outs, s') \<Longrightarrow> length outs = length cs \<and> replay ext s (zip cs (map Inr outs)) = Some s'
     \<and> serve ext s cs = (map Inr outs, s')"
  by (induction cs arbitrary: s outs) (auto simp: result_simps)

lemma replay_commit_batch:
  assumes "commit_batch ext faults db n cs = (rs, db', n')"
  shows "length rs = length cs \<and> replay ext (db_catalog db) (zip cs rs) = Some (db_catalog db')"
proof (cases "length cs = 1")
  case True
  with assms show ?thesis by (auto simp: commit_batch_def split: prod.splits dest: replay_commit_each)
next
  case False
  obtain together db1 where t: "transaction faults (lit ''begin metadata batch'') (lit ''commit metadata batch'')
      (\<lambda>s. apply_batch ext s cs) db = (together, db1)" by fastforce
  show ?thesis
  proof (cases together)
    case (Inl e)
    with assms False t transaction_Inl [OF t [unfolded Inl]] show ?thesis
      by (auto simp: commit_batch_def split: prod.splits dest: replay_commit_each)
  next
    case (Inr outs)
    from transaction_Inr [OF t [unfolded Inr]] assms False t Inr show ?thesis
      by (auto simp: commit_batch_def dest: replay_apply_batch)
  qed
qed

abbreviation no_faults :: faults where
  "no_faults \<equiv> \<lambda>n. (None, None)"

lemma transaction_no_faults:
  "transaction no_faults b k body db = (case body (db_catalog db) of
     Inl e \<Rightarrow> (Inl e, db\<lparr>db_transactions := db_transactions db + 1\<rparr>)
   | Inr (x, s) \<Rightarrow> (Inr x, db\<lparr>db_transactions := db_transactions db + 1, db_catalog := s\<rparr>))"
  by (simp add: transaction_def Let_def split: sum.split)

lemma commit_each_serve:
  "commit_each ext no_faults db cs = (rs, db') \<Longrightarrow> serve ext (db_catalog db) cs = (rs, db_catalog db')"
proof (induction cs arbitrary: db rs)
  case (Cons c cs)
  from Cons.prems obtain r db1 rs1 where one: "commit_one ext no_faults db c = (r, db1)"
    and rest: "commit_each ext no_faults db1 cs = (rs1, db')" and rs: "rs = r # rs1"
    by (auto split: prod.splits)
  from Cons.IH [OF rest] one show ?case
    by (auto simp: rs commit_one_def transaction_no_faults split: sum.splits prod.splits)
qed simp

lemma commit_batch_serve:
  assumes "commit_batch ext no_faults db n cs = (rs, db', n')"
  shows "serve ext (db_catalog db) cs = (rs, db_catalog db')"
proof (cases "length cs = 1")
  case True
  with assms show ?thesis by (auto simp: commit_batch_def split: prod.splits dest: commit_each_serve)
next
  case False
  show ?thesis
  proof (cases "apply_batch ext (db_catalog db) cs")
    case (Inl e)
    with assms False show ?thesis
      by (auto simp: commit_batch_def transaction_no_faults split: prod.splits dest: commit_each_serve)
  next
    case (Inr p)
    then show ?thesis
      using assms False by (cases p) (auto simp: commit_batch_def transaction_no_faults dest: replay_apply_batch)
  qed
qed

section \<open>The writer refines the sequential specification\<close>

text \<open>
  What links the writer to a history: the answered commands were answered one reply each and, with the queue,
  are the commands submitted so far, in order; replaying the acknowledged ones gives the catalog.
\<close>

definition replays :: "externs \<Rightarrow> catalog \<Rightarrow> writer \<Rightarrow> bool" where
  "replays ext s w \<longleftrightarrow> replay ext s (wr_answers w) = Some (db_catalog (wr_db w))"

definition serves :: "externs \<Rightarrow> catalog \<Rightarrow> writer \<Rightarrow> bool" where
  "serves ext s w \<longleftrightarrow> serve ext s (map fst (wr_answers w)) = (map snd (wr_answers w), db_catalog (wr_db w))"

lemma commit_step_replays:
  assumes "replays ext s w"
  shows "replays ext s (commit_step ext faults n w)"
proof -
  obtain rs db k where c: "commit_batch ext faults (wr_db w) (wr_commits w) (take n (wr_queue w)) = (rs, db, k)"
    by (cases "commit_batch ext faults (wr_db w) (wr_commits w) (take n (wr_queue w))") auto
  from replay_commit_batch [OF this] assms show ?thesis
    by (simp add: replays_def commit_step_def c replay_append)
qed

lemma commit_step_answers:
  "map fst (wr_answers (commit_step ext faults n w)) = map fst (wr_answers w) @ take n (wr_queue w)"
proof -
  obtain rs db k where c: "commit_batch ext faults (wr_db w) (wr_commits w) (take n (wr_queue w)) = (rs, db, k)"
    by (cases "commit_batch ext faults (wr_db w) (wr_commits w) (take n (wr_queue w))") auto
  from replay_commit_batch [OF this] show ?thesis by (simp add: commit_step_def c)
qed

lemma commit_step_serves:
  assumes "serves ext s w"
  shows "serves ext s (commit_step ext no_faults n w)"
proof -
  obtain rs db k where c: "commit_batch ext no_faults (wr_db w) (wr_commits w) (take n (wr_queue w)) = (rs, db, k)"
    by (cases "commit_batch ext no_faults (wr_db w) (wr_commits w) (take n (wr_queue w))") auto
  from commit_batch_serve [OF this] replay_commit_batch [OF this] assms show ?thesis
    by (simp add: serves_def commit_step_def c serve_append)
qed

lemma reachable_replays: "reachable ext faults w w' \<Longrightarrow> replays ext s w \<Longrightarrow> replays ext s w'"
  by (induction rule: reachable.induct) (auto elim!: writer_stepE simp: commit_step_replays, simp add: replays_def)

lemma reachable_serves: "reachable ext no_faults w w' \<Longrightarrow> serves ext s w \<Longrightarrow> serves ext s w'"
  by (induction rule: reachable.induct) (auto elim!: writer_stepE simp: commit_step_serves, simp add: serves_def)

lemma history_reachable: "history ext faults w cs w' \<Longrightarrow> reachable ext faults w w'"
  by (induction rule: history.induct) (blast intro: reachable.intros writer_step.intros)+

text \<open>Answers follow arrivals: what was answered and what still waits is what arrived, in that order.\<close>

lemma history_in_order:
  "history ext faults w cs w' \<Longrightarrow> map fst (wr_answers w') @ wr_queue w' = map fst (wr_answers w) @ wr_queue w @ cs"
  by (induction rule: history.induct) (simp_all add: commit_step_answers flip: append_assoc, simp)

text \<open>Two commands queue up, the second of them refused, and are committed together.\<close>

definition sample_writer :: "faults \<Rightarrow> writer" where
  "sample_writer faults = commit_step sample_ext faults 2
     (writer_open empty_catalog\<lparr>wr_queue := [CreateBucket sample_bucket, CreateBucket sample_bucket]\<rparr>)"

lemma sample_history: "history sample_ext faults (writer_open empty_catalog)
    [CreateBucket sample_bucket, CreateBucket sample_bucket] (sample_writer faults)"
proof -
  let ?w = "writer_open empty_catalog"
  have "history sample_ext faults ?w [CreateBucket sample_bucket] (?w\<lparr>wr_queue := [CreateBucket sample_bucket]\<rparr>)"
    using history.arrived [OF history.begun, of sample_ext faults ?w "CreateBucket sample_bucket"]
    by (simp add: writer_open_def)
  from history.arrived [OF this, of "CreateBucket sample_bucket"]
  have "history sample_ext faults ?w [CreateBucket sample_bucket, CreateBucket sample_bucket]
      (?w\<lparr>wr_queue := [CreateBucket sample_bucket, CreateBucket sample_bucket]\<rparr>)"
    by simp
  then show ?thesis
    unfolding sample_writer_def by (rule history.committed) (simp_all add: MAXIMUM_BATCH_def)
qed

lemma sample_reachable: "reachable sample_ext faults (writer_open empty_catalog) (sample_writer faults)"
  by (rule history_reachable [OF sample_history])

text \<open>
  C10. Group commit keeps the order of arrival, and without faults of the engine it is invisible. Whatever the
  batches and the faults, the answered commands and the waiting ones together are the commands in the order they
  arrived. When no transaction fails to begin or to commit, the replies sent so far and the catalog are those of
  serving that prefix of the arrivals one by one.
\<close>

theorem group_commit_is_sequential:
  assumes "history ext faults (writer_open s) arrivals w"
  shows "map fst (wr_answers w) @ wr_queue w = arrivals
    \<and> (faults = no_faults \<longrightarrow>
         serve ext s (take (length (wr_answers w)) arrivals) = (map snd (wr_answers w), db_catalog (wr_db w)))"
proof -
  have order: "map fst (wr_answers w) @ wr_queue w = arrivals"
    using history_in_order [OF assms] by (simp add: writer_open_def)
  then have "take (length (wr_answers w)) arrivals = map fst (wr_answers w)" by auto
  with order reachable_serves [of ext "writer_open s" w s] history_reachable [OF assms] show ?thesis
    by (auto simp: serves_def writer_open_def)
qed

theorem group_commit_is_sequential_witness:
  "serve sample_ext empty_catalog [CreateBucket sample_bucket, CreateBucket sample_bucket]
     = (map snd (wr_answers (sample_writer no_faults)), db_catalog (wr_db (sample_writer no_faults)))
   \<and> map fst (wr_answers (sample_writer no_faults)) = [CreateBucket sample_bucket, CreateBucket sample_bucket]"
proof -
  have a: "map fst (wr_answers (sample_writer no_faults)) = [CreateBucket sample_bucket, CreateBucket sample_bucket]"
    by (simp add: sample_writer_def commit_step_answers writer_open_def)
  then have "length (wr_answers (sample_writer no_faults)) = 2" using arg_cong [of _ _ length] by fastforce
  with a group_commit_is_sequential [OF sample_history, of no_faults] show ?thesis by simp
qed

text \<open>
  C9. Acknowledged is durable, refused is absent. Whatever transactions the engine fails to begin or to
  commit, the catalog is the replay of exactly the commands answered with success, in the order of their
  replies and with the outcomes that were reported; a command answered with an error left no trace.
\<close>

theorem acknowledged_is_durable:
  assumes "reachable ext faults (writer_open s) w"
  shows "replay ext s (wr_answers w) = Some (db_catalog (wr_db w))"
  using reachable_replays [OF assms, of s] by (simp add: replays_def writer_open_def)

theorem acknowledged_is_durable_witness:
  "replay sample_ext empty_catalog (wr_answers (sample_writer (\<lambda>n. (if n = 0 then Some [] else None, None))))
     = Some (db_catalog (wr_db (sample_writer (\<lambda>n. (if n = 0 then Some [] else None, None)))))"
  by (rule acknowledged_is_durable [OF sample_reachable])

text \<open>
  C11. Every queued command is answered, once and in order: when the senders are gone the writer empties the
  queue and ends, however the engine behaves.
\<close>

theorem drain_answers_all:
  "map fst (wr_answers (drain ext faults w)) = map fst (wr_answers w) @ wr_queue w \<and> wr_queue (drain ext faults w) = []"
proof (induction ext faults w rule: drain.induct)
  case (1 ext faults w)
  then show ?case
    by (subst (1 2) drain.simps) (simp add: commit_step_answers)
qed

end
