(* ===== verification/Bytes.thy ===== *)
theory Bytes
  imports Prelude
begin

text \<open>Reading numbers back from their big-endian bytes, and taking a concatenation of encodings apart.\<close>

fun be_value :: "bytes \<Rightarrow> nat" where
  "be_value [] = 0"
| "be_value (b # bs) = unat b * 256 ^ length bs + be_value bs"

lemma be_value_append: "be_value (xs @ ys) = be_value xs * 256 ^ length ys + be_value ys"
  by (induction xs) (simp_all add: power_add algebra_simps)

lemma be_value_bytes: "n < 256 ^ w \<Longrightarrow> be_value (be_bytes w n) = n"
proof (induction w arbitrary: n)
  case (Suc w)
  have "n div 256 < 256 ^ w" using Suc.prems by (simp add: less_mult_imp_div_less mult.commute)
  with Suc.IH [of "n div 256"] show ?case
    by (simp add: be_value_append unsigned_of_nat take_bit_eq_mod)
qed simp

text \<open>Equal concatenations of pieces that start with the same number of bytes agree piece by piece.\<close>

lemma append_be_bytes_inject:
  "a < 256 ^ w \<Longrightarrow> b < 256 ^ w \<Longrightarrow> be_bytes w a @ x = be_bytes w b @ y \<longleftrightarrow> a = b \<and> x = y"
  by (simp add: append_prefix_inject be_bytes_inject)

end
