(* ===== verification/Repository.thy ===== *)
theory Repository
  imports Samples Bytes
begin

text \<open>
  The repository the service talks to (\<^verbatim>\<open>crates/record-store-metadata/src/redb_store.rs\<close>): the calls that issue
  a command and unpack its outcome, and the reads and bounded listings, each over one read transaction,
  which is the catalog at one moment.

  A \<open>usize\<close> is a 64-bit word, so a listing's limit plus one wraps at the greatest limit. A scan over an
  inverted range is empty. The decoding of a stored value is the identity.
\<close>

section \<open>Outcomes\<close>

definition unexpected :: "str \<Rightarrow> MetadataError" where
  "unexpected expected =
     Database (lit ''decode command outcome'') (lit ''expected a '' @ expected @ lit '' outcome'')"

definition into_bucket :: "MetadataOutcome \<Rightarrow> (MetadataError, Bucket) result" where
  "into_bucket out = (case out of BucketOutcome b \<Rightarrow> Inr b | _ \<Rightarrow> Inl (unexpected (lit ''bucket'')))"

definition into_object_commit :: "MetadataOutcome \<Rightarrow> (MetadataError, ObjectCommitResult) result" where
  "into_object_commit out =
     (case out of ObjectCommitOutcome r \<Rightarrow> Inr r | _ \<Rightarrow> Inl (unexpected (lit ''object commit'')))"

definition into_delete_object :: "MetadataOutcome \<Rightarrow> (MetadataError, DeleteObjectResult) result" where
  "into_delete_object out =
     (case out of DeleteObjectOutcome r \<Rightarrow> Inr r | _ \<Rightarrow> Inl (unexpected (lit ''object delete'')))"

definition into_delete_version :: "MetadataOutcome \<Rightarrow> (MetadataError, DeleteVersionResult option) result" where
  "into_delete_version out =
     (case out of DeleteVersionOutcome r \<Rightarrow> Inr r | _ \<Rightarrow> Inl (unexpected (lit ''version delete'')))"

definition into_object_lock :: "MetadataOutcome \<Rightarrow> (MetadataError, ObjectLockState) result" where
  "into_object_lock out =
     (case out of ObjectLockOutcome l \<Rightarrow> Inr l | _ \<Rightarrow> Inl (unexpected (lit ''object lock'')))"

definition into_multipart_upload :: "MetadataOutcome \<Rightarrow> (MetadataError, MultipartUpload) result" where
  "into_multipart_upload out =
     (case out of MultipartUploadOutcome u \<Rightarrow> Inr u | _ \<Rightarrow> Inl (unexpected (lit ''multipart upload'')))"

definition into_replaced_part :: "MetadataOutcome \<Rightarrow> (MetadataError, UploadedPart option) result" where
  "into_replaced_part out =
     (case out of ReplacedPartOutcome p \<Rightarrow> Inr p | _ \<Rightarrow> Inl (unexpected (lit ''multipart part'')))"

definition into_multipart_cleanup :: "MetadataOutcome \<Rightarrow> (MetadataError, MultipartCleanupResult) result" where
  "into_multipart_cleanup out =
     (case out of MultipartCleanupOutcome r \<Rightarrow> Inr r | _ \<Rightarrow> Inl (unexpected (lit ''multipart cleanup'')))"

section \<open>Calls that change the catalog\<close>

text \<open>
  A call sends its command to the writer, waits for the reply and unpacks it. The command is decided on
  the catalog \<open>s\<close> it meets in the writer's order; the pair is what the caller sees and the catalog after.
  What becomes of the command on its way is a \<open>delivery\<close>: the writer may have stopped already, it may stop
  before it answers, with the command landed or not, the engine may fail to begin or to commit its
  transaction, or the command is served.
  The deletion of a bucket and the abort of an upload stamp the wall clock, which is the argument \<open>now\<close>.
\<close>

datatype delivery = NotAccepted | NotAnswered bool | NotCommitted str str | Served

definition call ::
  "delivery \<Rightarrow> externs \<Rightarrow> catalog \<Rightarrow> MetadataCommand \<Rightarrow> (MetadataOutcome \<Rightarrow> (MetadataError, 'a) result)
   \<Rightarrow> (MetadataError, 'a) result \<times> catalog" where
  "call way ext s c into =
     (case way of
        NotAccepted \<Rightarrow> (Inl (Database (lit ''metadata command'') (lit ''the metadata writer has stopped'')), s)
      | NotAnswered landed \<Rightarrow>
          (Inl (Database (lit ''metadata command'') (lit ''the metadata writer stopped before answering'')),
           if landed then attempt (apply_command_tx ext) s c else s)
      | NotCommitted operation reason \<Rightarrow> (Inl (Database operation reason), s)
      | Served \<Rightarrow>
          case apply_command_tx ext s c of
            Inl e \<Rightarrow> (Inl e, s)
          | Inr (out, s') \<Rightarrow> (into out, s'))"

definition repo_create_bucket where
  "repo_create_bucket way ext s bucket = call way ext s (CreateBucket bucket) (\<lambda>_. Inr ())"

definition repo_set_bucket_versioning where
  "repo_set_bucket_versioning way ext s b state = call way ext s (SetBucketVersioning b state) into_bucket"

definition repo_set_bucket_quota where
  "repo_set_bucket_quota way ext s b q = call way ext s (SetBucketQuota b q) into_bucket"

definition repo_set_bucket_cors where
  "repo_set_bucket_cors way ext s b configuration = call way ext s (SetBucketCors b configuration) into_bucket"

definition repo_set_bucket_object_lock where
  "repo_set_bucket_object_lock way ext s b configuration =
     call way ext s (SetBucketObjectLock b configuration) into_bucket"

definition repo_delete_bucket where
  "repo_delete_bucket way ext s now name = call way ext s (DeleteBucket name now) into_bucket"

definition repo_put_object where
  "repo_put_object way ext s m lock origin = call way ext s (PutObject m lock origin) into_object_commit"

definition repo_prune_mutation_events where
  "repo_prune_mutation_events way ext s through = call way ext s (PruneMutationEvents through) (\<lambda>_. Inr ())"

definition repo_delete_object where
  "repo_delete_object way ext s b k marker = call way ext s (DeleteObject b k marker) into_delete_object"

definition repo_delete_object_version where
  "repo_delete_object_version way ext s b k v release =
     call way ext s (DeleteObjectVersion b k v release) into_delete_version"

definition repo_put_object_lock where
  "repo_put_object_lock way ext s b k v requested release =
     call way ext s (PutObjectLock b k v requested release) into_object_lock"

definition repo_observe_clock where
  "repo_observe_clock way ext s release = call way ext s (ObserveClock release) (\<lambda>_. Inr ())"

definition repo_create_multipart_upload where
  "repo_create_multipart_upload way ext s upload = call way ext s (CreateMultipartUpload upload) (\<lambda>_. Inr ())"

definition repo_put_multipart_part where
  "repo_put_multipart_part way ext s part = call way ext s (PutMultipartPart part) into_replaced_part"

definition repo_begin_multipart_completion where
  "repo_begin_multipart_completion way ext s u object =
     call way ext s (BeginMultipartCompletion u object) into_multipart_upload"

definition repo_finish_multipart_upload where
  "repo_finish_multipart_upload way ext s u = call way ext s (FinishMultipartUpload u) into_multipart_cleanup"

definition repo_abort_multipart_upload where
  "repo_abort_multipart_upload way ext s now u = call way ext s (AbortMultipartUpload u now) into_multipart_cleanup"

definition repo_recover_multipart_completions where
  "repo_recover_multipart_completions way ext s = call way ext s RecoverMultipartCompletions into_multipart_cleanup"

definition repo_put_lifecycle_rule where
  "repo_put_lifecycle_rule way ext s rule = call way ext s (PutLifecycleRule rule) (\<lambda>_. Inr ())"

definition repo_delete_lifecycle_rule where
  "repo_delete_lifecycle_rule way ext s r = call way ext s (DeleteLifecycleRule r) (\<lambda>_. Inr ())"

definition repo_complete_cleanup where
  "repo_complete_cleanup way ext s x = call way ext s (CompleteCleanup x) (\<lambda>_. Inr ())"

lemmas repo_calls = repo_create_bucket_def repo_set_bucket_versioning_def repo_set_bucket_quota_def
  repo_set_bucket_cors_def repo_set_bucket_object_lock_def repo_delete_bucket_def repo_put_object_def
  repo_prune_mutation_events_def repo_delete_object_def repo_delete_object_version_def repo_put_object_lock_def
  repo_observe_clock_def repo_create_multipart_upload_def repo_put_multipart_part_def
  repo_begin_multipart_completion_def repo_finish_multipart_upload_def repo_abort_multipart_upload_def
  repo_recover_multipart_completions_def repo_put_lifecycle_rule_def repo_delete_lifecycle_rule_def
  repo_complete_cleanup_def

section \<open>Point reads\<close>

definition get_bucket :: "catalog \<Rightarrow> BucketId \<Rightarrow> Bucket option" where
  "get_bucket s b = t_get (buckets s) (bucket_key b)"

definition get_bucket_by_name :: "catalog \<Rightarrow> BucketName \<Rightarrow> Bucket option" where
  "get_bucket_by_name s name = t_get (bucket_names s) name"

definition list_buckets :: "catalog \<Rightarrow> Bucket list" where
  "list_buckets s = map snd (t_iter (bucket_names s))"

definition get_object :: "catalog \<Rightarrow> BucketId \<Rightarrow> ObjectKey \<Rightarrow> ObjectMetadata option" where
  "get_object s b k = t_get (objects s) (object_key b k)"

definition get_object_version :: "catalog \<Rightarrow> BucketId \<Rightarrow> ObjectKey \<Rightarrow> VersionId \<Rightarrow> ObjectVersionRecord option" where
  "get_object_version s b k v =
     (case t_get (versions s) (uuid_bytes v) of
        None \<Rightarrow> None
      | Some r \<Rightarrow> if record_matches r b k then Some r else None)"

definition get_null_version :: "catalog \<Rightarrow> BucketId \<Rightarrow> ObjectKey \<Rightarrow> ObjectVersionRecord option" where
  "get_null_version s b k =
     (case t_get (null_versions s) (object_key b k) of
        None \<Rightarrow> None
      | Some v \<Rightarrow> t_get (versions s) v)"

definition get_object_lock :: "catalog \<Rightarrow> VersionId \<Rightarrow> ObjectLockState" where
  "get_object_lock s v =
     (case t_get (object_locks s) (lock_key v) of None \<Rightarrow> default_lock | Some l \<Rightarrow> l)"

definition get_multipart_upload :: "catalog \<Rightarrow> UploadId \<Rightarrow> MultipartUpload option" where
  "get_multipart_upload s u = t_get (multipart s) (uuid_bytes u)"

definition list_lifecycle_rules :: "catalog \<Rightarrow> BucketId option \<Rightarrow> LifecycleRule list" where
  "list_lifecycle_rules s bucket =
     filter (\<lambda>rule. case bucket of None \<Rightarrow> True | Some b \<Rightarrow> rule_bucket rule = b)
       (map snd (t_iter (lifecycle_rules s)))"

definition storage_usage :: "catalog \<Rightarrow> StorageUsage" where
  "storage_usage s =
     \<lparr>su_object_count = read_counter s OBJECT_COUNT, su_bytes_used = read_counter s LOGICAL_BYTES,
      su_bucket_count = read_counter s BUCKET_COUNT, su_version_count = read_counter s VERSION_COUNT,
      su_version_bytes = read_counter s VERSION_BYTES, su_physical_bytes = read_counter s PHYSICAL_BYTES,
      su_temporary_multipart_bytes = read_counter s MULTIPART_BYTES\<rparr>"

definition pending_mutation_events :: "catalog \<Rightarrow> u64 \<Rightarrow> u64 \<Rightarrow> MutationEvent list" where
  "pending_mutation_events s cursor limit =
     (let limit = min (max limit 1) 10000
      in take (unat limit) (map snd (t_from (mutation_events s) (saturating_add cursor 1))))"

definition payload_referenced :: "catalog \<Rightarrow> ObjectId \<Rightarrow> bool" where
  "payload_referenced s x =
     ((\<exists>e \<in> set (t_iter (versions s)). case snd e of ObjectRecord m n \<Rightarrow> om_id m = x | MarkerRecord d n \<Rightarrow> False)
      \<or> (\<exists>e \<in> set (t_iter (parts s)). part_object (snd e) = x))"

text \<open>An identifier read back from the sixteen bytes of a key; any other length is refused.\<close>

definition uuid_from_bytes :: "bytes \<Rightarrow> uuid option" where
  "uuid_from_bytes bs = (if length bs = 16 then Some (of_nat (be_value bs)) else None)"

record BucketUsageSummary =
  us_object_count :: u64
  us_logical_bytes :: u64
  us_version_count :: u64
  us_version_bytes :: u64
  us_multipart_bytes :: u64

definition usage_summary :: "BucketUsage \<Rightarrow> BucketUsageSummary" where
  "usage_summary u = \<lparr>us_object_count = bu_current_objects u, us_logical_bytes = bu_logical_bytes u,
     us_version_count = bu_versions u, us_version_bytes = bu_version_bytes u,
     us_multipart_bytes = bu_multipart_bytes u\<rparr>"

fun summarise :: "(bytes \<times> BucketUsage) list \<Rightarrow> (BucketId, BucketUsageSummary) table
    \<Rightarrow> (MetadataError, (BucketId, BucketUsageSummary) table) result" where
  "summarise [] out = Inr out"
| "summarise ((k, u) # es) out =
     rbind (ok_or (uuid_from_bytes k)
              (Database (lit ''decode bucket usage key'') (lit ''bucket identifier is malformed''))) (\<lambda>b.
       summarise es (t_insert b (usage_summary u) out))"

definition bucket_usage_summaries :: "catalog \<Rightarrow> (MetadataError, (BucketId, BucketUsageSummary) table) result" where
  "bucket_usage_summaries s = summarise (t_iter (bucket_usage s)) t_empty"

fun decode_cleanup :: "(bytes \<times> u8) list \<Rightarrow> (MetadataError, ObjectId list) result" where
  "decode_cleanup [] = Inr []"
| "decode_cleanup ((k, _) # es) =
     rbind (ok_or (uuid_from_bytes k) (Database (lit ''decode cleanup'') (lit ''invalid identifier''))) (\<lambda>x.
     rbind (decode_cleanup es) (\<lambda>xs. Inr (x # xs)))"

definition pending_cleanup :: "catalog \<Rightarrow> u64 \<Rightarrow> (MetadataError, ObjectId list) result" where
  "pending_cleanup s limit = decode_cleanup (take (unat limit) (t_iter (cleanup s)))"

section \<open>Listings\<close>

record ListObjectsRequest =
  lo_bucket :: BucketId
  lo_prefix :: str
  lo_start_after :: "str option"
  lo_limit :: u64

record ObjectMetadataPage =
  page_objects :: "ObjectMetadata list"
  page_next_key :: "str option"

definition list_objects :: "catalog \<Rightarrow> ListObjectsRequest \<Rightarrow> ObjectMetadataPage" where
  "list_objects s request =
     (if lo_limit request = 0 then \<lparr>page_objects = [], page_next_key = None\<rparr>
      else
        let p = object_prefix (lo_bucket request) (lo_prefix request);
            start = (case lo_start_after request of
                       None \<Rightarrow> p
                     | Some value \<Rightarrow> object_prefix (lo_bucket request) value @ [0]);
            end = prefix_successor p;
            found = map snd (take (unat (lo_limit request + 1)) (t_range (objects s) start end))
        in if unat (lo_limit request) < length found
           then let found = butlast found
                in \<lparr>page_objects = found,
                    page_next_key = (if found = [] then None else Some (om_key (last found)))\<rparr>
           else \<lparr>page_objects = found, page_next_key = None\<rparr>)"

record ListObjectVersionsRequest =
  lv_bucket :: BucketId
  lv_prefix :: str
  lv_key_marker :: "str option"
  lv_version_id_marker :: "VersionId option"
  lv_limit :: u64

record ListedObjectVersion =
  listed_record :: ObjectVersionRecord
  is_latest :: bool

record ObjectVersionPage =
  page_versions :: "ListedObjectVersion list"
  next_key_marker :: "str option"
  next_version_id_marker :: "VersionId option"

definition current_version_read :: "catalog \<Rightarrow> bytes \<Rightarrow> VersionId option" where
  "current_version_read s key =
     (case t_get (objects s) key of
        Some m \<Rightarrow> Some (om_version m)
      | None \<Rightarrow> map_option dm_version (t_get (markers s) key))"

text \<open>The scan of the order index resolves every entry; an entry without its version is an error.\<close>

fun resolve_versions ::
  "catalog \<Rightarrow> BucketId \<Rightarrow> (bytes \<times> bytes) list \<Rightarrow> (MetadataError, ListedObjectVersion list) result" where
  "resolve_versions s b [] = Inr []"
| "resolve_versions s b ((_, v) # es) =
     rbind (ok_or (t_get (versions s) v) (Database (lit ''list versions'') (lit ''inconsistent index''))) (\<lambda>record.
     let latest = (current_version_read s (object_key b (rec_key record)) = Some (rec_version_id record))
     in rbind (resolve_versions s b es) (\<lambda>out. Inr (\<lparr>listed_record = record, is_latest = latest\<rparr> # out)))"

text \<open>Where a version listing starts: at the prefix, or after the version the two markers name.\<close>

definition version_start :: "catalog \<Rightarrow> ListObjectVersionsRequest \<Rightarrow> (MetadataError, bytes) result" where
  "version_start s request =
     (case (lv_key_marker request, lv_version_id_marker request) of
        (Some marker_key, Some marker_id) \<Rightarrow>
          rbind (ok_or (t_get (versions s) (uuid_bytes marker_id))
                   (Database (lit ''list versions'') (lit ''unknown marker''))) (\<lambda>record.
            if rec_key record \<noteq> marker_key \<or> \<not> record_matches record (lv_bucket request) (rec_key record)
            then Inl (Database (lit ''list versions'') (lit ''mismatched marker''))
            else Inr (version_order_key record @ [0]))
      | _ \<Rightarrow> Inr (object_prefix (lv_bucket request) (lv_prefix request)))"

definition list_object_versions ::
  "catalog \<Rightarrow> ListObjectVersionsRequest \<Rightarrow> (MetadataError, ObjectVersionPage) result" where
  "list_object_versions s request =
     (if (lv_key_marker request \<noteq> None) \<noteq> (lv_version_id_marker request \<noteq> None)
      then Inl (Database (lit ''list versions'') (lit ''both markers are required''))
      else if lv_limit request = 0
      then Inr \<lparr>page_versions = [], next_key_marker = None, next_version_id_marker = None\<rparr>
      else
        rbind (version_start s request) (\<lambda>start.
        let end = prefix_successor (object_prefix (lv_bucket request) (lv_prefix request))
        in rbind (resolve_versions s (lv_bucket request)
                    (take (unat (lv_limit request + 1)) (t_range (version_order s) start end))) (\<lambda>out.
           if unat (lv_limit request) < length out
           then let out = butlast out
                in Inr \<lparr>page_versions = out,
                        next_key_marker = (if out = [] then None else Some (rec_key (listed_record (last out)))),
                        next_version_id_marker =
                          (if out = [] then None else Some (rec_version_id (listed_record (last out))))\<rparr>
           else Inr \<lparr>page_versions = out, next_key_marker = None, next_version_id_marker = None\<rparr>)))"

definition list_multipart_parts ::
  "catalog \<Rightarrow> UploadId \<Rightarrow> PartNumber option \<Rightarrow> u64 \<Rightarrow> (MetadataError, UploadedPart list) result" where
  "list_multipart_parts s u cursor limit =
     (if t_get (multipart s) (uuid_bytes u) = None then Inl MultipartUploadNotFound
      else
        let p = uuid_bytes u;
            start = (case cursor of None \<Rightarrow> p | Some number \<Rightarrow> part_key u number @ [0]);
            end = prefix_successor p
        in Inr (map snd (take (unat limit) (t_range (parts s) start end))))"

record ListMultipartUploadsRequest =
  lm_bucket :: BucketId
  lm_prefix :: str
  lm_key_marker :: "str option"
  lm_upload_id_marker :: "UploadId option"
  lm_limit :: u64

record MultipartUploadPage =
  page_uploads :: "MultipartUpload list"
  next_upload_id_marker :: "UploadId option"

text \<open>The upload a marker names, when it is still open and of the listed bucket.\<close>

definition marker_upload :: "catalog \<Rightarrow> ListMultipartUploadsRequest \<Rightarrow> MultipartUpload option" where
  "marker_upload s request =
     (case lm_upload_id_marker request of
        None \<Rightarrow> None
      | Some u \<Rightarrow>
          case t_get (multipart s) (uuid_bytes u) of
            None \<Rightarrow> None
          | Some upload \<Rightarrow> if up_bucket upload = lm_bucket request then Some upload else None)"

definition upload_resume :: "catalog \<Rightarrow> ListMultipartUploadsRequest \<Rightarrow> (MetadataError, bytes option) result" where
  "upload_resume s request =
     (case (lm_key_marker request, marker_upload s request, lm_upload_id_marker request) of
        (Some key, Some upload, Some _) \<Rightarrow>
          if up_key upload = key then Inr (Some (multipart_order_key upload @ [0]))
          else Inr (Some (object_prefix (lm_bucket request) key @ [0]))
      | (Some key, None, Some _) \<Rightarrow> Inr (Some (object_prefix (lm_bucket request) key @ [0]))
      | (Some key, _, None) \<Rightarrow> Inr (Some (object_prefix (lm_bucket request) key @ [1]))
      | (None, Some upload, Some _) \<Rightarrow> Inr (Some (multipart_order_key upload @ [0]))
      | (None, None, Some _) \<Rightarrow> Inl MultipartUploadNotFound
      | (None, _, None) \<Rightarrow> Inr None)"

fun resolve_uploads :: "catalog \<Rightarrow> (bytes \<times> bytes) list \<Rightarrow> (MetadataError, MultipartUpload list) result" where
  "resolve_uploads s [] = Inr []"
| "resolve_uploads s ((_, u) # es) =
     rbind (ok_or (t_get (multipart s) u) (Database (lit ''list multipart'') (lit ''inconsistent index''))) (\<lambda>upload.
     rbind (resolve_uploads s es) (\<lambda>out. Inr (upload # out)))"

definition list_multipart_uploads ::
  "catalog \<Rightarrow> ListMultipartUploadsRequest \<Rightarrow> (MetadataError, MultipartUploadPage) result" where
  "list_multipart_uploads s request =
     (if lm_limit request = 0 then Inr \<lparr>page_uploads = [], next_upload_id_marker = None\<rparr>
      else
        let p = object_prefix (lm_bucket request) (lm_prefix request)
        in rbind (upload_resume s request) (\<lambda>resume.
           let start = (case resume of None \<Rightarrow> p | Some resume \<Rightarrow> max resume p);
               end = prefix_successor p
           in if end \<le> start then Inr \<lparr>page_uploads = [], next_upload_id_marker = None\<rparr>
              else
                rbind (resolve_uploads s
                         (take (unat (lm_limit request + 1)) (t_range (multipart_order s) start end))) (\<lambda>out.
                if unat (lm_limit request) < length out
                then let out = butlast out
                     in Inr \<lparr>page_uploads = out,
                             next_upload_id_marker = (if out = [] then None else Some (up_id (last out)))\<rparr>
                else Inr \<lparr>page_uploads = out, next_upload_id_marker = None\<rparr>)))"

record LockedVersion =
  locked_bucket :: BucketId
  locked_key :: ObjectKey
  locked_version :: VersionId
  locked_state :: ObjectLockState

record LockedVersionPage =
  page_locked :: "LockedVersion list"
  page_next_locked :: "VersionId option"

fun collect_locks ::
  "catalog \<Rightarrow> nat \<Rightarrow> (bytes \<times> ObjectLockState) list \<Rightarrow> LockedVersion list \<Rightarrow> LockedVersionPage" where
  "collect_locks s limit [] page = \<lparr>page_locked = page, page_next_locked = None\<rparr>"
| "collect_locks s limit ((k, state) # es) page =
     (if length page = limit
      then \<lparr>page_locked = page,
            page_next_locked = (if page = [] then None else Some (locked_version (last page)))\<rparr>
      else
        case t_get (versions s) k of
          None \<Rightarrow> collect_locks s limit es page
        | Some record \<Rightarrow>
            let (b, key) = (case record of
                              ObjectRecord m n \<Rightarrow> (om_bucket m, om_key m)
                            | MarkerRecord d n \<Rightarrow> (dm_bucket d, dm_key d))
            in collect_locks s limit es
                 (page @ [\<lparr>locked_bucket = b, locked_key = key, locked_version = rec_version_id record,
                           locked_state = state\<rparr>]))"

definition list_object_locks ::
  "catalog \<Rightarrow> VersionId option \<Rightarrow> u64 \<Rightarrow> (MetadataError, LockedVersionPage) result" where
  "list_object_locks s cursor limit =
     (if limit = 0 \<or> 1000 < limit
      then Inl (Database (lit ''list object locks'') (lit ''limit must be between 1 and 1000''))
      else
        let start = (case cursor of None \<Rightarrow> [] | Some v \<Rightarrow> lock_key v @ [0])
        in Inr (collect_locks s (unat limit) (t_from (object_locks s) start) []))"

record PayloadReferencePage =
  page_object_ids :: "ObjectId list"
  next_object_id :: "ObjectId option"

text \<open>
  The set of identifiers is a \<open>BTreeSet\<close>, a strictly ascending list here. It never holds more than
  \<open>limit + 1\<close> of them: the greatest is dropped when one more arrives.
\<close>

definition insert_reference :: "ObjectId option \<Rightarrow> nat \<Rightarrow> ObjectId \<Rightarrow> ObjectId list \<Rightarrow> ObjectId list" where
  "insert_reference cursor limit x ids =
     (if (case cursor of None \<Rightarrow> True | Some a \<Rightarrow> a < x)
      then let ids = insort_insert x ids in if limit + 1 < length ids then butlast ids else ids
      else ids)"

fun collect_references :: "ObjectId option \<Rightarrow> nat \<Rightarrow> ObjectId list \<Rightarrow> ObjectId list \<Rightarrow> ObjectId list" where
  "collect_references cursor limit [] ids = ids"
| "collect_references cursor limit (x # xs) ids =
     collect_references cursor limit xs (insert_reference cursor limit x ids)"

definition version_payloads :: "catalog \<Rightarrow> ObjectId list" where
  "version_payloads s = List.map_filter (\<lambda>e. map_option om_id (as_object (snd e))) (t_iter (versions s))"

definition list_payload_references ::
  "catalog \<Rightarrow> ObjectId option \<Rightarrow> u64 \<Rightarrow> (MetadataError, PayloadReferencePage) result" where
  "list_payload_references s cursor limit =
     (if limit = 0 \<or> 1000 < limit
      then Inl (Database (lit ''list payload references'') (lit ''limit must be between 1 and 1000''))
      else
        let identifiers = collect_references cursor (unat limit) (version_payloads s) [];
            identifiers = collect_references cursor (unat limit) (map (\<lambda>e. part_object (snd e)) (t_iter (parts s))) identifiers
        in if unat limit < length identifiers
           then let object_ids = butlast identifiers
                in Inr \<lparr>page_object_ids = object_ids,
                        next_object_id = (if object_ids = [] then None else Some (last object_ids))\<rparr>
           else Inr \<lparr>page_object_ids = identifiers, next_object_id = None\<rparr>)"

section \<open>Outcomes of a transaction\<close>

lemma outcome_Inr: "outcome f r = Inr (out, s') \<longleftrightarrow> (\<exists>x. r = Inr (x, s') \<and> out = f x)"
  by (auto simp: outcome_def rbind_def split: sum.splits)

end
