(* ===== verification/Views.thy ===== *)
theory Views
  imports Repository
begin

text \<open>
  What the reads of the repository return after a write: a put is read back, by key, by version and with
  its lock, a delete hides the object, and neither changes what is read of any other object.
\<close>

lemma objects_publish:
  "objects (publish_current s x r) = (case r of ObjectRecord m n \<Rightarrow> t_insert x m (objects s) | MarkerRecord d n \<Rightarrow> objects s)"
  "object_locks (publish_current s x r) = object_locks s" "versions (publish_current s x r) = versions s"
  "version_order (publish_current s x r) = version_order s"
  by (cases r; simp)+

lemma objects_frames [simp]:
  "objects (drop_opt s q) = objects s" "objects (add_record s r) = objects s" "objects (lock_opt s v l) = objects s"
  by (simp_all add: drop_opt_def drop_record_def add_record_def lock_opt_def write_object_lock_def split: option.split)

lemma objects_cores:
  "t_get (objects (put_core s bucket m lock)) (object_key b k) =
     (if b = om_bucket m \<and> k = om_key m then Some m else t_get (objects s) (object_key b k))"
  "t_get (objects (delete_core s bucket b' k' nm)) (object_key b k) =
     (if b = b' \<and> k = k' then None else t_get (objects s) (object_key b k))"
  by (auto simp: put_core_def delete_core_def Let_def objects_publish hide_def split: if_splits)

lemma lock_of_put:
  assumes "index_inv s" and "ver s (om_version m) = None"
  shows "t_get (object_locks (put_core s bucket m lock)) (lock_key (om_version m)) =
     (case lock of None \<Rightarrow> None | Some l \<Rightarrow> if is_unlocked l then None else Some l)"
proof -
  have none: "t_get (object_locks s) (lock_key (om_version m)) = None"
    using lock_heldD [OF assms(1), of "lock_key (om_version m)"] assms(2)
    by (cases "t_get (object_locks s) (lock_key (om_version m))") (auto simp: lock_key_def)
  have "object_locks (add_record t r) = object_locks t" for t r by (simp add: add_record_def)
  moreover have "t_get (object_locks (drop_opt (hide s x) q)) (lock_key (om_version m)) = None" for x q
    using none by (simp add: drop_opt_def drop_record_def split: option.split)
  ultimately show ?thesis
    by (simp add: put_core_def Let_def objects_publish lock_opt_def write_object_lock_def del: publish_current.simps split: option.split)
qed

lemma call_InrD:
  assumes "call way ext s c into = (Inr x, s')"
  shows "\<exists>out. apply_command_tx ext s c = Inr (out, s')"
  using assms by (auto simp: call_def split: sum.splits delivery.splits)

lemma later_ok:
  assumes "admissible (cs @ [c])"
  shows "index_inv (after ext cs) \<and> command_ok (after ext cs) c"
  using admitted_later [OF assms, of ext] books_after [OF admissible_append [OF assms], of ext]
  by (simp add: books_def)

text \<open>
  C16. A put is read back. After a put that succeeded, the object is current under its key, its version is
  readable by its identifier, the version carries the requested lock, and every other key reads as before.
\<close>

theorem put_is_read_back:
  assumes "admissible (cs @ [PutObject m lock origin])"
    and "repo_put_object way ext (after ext cs) m lock origin = (Inr out, s')"
  shows "get_object s' b k = (if b = om_bucket m \<and> k = om_key m then Some m else get_object (after ext cs) b k)
    \<and> (\<exists>null. get_object_version s' (om_bucket m) (om_key m) (om_version m) = Some (ObjectRecord m null))
    \<and> get_object_lock s' (om_version m) = (case lock of None \<Rightarrow> default_lock | Some l \<Rightarrow> if is_unlocked l then default_lock else l)"
proof -
  let ?s = "after ext cs"
  from later_ok [OF assms(1), of ext] have i: "index_inv ?s" and new: "ver ?s (om_version m) = None" by simp_all
  from call_InrD [OF assms(2) [unfolded repo_put_object_def]] obtain o' where
    "apply_command_tx ext ?s (PutObject m lock origin) = Inr (o', s')" by blast
  then obtain bucket where "put_effect ext ?s bucket m lock s'"
    using apply_command_effect [OF i, of ext "PutObject m lock origin"] by (auto simp: post_def)
  then have c: "core s' = core (put_core ?s bucket m lock)" by (auto simp: put_effect_def Let_def dest: movedD(1))
  show ?thesis
    using new core_eqD(3,5,12) [OF c] objects_cores(1) [of ?s bucket m lock b k] lock_of_put [OF i new, of bucket lock]
    by (simp add: get_object_def get_object_version_def get_object_lock_def versions_cores split: option.split)
qed

theorem put_is_read_back_witness:
  "get_object_lock (snd (repo_put_object Served sample_ext (after sample_ext [CreateBucket sample_bucket])
     (sample_object 1 2000) (Some sample_lock) Direct)) 1 = sample_lock"
proof -
  let ?c = "PutObject (sample_object 1 2000) (Some sample_lock) Direct"
  have a: "admissible ([CreateBucket sample_bucket] @ [?c])"
    by (simp add: admissible_def samples object_key_new_def validate_object_key_def KEY_MAX_LENGTH_def lit_def starts_with_def)
  have "\<exists>out s'. repo_put_object Served sample_ext (after sample_ext [CreateBucket sample_bucket])
      (sample_object 1 2000) (Some sample_lock) Direct = (Inr out, s')"
    by (simp add: repo_put_object_def call_def into_object_commit_def run_eval samples)
  then obtain out s' where r: "repo_put_object Served sample_ext (after sample_ext [CreateBucket sample_bucket])
      (sample_object 1 2000) (Some sample_lock) Direct = (Inr out, s')" by blast
  from put_is_read_back [OF a r] show ?thesis
    unfolding r by (simp add: sample_object_def sample_lock_def is_unlocked_def)
qed

text \<open>
  C17. A delete hides the object and nothing else. After a delete that succeeded the key has no current
  object, every other key reads as before, and in a bucket with versioning enabled every version that
  could be read still can.
\<close>

theorem delete_hides_the_object:
  assumes "admissible (cs @ [DeleteObject b k nm])"
    and "repo_delete_object way ext (after ext cs) b k nm = (Inr out, s')"
  shows "get_object s' b' k' = (if b' = b \<and> k' = k then None else get_object (after ext cs) b' k')
    \<and> (map_option versioning (get_bucket (after ext cs) b) = Some Enabled \<longrightarrow> v \<noteq> nm_version nm \<longrightarrow>
        get_object_version s' b' k' v = get_object_version (after ext cs) b' k' v)"
proof -
  let ?s = "after ext cs"
  from later_ok [OF assms(1), of ext] have i: "index_inv ?s" by simp
  from call_InrD [OF assms(2) [unfolded repo_delete_object_def]] obtain o' where
    "apply_command_tx ext ?s (DeleteObject b k nm) = Inr (o', s')" by blast
  then obtain bucket where e: "delete_effect ext ?s bucket b k nm s'"
    using apply_command_effect [OF i, of ext "DeleteObject b k nm"] by (auto simp: post_def)
  then have c: "core s' = core (delete_core ?s bucket b k nm)" and b: "read_bucket ?s b = Some bucket"
    by (auto simp: delete_effect_def Let_def dest: movedD(1))
  have "versioning bucket = Enabled \<Longrightarrow> v \<noteq> nm_version nm \<Longrightarrow> ver s' v = ver ?s v"
    using core_eqD(5) [OF c] by (simp add: versions_cores replaced_of_def drop_opt_def)
  with b core_eqD(3) [OF c] objects_cores(2) [of ?s bucket b k nm b' k'] show ?thesis
    by (simp add: get_object_def get_object_version_def get_bucket_def read_bucket_def)
qed

theorem delete_hides_the_object_witness:
  "get_object (snd (repo_delete_object Served sample_ext (after sample_ext sample_run) 7 (lit ''a/b'') \<lparr>nm_version = 3, nm_created_at = 4000\<rparr>))
     7 (lit ''a/b'') = None"
proof -
  let ?nm = "\<lparr>nm_version = 3, nm_created_at = 4000\<rparr>"
  have a: "admissible (sample_run @ [DeleteObject 7 (lit ''a/b'') ?nm])"
    by (simp add: admissible_def samples object_key_new_def validate_object_key_def KEY_MAX_LENGTH_def lit_def starts_with_def)
  have "\<exists>out s'. repo_delete_object Served sample_ext (after sample_ext sample_run) 7 (lit ''a/b'') ?nm = (Inr out, s')"
    by (simp add: repo_delete_object_def call_def into_delete_object_def run_eval delete_object_tx_def delete_by_versioning_def
        publish_marker_def delete_null_version_def samples)
  then obtain out s' where r: "repo_delete_object Served sample_ext (after sample_ext sample_run) 7 (lit ''a/b'') ?nm = (Inr out, s')"
    by blast
  from delete_hides_the_object [OF a r, of 7 "lit ''a/b''"] show ?thesis
    unfolding r by simp
qed

section \<open>The successor of a deleted version\<close>

text \<open>The newest version of a key: no other version of the key is newer.\<close>

definition newest_version :: "catalog \<Rightarrow> BucketId \<Rightarrow> ObjectKey \<Rightarrow> ObjectVersionRecord \<Rightarrow> bool" where
  "newest_version s b k r \<longleftrightarrow> get_object_version s b k (rec_version_id r) = Some r
     \<and> (\<forall>v r'. get_object_version s b k v = Some r' \<longrightarrow> r' = r \<or> newer r r')"

lemma get_object_version_iff:
  "get_object_version s b k v = Some r \<longleftrightarrow> ver s v = Some r \<and> rec_bucket r = b \<and> rec_key r = k"
  by (auto simp: get_object_version_def record_matches_iff split: option.splits if_splits)

lemma latest_is_newest:
  assumes inv: "index_inv s" and key: "0 \<notin> set k" and dates: "\<And>v r. get_object_version s b k v = Some r \<Longrightarrow> dated r"
    and n: "latest_version s b k = Some n"
  shows "newest_version s b k n"
proof -
  note first = latest_version_Some [OF inv key n]
  have "r' = n \<or> newer n r'" if r': "get_object_version s b k v = Some r'" for v r'
  proof -
    from r' first have obj: "rec_bucket n = rec_bucket r'" "rec_key n = rec_key r'" and le: "version_order_key n \<le> version_order_key r'"
      by (auto simp: get_object_version_iff)
    have "get_object_version s b k (rec_version_id n) = Some n" using first by (simp add: get_object_version_iff)
    with r' dates have d: "dated n" "dated r'" by blast+
    show ?thesis
    proof (cases "version_order_key n = version_order_key r'")
      case True
      then have "rec_version_id n = rec_version_id r'" by (rule version_order_key_version)
      moreover have "rec_version_id r' = v"
        using r' version_keyedD [OF inv, of "uuid_bytes v" r'] by (simp add: get_object_version_iff)
      ultimately show ?thesis using r' first by (simp add: get_object_version_iff)
    next
      case False
      with le version_order_newest_first [OF obj d] show ?thesis by (auto simp: order.order_iff_strict)
    qed
  qed
  with first show ?thesis by (auto simp: newest_version_def get_object_version_iff)
qed


lemma latest_version_single:
  assumes "\<And>x. t_get (version_order s) x = (if x = version_order_key r then Some w else None)"
    and "t_get (versions s) w = Some r" and "rec_bucket r = b" and "rec_key r = k"
  shows "latest_version s b k = Some r"
proof -
  let ?p = "exact_version_prefix b k"
  have "prefix ?p (version_order_key r)" using assms(3,4) by (simp add: version_order_key_def)
  then have "(version_order_key r, w) \<in> set (t_range (version_order s) ?p (prefix_successor ?p))"
    using exact_version_prefix_scan assms(1) by (simp add: set_t_range)
  then obtain x v rest where range: "t_range (version_order s) ?p (prefix_successor ?p) = (x, v) # rest"
    by (cases "t_range (version_order s) ?p (prefix_successor ?p)") auto
  with t_range_first [OF range] assms(1) have "v = w" by (auto split: if_splits)
  with range assms(2) show ?thesis by (simp add: latest_version_def)
qed


end
