(* ===== verification/Paging.thy ===== *)
theory Paging
  imports Views
begin

text \<open>
  Bounded listings. A client reads a listing page by page and passes the cursor of a page to the next
  call until a page comes without one. The interface \<open>scanner\<close> is what a listing promises of one page:
  it is a beginning of what is left, its cursor stands for the remainder, and something was read. Its lemma
  is that the client then reads everything, once and in order, in finitely many calls. \<open>pager\<close> is the
  special case of listings that return an entry with every cursor; the listings of the repository are its
  interpretations.
\<close>

section \<open>Reading a listing to its end\<close>

text \<open>The loop of a client, with a bound on the number of calls.\<close>

fun walk :: "('c option \<Rightarrow> ('e, 'a list \<times> 'c option) result) \<Rightarrow> nat \<Rightarrow> 'c option \<Rightarrow> ('e, 'a list) result option" where
  "walk page 0 c = None"
| "walk page (Suc n) c =
     (case page c of
        Inl e \<Rightarrow> Some (Inl e)
      | Inr (xs, None) \<Rightarrow> Some (Inr xs)
      | Inr (xs, Some d) \<Rightarrow> map_option (\<lambda>r. rbind r (\<lambda>ys. Inr (xs @ ys))) (walk page n (Some d)))"

locale scanner =
  fixes page :: "'q \<Rightarrow> 'c option \<Rightarrow> ('e, 'a list \<times> 'c option) result"
    and remaining :: "'q \<Rightarrow> 'c option \<Rightarrow> 'a list"
    and unread :: "'q \<Rightarrow> 'c option \<Rightarrow> nat"
    and ok :: "'q \<Rightarrow> 'c option \<Rightarrow> bool"
  assumes returns: "ok q c \<Longrightarrow> \<exists>xs d. page q c = Inr (xs, d)"
    and final: "ok q c \<Longrightarrow> page q c = Inr (xs, None) \<Longrightarrow> remaining q c = xs"
    and more: "ok q c \<Longrightarrow> page q c = Inr (xs, Some d) \<Longrightarrow> remaining q c = xs @ remaining q (Some d) \<and> ok q (Some d)"
    and progress: "ok q c \<Longrightarrow> page q c = Inr (xs, Some d) \<Longrightarrow> unread q (Some d) < unread q c"
begin

lemma walk_all:
  assumes "ok q c" and "unread q c < n"
  shows "walk (page q) n c = Some (Inr (remaining q c))"
  using assms
proof (induction n arbitrary: c)
  case (Suc n)
  from returns [OF Suc.prems(1)] obtain xs d where p: "page q c = Inr (xs, d)" by blast
  show ?case
  proof (cases d)
    case None
    with p final [OF Suc.prems(1)] show ?thesis by simp
  next
    case (Some e)
    with more [OF Suc.prems(1)] p have m: "remaining q c = xs @ remaining q (Some e)" "ok q (Some e)" by simp_all
    from progress [OF Suc.prems(1)] p Some Suc.prems(2) have "unread q (Some e) < n" by fastforce
    from Suc.IH [OF m(2) this] p Some m(1) show ?thesis by simp
  qed
qed simp

end

text \<open>A listing whose pages are never empty before the end: what is left to read is what is left to return.\<close>

locale pager =
  fixes page :: "'q \<Rightarrow> 'c option \<Rightarrow> ('e, 'a list \<times> 'c option) result"
    and remaining :: "'q \<Rightarrow> 'c option \<Rightarrow> 'a list"
    and ok :: "'q \<Rightarrow> 'c option \<Rightarrow> bool"
  assumes returns_page: "ok q c \<Longrightarrow> \<exists>xs d. page q c = Inr (xs, d)"
    and final_page: "ok q c \<Longrightarrow> page q c = Inr (xs, None) \<Longrightarrow> remaining q c = xs"
    and next_page: "ok q c \<Longrightarrow> page q c = Inr (xs, Some d) \<Longrightarrow> xs \<noteq> [] \<and> remaining q c = xs @ remaining q (Some d) \<and> ok q (Some d)"

sublocale pager \<subseteq> scanner page remaining "\<lambda>q c. length (remaining q c)" ok
proof
  show "length (remaining q (Some d)) < length (remaining q c)" if "ok q c" "page q c = Inr (xs, Some d)" for q c xs d
    using next_page [OF that] by (cases xs) simp_all
qed (use returns_page final_page next_page in \<open>blast+\<close>)

section \<open>Cutting a scan into pages\<close>


lemma unat_limit:
  fixes limit :: u64
  assumes "limit \<noteq> - 1"
  shows "unat (limit + 1) = Suc (unat limit)"
proof -
  have "unat limit \<noteq> 2 ^ 64 - 1"
  proof
    assume "unat limit = 2 ^ 64 - 1"
    then have "unat limit = unat (- 1 :: u64)" by (simp add: unsigned_minus_1_eq_mask mask_eq_exp_minus_1)
    then show False using assms by (simp only: word_unat_eq_iff [symmetric])
  qed
  moreover have "unat limit < 2 ^ 64" using unsigned_less [of limit] by simp
  ultimately show ?thesis using unat_add_no_wrap [of limit 1] by simp
qed

lemma cut_short: "n < length (take (Suc n) xs) \<longleftrightarrow> n < length xs"
  by simp

lemma cut_page: "n < length xs \<Longrightarrow> butlast (take (Suc n) xs) = take n xs"
  by (simp add: take_Suc_conv_app_nth)

text \<open>A scan resumes after the last entry it returned, because a key followed by a zero byte is the next key.\<close>

lemma sorted_split:
  fixes xs :: "('k::linorder \<times> 'v) list"
  assumes "sorted_wrt (<) (map fst xs)" and "0 < n" "n \<le> length xs"
  shows "filter (\<lambda>e. fst (last (take n xs)) < fst e) xs = drop n xs"
proof -
  let ?k = "fst (last (take n xs))"
  have l: "last (take n xs) = xs ! (n - 1)" using assms(2,3) by (subst last_conv_nth) (auto simp: min_def)
  have s: "i < j \<Longrightarrow> j < length xs \<Longrightarrow> fst (xs ! i) < fst (xs ! j)" for i j
    using sorted_wrt_nth_less [OF assms(1), of i j] by simp
  have "\<not> ?k < fst e" if "e \<in> set (take n xs)" for e
  proof -
    from that obtain i where "i < n" "i < length xs" "e = xs ! i" by (auto simp: in_set_conv_nth)
    moreover have "i = n - 1 \<or> i < n - 1 \<and> n - 1 < length xs" using calculation assms(2,3) by arith
    ultimately show ?thesis using s [of i "n - 1"] l by auto
  qed
  moreover have "?k < fst e" if "e \<in> set (drop n xs)" for e
  proof -
    from that obtain i where "i < length xs - n" "e = xs ! (n + i)" by (auto simp: in_set_conv_nth)
    with s [of "n - 1" "n + i"] assms(2,3) l show ?thesis by simp
  qed
  ultimately have "filter (\<lambda>e. ?k < fst e) (take n xs @ drop n xs) = drop n xs"
    by (simp only: filter_append) (simp add: filter_empty_conv)
  then show ?thesis by simp
qed

lemma range_resumes:
  fixes t :: "(bytes, 'v) table"
  assumes "0 < n" "n \<le> length (t_range t lo hi)"
  shows "t_range t (fst (last (take n (t_range t lo hi))) @ [0]) hi = drop n (t_range t lo hi)"
proof -
  let ?F = "t_range t lo hi"
  have "last (take n ?F) \<in> set (take n ?F)" using assms by (intro last_in_set) auto
  then have "last (take n ?F) \<in> set ?F" by (rule in_set_takeD)
  then have lo: "lo \<le> fst (last (take n ?F))" by (simp add: t_range_def)
  have "t_range t (fst (last (take n ?F)) @ [0]) hi = filter (\<lambda>e. fst (last (take n ?F)) < fst e) ?F"
    unfolding t_range_def next_key using lo [unfolded t_range_def] by (auto simp: intro!: filter_cong)
  with sorted_split [OF t_range_sorted assms] show ?thesis by simp
qed

lemma from_resumes:
  fixes t :: "(bytes, 'v) table"
  assumes "0 < n" "n \<le> length (t_from t lo)"
  shows "t_from t (fst (last (take n (t_from t lo))) @ [0]) = drop n (t_from t lo)"
proof -
  let ?F = "t_from t lo"
  have "last (take n ?F) \<in> set (take n ?F)" using assms by (intro last_in_set) auto
  then have "last (take n ?F) \<in> set ?F" by (rule in_set_takeD)
  then have lo: "lo \<le> fst (last (take n ?F))" by (simp add: t_from_def)
  have s: "sorted_wrt (<) (map fst ?F)" unfolding t_from_def by (rule sorted_filter_keys [OF t_iter_sorted])
  have "t_from t (fst (last (take n ?F)) @ [0]) = filter (\<lambda>e. fst (last (take n ?F)) < fst e) ?F"
    unfolding t_from_def next_key using lo [unfolded t_from_def] by (auto simp: intro!: filter_cong)
  with sorted_split [OF s assms] show ?thesis by simp
qed

section \<open>Ranges inside a bucket\<close>

lemma between_extensions: "a \<le> k \<Longrightarrow> k < a @ y \<Longrightarrow> prefix a k" for a k y :: bytes
proof (induction a arbitrary: k)
  case (Cons x a)
  then show ?case by (cases k) auto
qed simp

lemma prefix_successor_split:
  assumes "\<exists>b \<in> set a. b \<noteq> 0xFF"
  shows "prefix_successor (a @ p) = prefix_successor a \<or> (\<exists>y. prefix_successor (a @ p) = a @ y)"
proof -
  have split: "bump_last (q @ rev a) = bump_last (rev a) \<or> (\<exists>y. bump_last (q @ rev a) = Some (y @ rev a))" for q
    by (induction q) auto
  have "\<exists>b \<in> set q. b \<noteq> 0xFF \<Longrightarrow> \<exists>out. bump_last q = Some out" for q by (induction q) auto
  from this [of "rev a"] assms obtain out where "bump_last (rev a) = Some out" by auto
  with split [of "rev p"] show ?thesis
    by (auto simp: prefix_successor_def)
qed

lemma within_bucket:
  assumes b: "b \<noteq> - 1" and k: "object_prefix b x \<le> k" "k < prefix_successor (object_prefix b p)"
  shows "prefix (uuid_bytes b) k"
proof -
  have ff: "\<exists>y \<in> set (uuid_bytes b). y \<noteq> 0xFF" by (rule uuid_bytes_not_max [OF b])
  have "a \<le> a @ x" for a :: bytes by (induction a) simp_all
  with k(1) have lo: "uuid_bytes b \<le> k" unfolding object_prefix_def by (rule order.trans [rotated])
  from prefix_successor_split [OF ff, of p] k(2) prefix_range [OF ff, of k] lo show ?thesis
    by (auto simp: object_prefix_def intro: between_extensions)
qed

lemma prefix_not_max: "b \<noteq> - 1 \<Longrightarrow> \<exists>y \<in> set (object_prefix b p). y \<noteq> 0xFF"
  using uuid_bytes_not_max [of b] by (auto simp: object_prefix_def)

lemma prefix_of_object: "prefix (object_prefix b p) (object_key b' k) \<longleftrightarrow> b = b' \<and> prefix p k"
  by (auto simp: object_prefix_def object_key_def prefix_def append_prefix_inject)

end
