(* ===== verification/Listings.thy ===== *)
theory Listings
  imports Paging
begin

text \<open>
  The listings of the repository are pagers: the current objects and the versions under a prefix, the locks,
  and the payload identifiers the catalog references.
\<close>

section \<open>Current objects\<close>

definition objects_page ::
  "catalog \<times> BucketId \<times> str \<times> u64 \<Rightarrow> str option \<Rightarrow> (MetadataError, ObjectMetadata list \<times> str option) result" where
  "objects_page q c = (case q of (s, b, p, limit) \<Rightarrow>
     let page = list_objects s \<lparr>lo_bucket = b, lo_prefix = p, lo_start_after = c, lo_limit = limit\<rparr>
     in Inr (page_objects page, page_next_key page))"

definition objects_scan :: "catalog \<Rightarrow> BucketId \<Rightarrow> str \<Rightarrow> str option \<Rightarrow> (bytes \<times> ObjectMetadata) list" where
  "objects_scan s b p c =
     t_range (objects s) (case c of None \<Rightarrow> object_prefix b p | Some k \<Rightarrow> object_prefix b k @ [0])
       (prefix_successor (object_prefix b p))"

definition objects_left :: "catalog \<times> BucketId \<times> str \<times> u64 \<Rightarrow> str option \<Rightarrow> ObjectMetadata list" where
  "objects_left q c = (case q of (s, b, p, limit) \<Rightarrow> map snd (objects_scan s b p c))"

definition objects_ok :: "catalog \<times> BucketId \<times> str \<times> u64 \<Rightarrow> str option \<Rightarrow> bool" where
  "objects_ok q c = (case q of (s, b, p, limit) \<Rightarrow> index_inv s \<and> b \<noteq> - 1 \<and> limit \<noteq> 0 \<and> limit \<noteq> - 1)"

lemma list_objects_eq:
  assumes "limit \<noteq> 0" "limit \<noteq> - 1"
  shows "objects_page (s, b, p, limit) c =
    (let found = objects_scan s b p c; n = unat limit in
     if n < length found then Inr (map snd (take n found), Some (om_key (snd (last (take n found)))))
     else Inr (map snd found, None))"
proof -
  have n: "0 < unat limit" using assms(1) by (simp add: unat_gt_0)
  let ?F = "objects_scan s b p c"
  have "objects_page (s, b, p, limit) c =
      (let found = map snd (take (Suc (unat limit)) ?F) in
       if unat limit < length found
       then Inr (butlast found, if butlast found = [] then None else Some (om_key (last (butlast found))))
       else Inr (found, None))"
    using assms(1) by (cases c) (simp_all add: objects_page_def list_objects_def objects_scan_def Let_def unat_limit [OF assms(2)])
  with n show ?thesis
    by (auto simp: Let_def cut_page last_map simp flip: map_butlast)
qed

lemma objects_entry:
  assumes inv: "index_inv s" and b: "b \<noteq> - 1" and e: "e \<in> set (objects_scan s b p c)"
  shows "fst e = object_prefix b (om_key (snd e)) \<and> om_bucket (snd e) = b"
proof -
  obtain x where lo: "object_prefix b x \<le> fst e"
  proof (cases c)
    case None
    with e that [of p] show thesis by (auto simp: objects_scan_def t_range_def)
  next
    case (Some k)
    with e that [of "k @ [0]"] show thesis by (auto simp: objects_scan_def t_range_def object_prefix_def)
  qed
  have hi: "fst e < prefix_successor (object_prefix b p)" and get: "t_get (objects s) (fst e) = Some (snd e)"
    using e by (auto simp: objects_scan_def t_range_def t_get_iff)
  from current_objectD [OF inv get] have k: "fst e = object_key (om_bucket (snd e)) (om_key (snd e))" by blast
  from within_bucket [OF b lo hi] k have "om_bucket (snd e) = b"
    by (auto simp: object_key_def object_prefix_def prefix_def append_prefix_inject)
  with k show ?thesis by (simp add: object_key_def)
qed

interpretation lo: pager objects_page objects_left objects_ok
proof
  fix q c assume "objects_ok q c"
  then obtain s b p limit where q: "q = (s, b, p, limit)" and i: "index_inv s" "b \<noteq> - 1" and l: "limit \<noteq> 0" "limit \<noteq> - 1"
    by (auto simp: objects_ok_def split: prod.splits)
  note page = list_objects_eq [OF l, of s b p c]
  let ?F = "objects_scan s b p c" and ?n = "unat limit"
  show "\<exists>xs d. objects_page q c = Inr (xs, d)" by (simp add: q page Let_def)
  show "objects_left q c = xs" if "objects_page q c = Inr (xs, None)" for xs
    using that by (auto simp: q page Let_def objects_left_def split: if_splits)
  show "xs \<noteq> [] \<and> objects_left q c = xs @ objects_left q (Some d) \<and> objects_ok q (Some d)"
    if p: "objects_page q c = Inr (xs, Some d)" for xs d
  proof -
    have n: "0 < ?n" using l(1) by (simp add: unat_gt_0)
    from p have len: "?n < length ?F" and xs: "xs = map snd (take ?n ?F)" and d: "d = om_key (snd (last (take ?n ?F)))"
      by (auto simp: q page Let_def split: if_splits)
    have "last (take ?n ?F) \<in> set ?F" using n len by (intro in_set_takeD [OF last_in_set]) auto
    from objects_entry [OF i this] d have "object_prefix b d = fst (last (take ?n ?F))" by simp
    then have "objects_scan s b p (Some d) = drop ?n ?F"
      using range_resumes [of ?n "objects s"] n len by (simp add: objects_scan_def)
    with xs n len i l show ?thesis
      by (auto simp: q objects_left_def objects_ok_def simp flip: map_append)
  qed
qed

lemma objects_scan_prefix:
  assumes "index_inv s" and "b \<noteq> - 1"
  shows "set (objects_left (s, b, p, limit) None) = {m. \<exists>k. get_object s b k = Some m \<and> prefix p k}"
    and "sorted_wrt (<) (map om_key (objects_left (s, b, p, limit) None))"
proof -
  let ?F = "objects_scan s b p None"
  note entry = objects_entry [OF assms, of _ p None]
  have mem: "(x, m) \<in> set ?F \<longleftrightarrow> t_get (objects s) x = Some m \<and> prefix (object_prefix b p) x" for x m
    using prefix_range [OF prefix_not_max [OF assms(2), of p], of x] by (auto simp: objects_scan_def set_t_range)
  show "set (objects_left (s, b, p, limit) None) = {m. \<exists>k. get_object s b k = Some m \<and> prefix p k}"
  proof (intro set_eqI iffI)
    fix m assume "m \<in> set (objects_left (s, b, p, limit) None)"
    then obtain x where x: "(x, m) \<in> set ?F" by (auto simp: objects_left_def)
    with entry [OF x] mem [of x m] show "m \<in> {m. \<exists>k. get_object s b k = Some m \<and> prefix p k}"
      by (auto simp: get_object_def object_key_def prefix_of_object [unfolded object_key_def])
  next
    fix m assume "m \<in> {m. \<exists>k. get_object s b k = Some m \<and> prefix p k}"
    then obtain k where "(object_key b k, m) \<in> set ?F" by (auto simp: mem get_object_def prefix_of_object)
    then show "m \<in> set (objects_left (s, b, p, limit) None)" by (force simp: objects_left_def)
  qed
  have "map fst ?F = map (\<lambda>e. object_prefix b (om_key (snd e))) ?F" using entry by simp
  then have "sorted_wrt (<) (map (\<lambda>e. object_prefix b (om_key (snd e))) ?F)"
    using t_range_sorted unfolding objects_scan_def by metis
  then show "sorted_wrt (<) (map om_key (objects_left (s, b, p, limit) None))"
    by (simp add: objects_left_def sorted_wrt_map object_prefix_def list_less_append_same_length)
qed

text \<open>
  C13. A client that follows the cursors of the object listing reads every current object whose key has the
  prefix, each once and in the order of their keys, for every page size from 1 to \<open>2\<^sup>6\<^sup>4 - 2\<close>: a page of size 0 is
  empty and has no cursor, and the greatest size overflows when the code adds one to it. The client is done after
  at most one call more than there are objects.
\<close>

theorem object_listing_is_complete:
  assumes "admissible cs" and "s = after ext cs" and "get_bucket s b \<noteq> None"
    and "limit \<noteq> 0" and "limit \<noteq> - 1" and "length (t_iter (objects s)) < n"
  shows "\<exists>ms. walk (objects_page (s, b, p, limit)) n None = Some (Inr ms)
    \<and> set ms = {m. \<exists>k. get_object s b k = Some m \<and> prefix p k} \<and> sorted_wrt (<) (map om_key ms)"
proof -
  have i: "index_inv s" using books_after [OF assms(1)] assms(2) by (simp add: books_def)
  have b: "b \<noteq> - 1" using bucketD(2) [OF i, of b] assms(3) by (auto simp: get_bucket_def read_bucket_def)
  have "length (objects_left (s, b, p, limit) None) < n"
    using assms(6) by (auto simp: objects_left_def objects_scan_def t_range_def intro: le_less_trans [OF length_filter_le])
  moreover have "objects_ok (s, b, p, limit) None" using i b assms(4,5) by (simp add: objects_ok_def)
  ultimately show ?thesis
    using lo.walk_all objects_scan_prefix [OF i b] by blast
qed

theorem object_listing_is_complete_witness:
  "\<exists>ms. walk (objects_page (after sample_ext sample_run, 7, lit ''a/'', 1)) 2 None = Some (Inr ms)
    \<and> set ms = {m. \<exists>k. get_object (after sample_ext sample_run) 7 k = Some m \<and> prefix (lit ''a/'') k} \<and> sorted_wrt (<) (map om_key ms)"
proof -
  have "get_bucket (after sample_ext sample_run) 7 \<noteq> None" "length (t_iter (objects (after sample_ext sample_run))) < 2"
    by (simp_all add: get_bucket_def run_eval samples t_insert.rep_eq t_empty.rep_eq)
  from object_listing_is_complete [OF sample_admissible refl this(1) _ _ this(2), of 1 "lit ''a/''"] show ?thesis by simp
qed

section \<open>Versions\<close>

definition versions_page ::
  "catalog \<times> BucketId \<times> str \<times> u64 \<Rightarrow> (str \<times> VersionId) option
   \<Rightarrow> (MetadataError, ListedObjectVersion list \<times> (str \<times> VersionId) option) result" where
  "versions_page q c = (case q of (s, b, p, limit) \<Rightarrow>
     rbind (list_object_versions s \<lparr>lv_bucket = b, lv_prefix = p, lv_key_marker = map_option fst c,
              lv_version_id_marker = map_option snd c, lv_limit = limit\<rparr>) (\<lambda>page.
     Inr (page_versions page,
          case (next_key_marker page, next_version_id_marker page) of (Some k, Some v) \<Rightarrow> Some (k, v) | _ \<Rightarrow> None)))"

definition listed :: "catalog \<Rightarrow> BucketId \<Rightarrow> ObjectVersionRecord \<Rightarrow> ListedObjectVersion" where
  "listed s b r = \<lparr>listed_record = r, is_latest = (current_version_read s (object_key b (rec_key r)) = Some (rec_version_id r))\<rparr>"

definition versions_scan :: "catalog \<Rightarrow> BucketId \<Rightarrow> str \<Rightarrow> (str \<times> VersionId) option \<Rightarrow> (bytes \<times> bytes) list" where
  "versions_scan s b p c =
     t_range (version_order s)
       (case c of None \<Rightarrow> object_prefix b p | Some (k, v) \<Rightarrow> version_order_key (the (ver s v)) @ [0])
       (prefix_successor (object_prefix b p))"

definition resolved :: "catalog \<Rightarrow> bytes \<times> bytes \<Rightarrow> ObjectVersionRecord" where
  "resolved s e = the (t_get (versions s) (snd e))"

definition versions_left :: "catalog \<times> BucketId \<times> str \<times> u64 \<Rightarrow> (str \<times> VersionId) option \<Rightarrow> ListedObjectVersion list" where
  "versions_left q c = (case q of (s, b, p, limit) \<Rightarrow> map (\<lambda>e. listed s b (resolved s e)) (versions_scan s b p c))"

definition versions_ok :: "catalog \<times> BucketId \<times> str \<times> u64 \<Rightarrow> (str \<times> VersionId) option \<Rightarrow> bool" where
  "versions_ok q c = (case q of (s, b, p, limit) \<Rightarrow> index_inv s \<and> b \<noteq> - 1 \<and> limit \<noteq> 0 \<and> limit \<noteq> - 1
     \<and> (case c of None \<Rightarrow> True | Some (k, v) \<Rightarrow> \<exists>r. ver s v = Some r \<and> rec_key r = k \<and> rec_bucket r = b))"

lemma resolve_versions_all:
  assumes inv: "index_inv s" and es: "\<And>e. e \<in> set es \<Longrightarrow> t_get (version_order s) (fst e) = Some (snd e)"
  shows "resolve_versions s b es = Inr (map (\<lambda>e. listed s b (resolved s e)) es)"
  using es
proof (induction es)
  case (Cons e es)
  from Cons.prems [of e] version_orderD [OF inv] obtain r where "t_get (versions s) (snd e) = Some r" by auto
  with Cons show ?case by (cases e) (simp add: listed_def resolved_def Let_def)
qed simp

lemma versions_entry:
  assumes inv: "index_inv s" and b: "b \<noteq> - 1" and c: "versions_ok (s, b, p, limit) c" and e: "e \<in> set (versions_scan s b p c)"
  shows "ver s (rec_version_id (resolved s e)) = Some (resolved s e) \<and> fst e = version_order_key (resolved s e)
    \<and> rec_bucket (resolved s e) = b \<and> t_get (version_order s) (fst e) = Some (snd e)"
proof -
  have get: "t_get (version_order s) (fst e) = Some (snd e)" and hi: "fst e < prefix_successor (object_prefix b p)"
    using e by (auto simp: versions_scan_def t_range_def t_get_iff)
  from get version_orderD [OF inv] obtain r where r: "t_get (versions s) (snd e) = Some r" "fst e = version_order_key r" by auto
  from version_keyedD [OF inv r(1)] r(1) have v: "ver s (rec_version_id r) = Some r" by simp
  have ext: "\<exists>x. version_order_key r = object_prefix (rec_bucket r) x" for r
    by (simp add: version_order_key_def exact_version_prefix_def object_key_def object_prefix_def)
  obtain x where lo: "object_prefix b x \<le> fst e"
  proof (cases c)
    case None
    with e that [of p] show thesis by (auto simp: versions_scan_def t_range_def)
  next
    case (Some kv)
    with c obtain r' where r': "ver s (snd kv) = Some r'" "rec_bucket r' = b" by (auto simp: versions_ok_def)
    from ext [of r'] r'(2) obtain y where "version_order_key r' @ [0] = object_prefix b (y @ [0])" by (auto simp: object_prefix_def)
    with Some e r'(1) that [of "y @ [0]"] show thesis by (cases kv) (auto simp: versions_scan_def t_range_def)
  qed
  from within_bucket [OF b lo hi] r(2) ext [of r] have "rec_bucket r = b"
    by (auto simp: object_prefix_def prefix_def append_prefix_inject)
  with r v get show ?thesis by (simp add: resolved_def)
qed

lemma list_versions_eq:
  assumes ok: "versions_ok (s, b, p, limit) c"
  shows "versions_page (s, b, p, limit) c =
    (let found = versions_scan s b p c; n = unat limit in
     if n < length found
     then Inr (map (\<lambda>e. listed s b (resolved s e)) (take n found),
               Some (rec_key (resolved s (last (take n found))), rec_version_id (resolved s (last (take n found)))))
     else Inr (map (\<lambda>e. listed s b (resolved s e)) found, None))"
proof -
  let ?F = "versions_scan s b p c" and ?l = "\<lambda>e. listed s b (resolved s e)"
  from ok have i: "index_inv s" "b \<noteq> - 1" and l: "limit \<noteq> 0" "limit \<noteq> - 1" by (simp_all add: versions_ok_def)
  have n: "0 < unat limit" using l(1) by (simp add: unat_gt_0)
  let ?R = "\<lparr>lv_bucket = b, lv_prefix = p, lv_key_marker = map_option fst c, lv_version_id_marker = map_option snd c, lv_limit = limit\<rparr>"
  have start: "version_start s ?R = Inr (case c of None \<Rightarrow> object_prefix b p | Some (k, v) \<Rightarrow> version_order_key (the (ver s v)) @ [0])"
  proof (cases c)
    case (Some kv)
    with ok obtain r where r: "ver s (snd kv) = Some r" "rec_key r = fst kv" "rec_bucket r = b" by (auto simp: versions_ok_def)
    then have "record_matches r b (rec_key r)" by (cases r) simp_all
    with r Some show ?thesis by (cases kv) (simp add: version_start_def)
  qed (simp add: version_start_def)
  have res: "resolve_versions s b (take (Suc (unat limit)) ?F) = Inr (map ?l (take (Suc (unat limit)) ?F))"
    by (rule resolve_versions_all [OF i(1)]) (use versions_entry [OF i ok] in \<open>blast dest: in_set_takeD\<close>)
  have "list_object_versions s ?R =
      (let out = map ?l (take (Suc (unat limit)) ?F) in
       if unat limit < length out then
         Inr \<lparr>page_versions = butlast out,
              next_key_marker = (if butlast out = [] then None else Some (rec_key (listed_record (last (butlast out))))),
              next_version_id_marker = (if butlast out = [] then None else Some (rec_version_id (listed_record (last (butlast out)))))\<rparr>
       else Inr \<lparr>page_versions = out, next_key_marker = None, next_version_id_marker = None\<rparr>)"
    using l(1) res [unfolded versions_scan_def]
    by (simp add: list_object_versions_def start unat_limit [OF l(2)] Let_def versions_scan_def)
  with n show ?thesis
    by (auto simp: versions_page_def Let_def cut_page last_map listed_def simp flip: map_butlast)
qed

interpretation lv: pager versions_page versions_left versions_ok
proof
  fix q c assume ok: "versions_ok q c"
  then obtain s b p limit where q: "q = (s, b, p, limit)" and i: "index_inv s" "b \<noteq> - 1" and l: "limit \<noteq> 0" "limit \<noteq> - 1"
    by (auto simp: versions_ok_def split: prod.splits)
  note page = list_versions_eq [OF ok [unfolded q]]
  let ?F = "versions_scan s b p c" and ?n = "unat limit"
  show "\<exists>xs d. versions_page q c = Inr (xs, d)" by (simp add: q page Let_def)
  show "versions_left q c = xs" if "versions_page q c = Inr (xs, None)" for xs
    using that by (auto simp: q page Let_def versions_left_def split: if_splits)
  show "xs \<noteq> [] \<and> versions_left q c = xs @ versions_left q (Some d) \<and> versions_ok q (Some d)"
    if p: "versions_page q c = Inr (xs, Some d)" for xs d
  proof -
    have n: "0 < ?n" using l(1) by (simp add: unat_gt_0)
    let ?r = "resolved s (last (take ?n ?F))"
    from p have len: "?n < length ?F" and xs: "xs = map (\<lambda>e. listed s b (resolved s e)) (take ?n ?F)"
      and d: "d = (rec_key ?r, rec_version_id ?r)"
      by (auto simp: q page Let_def split: if_splits)
    have "last (take ?n ?F) \<in> set ?F" using n len by (intro in_set_takeD [OF last_in_set]) auto
    from versions_entry [OF i ok [unfolded q] this] have r: "ver s (rec_version_id ?r) = Some ?r" "rec_bucket ?r = b"
      "fst (last (take ?n ?F)) = version_order_key ?r" by simp_all
    have "versions_scan s b p (Some d) = t_range (version_order s) (fst (last (take ?n ?F)) @ [0]) (prefix_successor (object_prefix b p))"
      unfolding versions_scan_def [of s b p "Some d"] r(3) by (simp add: d r(1))
    also have "\<dots> = drop ?n ?F"
      using n len unfolding versions_scan_def by (intro range_resumes) simp_all
    finally have rest: "versions_scan s b p (Some d) = drop ?n ?F" .
    have "versions_ok q (Some d)" using i l r(1,2) by (simp add: q versions_ok_def d)
    with xs n len rest show ?thesis
      by (auto simp: q versions_left_def simp flip: map_append)
  qed
qed

lemma prefix_before_nul: "(0 :: u8) \<notin> set p \<Longrightarrow> prefix p (k @ 0 # r) \<longleftrightarrow> prefix p k"
proof (induction p arbitrary: k)
  case (Cons x p)
  then show ?case by (cases k) auto
qed simp

lemma prefix_after_uuid: "prefix (uuid_bytes b @ p) (uuid_bytes b' @ k) \<longleftrightarrow> b = b' \<and> prefix p k"
  by (auto simp: prefix_def append_prefix_inject)

lemma prefix_of_version:
  "0 \<notin> set p \<Longrightarrow> prefix (object_prefix b p) (version_order_key r) \<longleftrightarrow> rec_bucket r = b \<and> prefix p (rec_key r)"
  by (auto simp: object_prefix_def version_order_key_def exact_version_prefix_def object_key_def prefix_after_uuid prefix_before_nul)

lemma versions_scan_prefix:
  assumes inv: "index_inv s" and b: "b \<noteq> - 1" and p: "0 \<notin> set p"
  shows "set (versions_left (s, b, p, limit) None) = {listed s b r | v r. ver s v = Some r \<and> rec_bucket r = b \<and> prefix p (rec_key r)}"
    and "sorted_wrt (<) (map (\<lambda>l. version_order_key (listed_record l)) (versions_left (s, b, p, limit) None))"
proof -
  let ?F = "versions_scan s b p None"
  have "versions_ok (s, b, p, 1) None" using inv b by (simp add: versions_ok_def)
  note entry = versions_entry [OF inv b this]
  have mem: "(x, v) \<in> set ?F \<longleftrightarrow> t_get (version_order s) x = Some v \<and> prefix (object_prefix b p) x" for x v
    using prefix_range [OF prefix_not_max [OF b, of p], of x] by (auto simp: versions_scan_def set_t_range)
  show "set (versions_left (s, b, p, limit) None) = {listed s b r | v r. ver s v = Some r \<and> rec_bucket r = b \<and> prefix p (rec_key r)}"
  proof (intro set_eqI iffI)
    fix l assume "l \<in> set (versions_left (s, b, p, limit) None)"
    then obtain x v where e: "(x, v) \<in> set ?F" "l = listed s b (resolved s (x, v))" by (auto simp: versions_left_def)
    let ?r = "resolved s (x, v)"
    from entry [OF e(1)] have r: "ver s (rec_version_id ?r) = Some ?r" "x = version_order_key ?r" "rec_bucket ?r = b" by simp_all
    from mem [of x v] e(1) r(2) have "prefix (object_prefix b p) (version_order_key ?r)" by simp
    with r e(2) show "l \<in> {listed s b r | v r. ver s v = Some r \<and> rec_bucket r = b \<and> prefix p (rec_key r)}"
      using prefix_of_version [OF p] by blast
  next
    fix l assume "l \<in> {listed s b r | v r. ver s v = Some r \<and> rec_bucket r = b \<and> prefix p (rec_key r)}"
    then obtain v r where r: "ver s v = Some r" "rec_bucket r = b" "prefix p (rec_key r)" "l = listed s b r" by blast
    then have "(version_order_key r, uuid_bytes v) \<in> set ?F"
      using version_orderD [OF inv] by (auto simp: mem prefix_of_version [OF p])
    with r show "l \<in> set (versions_left (s, b, p, limit) None)" by (force simp: versions_left_def resolved_def)
  qed
  have "map fst ?F = map (\<lambda>e. version_order_key (resolved s e)) ?F" using entry by simp
  then have "sorted_wrt (<) (map (\<lambda>e. version_order_key (resolved s e)) ?F)"
    using t_range_sorted unfolding versions_scan_def by metis
  then show "sorted_wrt (<) (map (\<lambda>l. version_order_key (listed_record l)) (versions_left (s, b, p, limit) None))"
    by (simp add: versions_left_def sorted_wrt_map listed_def)
qed


lemma length_put_entry: "length (put_entry k v xs) \<le> Suc (length xs)"
  by (induction k v xs rule: put_entry.induct) auto

lemma length_insert: "length (t_iter t) \<le> n \<Longrightarrow> length (t_iter (t_insert k v t)) \<le> Suc n"
  using length_put_entry [of k v "t_iter t"] by (simp add: t_insert.rep_eq)


end
