(* ===== verification/References.thy ===== *)
theory References
  imports Listings
begin

text \<open>
  The two listings that the retention report and the orphan collector rest on: the locks, and the payload
  identifiers that the catalog references. Both are pagers; a payload that is missing from the second one
  may be deleted from disk, so that it lists every referenced payload is a safety property.
\<close>

section \<open>Locks\<close>

definition locks_page ::
  "catalog \<times> u64 \<Rightarrow> VersionId option \<Rightarrow> (MetadataError, LockedVersion list \<times> VersionId option) result" where
  "locks_page q c = (case q of (s, limit) \<Rightarrow>
     rbind (list_object_locks s c limit) (\<lambda>page. Inr (page_locked page, page_next_locked page)))"

definition locked :: "catalog \<Rightarrow> bytes \<times> ObjectLockState \<Rightarrow> LockedVersion" where
  "locked s e = (let r = the (t_get (versions s) (fst e)) in
     \<lparr>locked_bucket = rec_bucket r, locked_key = rec_key r, locked_version = rec_version_id r, locked_state = snd e\<rparr>)"

definition locks_scan :: "catalog \<Rightarrow> VersionId option \<Rightarrow> (bytes \<times> ObjectLockState) list" where
  "locks_scan s c = t_from (object_locks s) (case c of None \<Rightarrow> [] | Some v \<Rightarrow> lock_key v @ [0])"

definition locks_left :: "catalog \<times> u64 \<Rightarrow> VersionId option \<Rightarrow> LockedVersion list" where
  "locks_left q c = (case q of (s, limit) \<Rightarrow> map (locked s) (locks_scan s c))"

definition locks_ok :: "catalog \<times> u64 \<Rightarrow> VersionId option \<Rightarrow> bool" where
  "locks_ok q c = (case q of (s, limit) \<Rightarrow> index_inv s \<and> limit \<noteq> 0 \<and> limit \<le> 1000)"

lemma collect_locks_all:
  assumes "\<And>e. e \<in> set es \<Longrightarrow> t_get (versions s) (fst e) \<noteq> None" and "length page \<le> limit" and "0 < limit"
  shows "collect_locks s limit es page =
    (let all = page @ map (locked s) es in
     if limit < length all
     then \<lparr>page_locked = take limit all, page_next_locked = Some (locked_version (last (take limit all)))\<rparr>
     else \<lparr>page_locked = all, page_next_locked = None\<rparr>)"
  using assms
proof (induction es arbitrary: page)
  case (Cons e es)
  obtain k st where e: "e = (k, st)" by (cases e)
  with Cons.prems(1) obtain r where r: "t_get (versions s) k = Some r" by fastforce
  have "(case r of ObjectRecord m n \<Rightarrow> (om_bucket m, om_key m) | MarkerRecord d n \<Rightarrow> (dm_bucket d, dm_key d)) = (rec_bucket r, rec_key r)"
    by (cases r) simp_all
  with r Cons.IH [of "page @ [locked s e]"] Cons.prems show ?case
    by (cases "length page = limit") (auto simp: e locked_def Let_def)
qed (simp add: Let_def)

lemma lock_entry:
  assumes inv: "index_inv s" and e: "t_get (object_locks s) (fst e) = Some (snd e)"
  shows "\<exists>v m n. fst e = lock_key v \<and> ver s v = Some (ObjectRecord m n) \<and> om_version m = v
    \<and> locked s e = \<lparr>locked_bucket = om_bucket m, locked_key = om_key m, locked_version = v, locked_state = snd e\<rparr>"
proof -
  from lock_heldD [OF inv e] obtain m n where r: "t_get (versions s) (fst e) = Some (ObjectRecord m n)" by blast
  with version_keyedD [OF inv r] show ?thesis by (auto simp: lock_key_def locked_def)
qed

lemma list_locks_eq:
  assumes ok: "locks_ok (s, limit) c"
  shows "locks_page (s, limit) c =
    (let found = map (locked s) (locks_scan s c); n = unat limit in
     if n < length found then Inr (take n found, Some (locked_version (last (take n found)))) else Inr (found, None))"
proof -
  from ok have i: "index_inv s" and l: "limit \<noteq> 0" "limit \<le> 1000" by (simp_all add: locks_ok_def)
  have n: "0 < unat limit" using l(1) by (simp add: unat_gt_0)
  have "t_get (versions s) (fst e) \<noteq> None" if "e \<in> set (locks_scan s c)" for e
  proof -
    from that have "t_get (object_locks s) (fst e) = Some (snd e)" by (auto simp: locks_scan_def t_from_def t_get_iff)
    from lock_heldD [OF i this] show ?thesis by auto
  qed
  from collect_locks_all [where page = "[]" and limit = "unat limit", OF this] n l show ?thesis
    by (auto simp: locks_page_def list_object_locks_def locks_scan_def Let_def not_less)
qed

interpretation ll: pager locks_page locks_left locks_ok
proof
  fix q c assume ok: "locks_ok q c"
  then obtain s limit where q: "q = (s, limit)" and i: "index_inv s" and l: "limit \<noteq> 0" "limit \<le> 1000"
    by (auto simp: locks_ok_def split: prod.splits)
  note page = list_locks_eq [OF ok [unfolded q]]
  let ?F = "locks_scan s c" and ?n = "unat limit"
  show "\<exists>xs d. locks_page q c = Inr (xs, d)" by (simp add: q page Let_def)
  show "locks_left q c = xs" if "locks_page q c = Inr (xs, None)" for xs
    using that by (auto simp: q page Let_def locks_left_def split: if_splits)
  show "xs \<noteq> [] \<and> locks_left q c = xs @ locks_left q (Some d) \<and> locks_ok q (Some d)"
    if p: "locks_page q c = Inr (xs, Some d)" for xs d
  proof -
    have n: "0 < ?n" using l(1) by (simp add: unat_gt_0)
    from p have len: "?n < length ?F" and xs: "xs = map (locked s) (take ?n ?F)"
      and d: "d = locked_version (last (map (locked s) (take ?n ?F)))"
      by (auto simp: q page Let_def take_map split: if_splits)
    have ne: "take ?n ?F \<noteq> []" using n len by auto
    have "last (take ?n ?F) \<in> set ?F" using ne by (rule in_set_takeD [OF last_in_set])
    then have "t_get (object_locks s) (fst (last (take ?n ?F))) = Some (snd (last (take ?n ?F)))"
      by (simp add: locks_scan_def t_from_def t_get_iff)
    from lock_entry [OF i this] d ne have "lock_key d = fst (last (take ?n ?F))" by (auto simp: last_map)
    then have "locks_scan s (Some d) = t_from (object_locks s) (fst (last (take ?n ?F)) @ [0])" by (simp add: locks_scan_def)
    also have "\<dots> = drop ?n ?F" using n len unfolding locks_scan_def by (intro from_resumes) simp_all
    finally show ?thesis
      using xs ne i l by (auto simp: q locks_left_def locks_ok_def simp flip: map_append)
  qed
qed

text \<open>
  C15. The report of locks is complete. A client that follows its cursor reads every version that is locked,
  once, with its bucket, its key and its retention and hold.
\<close>

theorem lock_listing_is_complete:
  assumes "admissible cs" and "s = after ext cs" and "limit \<noteq> 0" and "limit \<le> 1000"
    and "length (t_iter (object_locks s)) < n"
  shows "\<exists>ls. walk (locks_page (s, limit)) n None = Some (Inr ls) \<and> distinct (map locked_version ls)
    \<and> set ls = {\<lparr>locked_bucket = om_bucket m, locked_key = om_key m, locked_version = v, locked_state = get_object_lock s v\<rparr> | v m null.
         ver s v = Some (ObjectRecord m null) \<and> \<not> is_unlocked (get_object_lock s v)}"
proof -
  have i: "index_inv s" using books_after [OF assms(1)] assms(2) by (simp add: books_def)
  let ?F = "t_iter (object_locks s)"
  have F: "locks_left (s, limit) None = map (locked s) ?F"
    by (simp add: locks_left_def locks_scan_def t_from_def)
  have entry: "\<exists>v m n. fst e = lock_key v \<and> ver s v = Some (ObjectRecord m n) \<and> om_version m = v
    \<and> locked s e = \<lparr>locked_bucket = om_bucket m, locked_key = om_key m, locked_version = v, locked_state = snd e\<rparr>" if "e \<in> set ?F" for e
    using that by (intro lock_entry [OF i]) (simp add: t_get_iff)
  have "distinct (map (\<lambda>e. lock_key (locked_version (locked s e))) ?F)"
  proof -
    have "map (\<lambda>e. lock_key (locked_version (locked s e))) ?F = map fst ?F" using entry by fastforce
    with distinct_keys [OF t_iter_sorted] show ?thesis by metis
  qed
  then have "distinct (map locked_version (locks_left (s, limit) None))"
    by (auto simp: F distinct_map inj_on_def)
  moreover have "set (locks_left (s, limit) None) =
    {\<lparr>locked_bucket = om_bucket m, locked_key = om_key m, locked_version = v, locked_state = get_object_lock s v\<rparr> | v m null.
         ver s v = Some (ObjectRecord m null) \<and> \<not> is_unlocked (get_object_lock s v)}"
    (is "?L = ?R")
  proof (intro set_eqI iffI)
    fix l assume "l \<in> ?L"
    then obtain e where e: "e \<in> set ?F" "l = locked s e" by (auto simp: F)
    then have g: "t_get (object_locks s) (fst e) = Some (snd e)" by (simp add: t_get_iff)
    from entry [OF e(1)] obtain v m n where v: "fst e = lock_key v" "ver s v = Some (ObjectRecord m n)"
      "l = \<lparr>locked_bucket = om_bucket m, locked_key = om_key m, locked_version = v, locked_state = snd e\<rparr>" using e(2) by auto
    from g v(1) have "get_object_lock s v = snd e" by (simp add: get_object_lock_def)
    with lock_heldD [OF i g] v(2,3) show "l \<in> ?R" by (intro CollectI exI [of _ v] exI [of _ m] exI [of _ n]) simp
  next
    fix l assume "l \<in> ?R"
    then obtain v m n where v: "ver s v = Some (ObjectRecord m n)" "\<not> is_unlocked (get_object_lock s v)"
      "l = \<lparr>locked_bucket = om_bucket m, locked_key = om_key m, locked_version = v, locked_state = get_object_lock s v\<rparr>" by blast
    from v(2) have g: "t_get (object_locks s) (lock_key v) = Some (get_object_lock s v)"
      by (auto simp: get_object_lock_def is_unlocked_def default_lock_def split: option.splits)
    with v version_keyedD [OF i v(1)] have "l = locked s (lock_key v, get_object_lock s v)"
      by (simp add: locked_def lock_key_def)
    with g show "l \<in> ?L" by (auto simp: F t_get_iff)
  qed
  moreover have "walk (locks_page (s, limit)) n None = Some (Inr (locks_left (s, limit) None))"
    using assms(3-5) i F by (intro ll.walk_all) (simp_all add: locks_ok_def)
  ultimately show ?thesis by blast
qed

theorem lock_listing_is_complete_witness:
  "\<exists>ls. walk (locks_page (after sample_ext sample_run, 1)) 2 None = Some (Inr ls) \<and> distinct (map locked_version ls)
    \<and> \<lparr>locked_bucket = 7, locked_key = lit ''a/b'', locked_version = 1, locked_state = sample_lock\<rparr> \<in> set ls"
proof -
  let ?s = "after sample_ext sample_run"
  have n: "length (t_iter (object_locks ?s)) < 2"
    by (simp add: run_eval samples t_insert.rep_eq t_empty.rep_eq)
  have l: "get_object_lock ?s 1 = sample_lock" "\<not> is_unlocked sample_lock"
    using sample_versions(2) by (simp_all add: get_object_lock_def read_object_lock_def sample_lock_def is_unlocked_def)
  from lock_listing_is_complete [OF sample_admissible refl _ _ n, of 1] obtain ls where
    ls: "walk (locks_page (?s, 1)) 2 None = Some (Inr ls)" "distinct (map locked_version ls)"
      "set ls = {\<lparr>locked_bucket = om_bucket m, locked_key = om_key m, locked_version = v, locked_state = get_object_lock ?s v\<rparr> | v m null.
         ver ?s v = Some (ObjectRecord m null) \<and> \<not> is_unlocked (get_object_lock ?s v)}" by auto
  have "\<lparr>locked_bucket = 7, locked_key = lit ''a/b'', locked_version = 1, locked_state = sample_lock\<rparr> \<in> set ls"
    unfolding ls(3) using l sample_versions(1)
    by (intro CollectI exI [of _ 1] exI [of _ "sample_object 1 2000"] exI [of _ False]) (simp add: sample_object_def)
  with ls show ?thesis by blast
qed

section \<open>Payload references\<close>

lemma insort_insert_Nil [simp]: "insort_insert x [] = [x]"
  by (simp add: insort_insert_key_def)

lemma insort_insert_Cons:
  "sorted_wrt (<) (y # ys) \<Longrightarrow>
     insort_insert x (y # ys) = (if x < y then x # y # ys else if x = y then y # ys else y # insort_insert x ys)"
  by (auto simp: insort_insert_key_def not_less dest: order.strict_trans)

lemma insort_insert_cut:
  "sorted_wrt (<) ids \<Longrightarrow> take n (insort_insert x (take n ids)) = take n (insort_insert x ids)"
proof (induction ids arbitrary: n)
  case (Cons y ids)
  show ?case
  proof (cases n)
    case (Suc m)
    have "sorted_wrt (<) (y # take m ids)"
      using Cons.prems by (auto simp: sorted_wrt_take dest: in_set_takeD)
    with Cons Suc show ?thesis by (auto simp: insort_insert_Cons take_Cons')
  qed simp
qed (simp add: take_Cons')

lemma insort_insert_sorted: "sorted_wrt (<) ids \<Longrightarrow> sorted_wrt (<) (insort_insert x ids)"
  by (simp add: strict_sorted_iff sorted_insort_insert distinct_insort_insert)

lemma length_insort_insert: "length (insort_insert x ids) \<le> Suc (length ids)"
  by (simp add: insort_insert_key_def)

text \<open>What the bounded set holds: the least \<open>limit + 1\<close> identifiers above the cursor that were seen.\<close>

definition above :: "ObjectId option \<Rightarrow> ObjectId \<Rightarrow> bool" where
  "above c x = (case c of None \<Rightarrow> True | Some a \<Rightarrow> a < x)"

definition ordered_above :: "ObjectId option \<Rightarrow> ObjectId set \<Rightarrow> ObjectId list" where
  "ordered_above c S = sorted_list_of_set {x \<in> S. above c x}"

lemma collect_references_all:
  assumes "sorted_wrt (<) ids"
  shows "collect_references c limit xs (take (limit + 1) ids) =
     take (limit + 1) (fold (\<lambda>x ids. if above c x then insort_insert x ids else ids) xs ids)"
  using assms
proof (induction xs arbitrary: ids)
  case (Cons x xs)
  have "insert_reference c limit x (take (limit + 1) ids) = take (limit + 1) (if above c x then insort_insert x ids else ids)"
  proof (cases "above c x")
    case True
    let ?i = "insort_insert x (take (limit + 1) ids)"
    have "length ?i \<le> Suc (limit + 1)" using length_insort_insert [of x "take (limit + 1) ids"] by simp
    then have "limit + 1 < length ?i \<Longrightarrow> length ?i - 1 = limit + 1" by simp
    then have cut: "(if limit + 1 < length ?i then butlast ?i else ?i) = take (limit + 1) ?i"
      by (simp only: butlast_conv_take) simp
    have "insert_reference c limit x (take (limit + 1) ids) = (if limit + 1 < length ?i then butlast ?i else ?i)"
      using True by (simp add: insert_reference_def above_def Let_def)
    also have "\<dots> = take (limit + 1) (insort_insert x ids)"
      unfolding cut by (rule insort_insert_cut [OF Cons.prems])
    finally show ?thesis using True by simp
  qed (simp add: insert_reference_def above_def)
  moreover have "sorted_wrt (<) (if above c x then insort_insert x ids else ids)"
    using Cons.prems by (simp add: insort_insert_sorted)
  ultimately show ?case using Cons.IH by simp
qed simp

lemma fold_insort_above:
  "sorted_wrt (<) ids \<Longrightarrow>
     sorted_wrt (<) (fold (\<lambda>x ids. if above c x then insort_insert x ids else ids) xs ids)
     \<and> set (fold (\<lambda>x ids. if above c x then insort_insert x ids else ids) xs ids) = set ids \<union> {x \<in> set xs. above c x}"
proof (induction xs arbitrary: ids)
  case (Cons x xs)
  have "sorted_wrt (<) (if above c x then insort_insert x ids else ids)"
    using Cons.prems by (simp add: insort_insert_sorted)
  from Cons.IH [OF this] show ?case by (auto simp: set_insort_insert)
qed simp

text \<open>The payloads the catalog refers to, and the bounded scan over them.\<close>

definition referenced :: "catalog \<Rightarrow> ObjectId set" where
  "referenced s = {x. payload_referenced s x}"

lemma referenced_sources: "referenced s = set (version_payloads s) \<union> set (map (\<lambda>e. part_object (snd e)) (t_iter (parts s)))"
proof -
  have "x \<in> set (List.map_filter (\<lambda>e. map_option om_id (as_object (snd e))) es) \<longleftrightarrow>
      (\<exists>e \<in> set es. case snd e of ObjectRecord m n \<Rightarrow> om_id m = x | MarkerRecord d n \<Rightarrow> False)"
    for x and es :: "(bytes \<times> ObjectVersionRecord) list"
  proof (induction es)
    case (Cons e es)
    then show ?case by (cases "snd e") (auto simp: List.map_filter_simps)
  qed (simp add: List.map_filter_simps)
  then have "x \<in> set (version_payloads s) \<longleftrightarrow>
      (\<exists>e \<in> set (t_iter (versions s)). case snd e of ObjectRecord m n \<Rightarrow> om_id m = x | MarkerRecord d n \<Rightarrow> False)" for x
    by (simp only: version_payloads_def)
  then show ?thesis by (auto simp: referenced_def payload_referenced_def)
qed

definition references_page ::
  "catalog \<times> u64 \<Rightarrow> ObjectId option \<Rightarrow> (MetadataError, ObjectId list \<times> ObjectId option) result" where
  "references_page q c = (case q of (s, limit) \<Rightarrow>
     rbind (list_payload_references s c limit) (\<lambda>page. Inr (page_object_ids page, next_object_id page)))"

definition references_left :: "catalog \<times> u64 \<Rightarrow> ObjectId option \<Rightarrow> ObjectId list" where
  "references_left q c = (case q of (s, limit) \<Rightarrow> ordered_above c (referenced s))"

definition references_ok :: "catalog \<times> u64 \<Rightarrow> ObjectId option \<Rightarrow> bool" where
  "references_ok q c = (case q of (s, limit) \<Rightarrow> limit \<noteq> 0 \<and> limit \<le> 1000)"

lemma list_references_eq:
  assumes "limit \<noteq> 0" and "limit \<le> 1000"
  shows "references_page (s, limit) c =
    (let found = ordered_above c (referenced s); n = unat limit in
     if n < length found then Inr (take n found, Some (last (take n found))) else Inr (found, None))"
proof -
  let ?add = "\<lambda>x ids. if above c x then insort_insert x ids else ids"
  let ?v = "version_payloads s" and ?p = "map (\<lambda>e. part_object (snd e)) (t_iter (parts s))"
  have n: "0 < unat limit" using assms(1) by (simp add: unat_gt_0)
  have s1: "sorted_wrt (<) (fold ?add ?v [])" "set (fold ?add ?v []) = {x \<in> set ?v. above c x}"
    using fold_insort_above [of "[]" c ?v] by simp_all
  have s2: "sorted_wrt (<) (fold ?add ?p (fold ?add ?v []))" "set (fold ?add ?p (fold ?add ?v [])) = {x \<in> referenced s. above c x}"
    using fold_insort_above [OF s1(1), of c ?p] s1(2) by (auto simp: referenced_sources)
  then have all: "fold ?add ?p (fold ?add ?v []) = ordered_above c (referenced s)"
    unfolding ordered_above_def s2(2) [symmetric]
    by (intro sorted_list_of_set.idem_if_sorted_distinct [symmetric]) (simp_all only: strict_sorted_iff)
  have "collect_references c (unat limit) ?v [] = take (unat limit + 1) (fold ?add ?v [])"
    using collect_references_all [of "[]" c "unat limit" ?v] by simp
  then have "collect_references c (unat limit) ?p (collect_references c (unat limit) ?v []) = take (Suc (unat limit)) (ordered_above c (referenced s))"
    using collect_references_all [OF s1(1), of c "unat limit" ?p] all by simp
  with assms n show ?thesis
    by (auto simp: references_page_def list_payload_references_def Let_def not_less cut_page)
qed

lemma sorted_split_list:
  fixes xs :: "'a::linorder list"
  assumes "sorted_wrt (<) xs" and "0 < n" "n \<le> length xs"
  shows "filter (\<lambda>x. last (take n xs) < x) xs = drop n xs"
proof -
  let ?p = "map (\<lambda>x. (x, ())) xs"
  have ne: "take n xs \<noteq> []" using assms(2,3) by auto
  have "filter (\<lambda>e. fst (last (take n ?p)) < fst e) ?p = drop n ?p"
    using assms by (intro sorted_split) (simp_all add: o_def)
  from arg_cong [OF this, of "map fst"] ne show ?thesis
    by (simp add: filter_map o_def take_map last_map drop_map)
qed

interpretation lr: pager references_page references_left references_ok
proof
  fix q c assume ok: "references_ok q c"
  then obtain s limit where q: "q = (s, limit)" and l: "limit \<noteq> 0" "limit \<le> 1000"
    by (auto simp: references_ok_def split: prod.splits)
  note page = list_references_eq [OF l, of s c]
  let ?F = "ordered_above c (referenced s)" and ?n = "unat limit"
  show "\<exists>xs d. references_page q c = Inr (xs, d)" by (simp add: q page Let_def)
  show "references_left q c = xs" if "references_page q c = Inr (xs, None)" for xs
    using that by (auto simp: q page Let_def references_left_def split: if_splits)
  show "xs \<noteq> [] \<and> references_left q c = xs @ references_left q (Some d) \<and> references_ok q (Some d)"
    if p: "references_page q c = Inr (xs, Some d)" for xs d
  proof -
    have n: "0 < ?n" using l(1) by (simp add: unat_gt_0)
    from p have len: "?n < length ?F" and xs: "xs = take ?n ?F" and d: "d = last (take ?n ?F)"
      by (auto simp: q page Let_def split: if_splits)
    have fin: "finite (referenced s)" by (simp add: referenced_sources)
    have s: "sorted_wrt (<) ?F" by (simp add: ordered_above_def)
    have ne: "take ?n ?F \<noteq> []" using n len by auto
    have "d \<in> set ?F" unfolding d using ne by (rule in_set_takeD [OF last_in_set])
    then have "above c d" using fin by (simp add: ordered_above_def)
    then have "{x \<in> referenced s. above (Some d) x} = {x. d < x} \<inter> {x \<in> referenced s. above c x}"
      by (auto simp: above_def split: option.splits)
    then have "{x \<in> referenced s. above (Some d) x} = set (filter (\<lambda>x. d < x) ?F)"
      using fin by (auto simp: ordered_above_def)
    then have "ordered_above (Some d) (referenced s) = filter (\<lambda>x. d < x) ?F"
      unfolding ordered_above_def [of "Some d"] using s
      by (simp add: sorted_list_of_set.idem_if_sorted_distinct strict_sorted_iff sorted_wrt_filter del: set_filter)
    also have "\<dots> = drop ?n ?F"
      unfolding d using s n len by (intro sorted_split_list) simp_all
    finally show ?thesis
      using xs ne l by (simp add: q references_left_def references_ok_def)
  qed
qed

text \<open>
  C12. The listing of payload references is complete: a client that follows its cursor reads exactly the
  payloads that some version or some uploaded part refers to, in ascending order and each once. A payload
  that the listing leaves out is referenced by nothing.
\<close>

theorem reference_listing_is_complete:
  assumes "limit \<noteq> 0" and "limit \<le> 1000" and "length (t_iter (versions s)) + length (t_iter (parts s)) < n"
  shows "walk (references_page (s, limit)) n None = Some (Inr (sorted_list_of_set {x. payload_referenced s x}))"
proof -
  have "length (version_payloads s) \<le> length (t_iter (versions s))"
    by (simp add: version_payloads_def List.map_filter_def)
  moreover have "card (referenced s) \<le> length (version_payloads s) + length (t_iter (parts s))"
    unfolding referenced_sources by (intro le_trans [OF card_Un_le] add_mono card_length) (metis card_length length_map)
  ultimately have "length (references_left (s, limit) None) < n"
    using assms(3) by (simp add: references_left_def ordered_above_def above_def)
  with assms have "walk (references_page (s, limit)) n None = Some (Inr (references_left (s, limit) None))"
    by (intro lr.walk_all) (simp_all add: references_ok_def)
  then show ?thesis by (simp add: references_left_def ordered_above_def above_def referenced_def)
qed

theorem reference_listing_is_complete_witness:
  "walk (references_page (after sample_ext sample_run, 1)) 3 None
     = Some (Inr (sorted_list_of_set {x. payload_referenced (after sample_ext sample_run) x}))"
proof -
  let ?s = "after sample_ext sample_run"
  have "length (t_iter (versions ?s)) \<le> Suc (Suc 0)" "parts ?s = t_empty"
    by (simp add: run_eval samples, intro length_insert, simp add: t_empty.rep_eq) (simp add: run_eval samples)
  then have "length (t_iter (versions ?s)) + length (t_iter (parts ?s)) < 3" by (simp add: t_empty.rep_eq)
  from reference_listing_is_complete [OF _ _ this, of 1] show ?thesis by simp
qed

section \<open>Starting outside the prefix\<close>

text \<open>
  C19. Which objects a listing returns when it starts after a key \<open>a\<close> of the caller's choice: those after \<open>a\<close>
  that have the prefix, and in addition those after \<open>a\<close> that sort before the prefix. When \<open>a\<close> sorts before the
  prefix the listing is therefore not confined to it.
\<close>

theorem listing_from_before_the_prefix:
  assumes "admissible cs" and "s = after ext cs" and "get_bucket s b \<noteq> None"
    and "limit \<noteq> 0" and "limit \<noteq> - 1" and "length (t_iter (objects s)) < n"
  shows "\<exists>ms. walk (objects_page (s, b, p, limit)) n (Some a) = Some (Inr ms)
    \<and> set ms = {m. \<exists>k. get_object s b k = Some m \<and> a < k \<and> (k < p \<or> prefix p k)}"
proof -
  have i: "index_inv s" using books_after [OF assms(1)] assms(2) by (simp add: books_def)
  have b: "b \<noteq> - 1" using bucketD(2) [OF i, of b] assms(3) by (auto simp: get_bucket_def read_bucket_def)
  let ?F = "objects_scan s b p (Some a)"
  have below: "object_prefix b k < prefix_successor (object_prefix b p) \<longleftrightarrow> k < p \<or> prefix p k" for k
  proof -
    note ff = prefix_not_max [OF b, of p]
    have "object_prefix b k < object_prefix b p \<longleftrightarrow> k < p" by (simp add: object_prefix_def list_less_append_same_length)
    moreover have "object_prefix b p < prefix_successor (object_prefix b p)" using prefix_range [OF ff, of "object_prefix b p"] by simp
    ultimately show ?thesis
      using prefix_range [OF ff, of "object_prefix b k"] prefix_of_object [of b p b k]
      by (auto simp: object_key_def not_less)
  qed
  have mem: "m \<in> set (objects_left (s, b, p, limit) (Some a)) \<longleftrightarrow> (\<exists>k. get_object s b k = Some m \<and> a < k \<and> (k < p \<or> prefix p k))" for m
  proof
    assume "m \<in> set (objects_left (s, b, p, limit) (Some a))"
    then obtain x where x: "(x, m) \<in> set ?F" by (auto simp: objects_left_def)
    with objects_entry [OF i b x] show "\<exists>k. get_object s b k = Some m \<and> a < k \<and> (k < p \<or> prefix p k)"
      by (auto simp: objects_scan_def set_t_range next_key get_object_def object_key_def below)
        (auto simp: object_prefix_def list_less_append_same_length)
  next
    assume "\<exists>k. get_object s b k = Some m \<and> a < k \<and> (k < p \<or> prefix p k)"
    then obtain k where k: "get_object s b k = Some m" "a < k" "k < p \<or> prefix p k" by blast
    have "object_prefix b a < object_prefix b k" using k(2) by (simp add: object_prefix_def list_less_append_same_length)
    with k(1,3) below [of k] have "(object_key b k, m) \<in> set ?F"
      by (simp add: objects_scan_def set_t_range next_key get_object_def object_key_def)
    then show "m \<in> set (objects_left (s, b, p, limit) (Some a))" by (force simp: objects_left_def)
  qed
  have "length (objects_left (s, b, p, limit) (Some a)) < n"
    using assms(6) by (auto simp: objects_left_def objects_scan_def t_range_def intro: le_less_trans [OF length_filter_le])
  moreover have "objects_ok (s, b, p, limit) (Some a)" using i b assms(4,5) by (simp add: objects_ok_def)
  ultimately have "walk (objects_page (s, b, p, limit)) n (Some a) = Some (Inr (objects_left (s, b, p, limit) (Some a)))"
    by (rule lo.walk_all [rotated])
  with mem show ?thesis by blast
qed

theorem listing_from_before_the_prefix_witness:
  "\<exists>ms. walk (objects_page (after sample_ext sample_run, 7, lit ''b'', 1)) 2 (Some (lit ''a'')) = Some (Inr ms)
    \<and> sample_object 2 3000 \<in> set ms \<and> \<not> prefix (lit ''b'') (om_key (sample_object 2 3000))"
proof -
  let ?s = "after sample_ext sample_run"
  have b: "get_bucket ?s 7 \<noteq> None" and n: "length (t_iter (objects ?s)) < 2"
    and g: "get_object ?s 7 (lit ''a/b'') = Some (sample_object 2 3000)"
    by (simp_all add: get_bucket_def get_object_def run_eval samples t_insert.rep_eq t_empty.rep_eq)
  have k: "lit ''a'' < lit ''a/b''" "lit ''a/b'' < lit ''b''" "\<not> prefix (lit ''b'') (om_key (sample_object 2 3000))"
    by (simp_all add: lit_def sample_object_def)
  from listing_from_before_the_prefix [OF sample_admissible refl b _ _ n, of 1 "lit ''b''" "lit ''a''"]
  obtain ms where "walk (objects_page (?s, 7, lit ''b'', 1)) 2 (Some (lit ''a'')) = Some (Inr ms)"
    "set ms = {m. \<exists>k. get_object ?s 7 k = Some m \<and> lit ''a'' < k \<and> (k < lit ''b'' \<or> prefix (lit ''b'') k)}" by auto
  with g k show ?thesis by auto
qed

end
