(* ===== verification/Merkle.thy ===== *)
theory Merkle
  imports Prelude
begin

text \<open>
  The Merkle tree a checkpoint of the audit log commits over
  (\<^verbatim>\<open>crates/record-store-audit/src/merkle.rs\<close>).

  SHA-256 is the parameter \<open>sha\<close>. The tree is built level by level, an odd node rising unchanged, and an
  inclusion path is checked against the length its index must have. The lemmas relate the levels to a
  binary tree: its leaves are the records in order, and the path of a leaf is the path of its position.
  Three properties follow: every path the code builds verifies, different lists of records have different
  roots, and a path that verifies is the path of a record of the tree. The last two hold as long as no two
  of the messages that are hashed collide, which is stated of exactly those messages.
\<close>

section \<open>Hashes\<close>

type_synonym Digest32 = bytes
type_synonym hash = "bytes \<Rightarrow> Digest32"

definition MERKLE_DOMAIN :: bytes where "MERKLE_DOMAIN = lit ''record-store/audit-merkle/v1''"
definition LEAF_PREFIX :: u8 where "LEAF_PREFIX = 0x00"
definition NODE_PREFIX :: u8 where "NODE_PREFIX = 0x01"
definition ROOT_PREFIX :: u8 where "ROOT_PREFIX = 0x02"

definition leaf_hash :: "hash \<Rightarrow> Digest32 \<Rightarrow> Digest32" where
  "leaf_hash sha record_hash = sha (MERKLE_DOMAIN @ [LEAF_PREFIX] @ record_hash)"

definition node_hash :: "hash \<Rightarrow> Digest32 \<Rightarrow> Digest32 \<Rightarrow> Digest32" where
  "node_hash sha left right = sha (MERKLE_DOMAIN @ [NODE_PREFIX] @ left @ right)"

definition root_hash :: "hash \<Rightarrow> Digest32 \<Rightarrow> Digest32" where
  "root_hash sha apex = sha (MERKLE_DOMAIN @ [ROOT_PREFIX] @ apex)"

datatype Side = Left | Right

record PathStep =
  step_side :: Side
  step_hash :: Digest32

record InclusionPath =
  path_index :: u64
  path_steps :: "PathStep list"

section \<open>Building the tree\<close>

text \<open>The pairing of one level, over the operation that joins two children.\<close>

fun pair_up :: "('a \<Rightarrow> 'a \<Rightarrow> 'a) \<Rightarrow> 'a list \<Rightarrow> 'a list" where
  "pair_up join (a # b # level) = join a b # pair_up join level"
| "pair_up join level = level"

definition combine :: "hash \<Rightarrow> Digest32 list \<Rightarrow> Digest32 list" where
  "combine sha level = pair_up (node_hash sha) level"

lemma length_pair_up: "length (pair_up join level) = (length level + 1) div 2"
  by (induction join level rule: pair_up.induct) simp_all

function climb :: "('a \<Rightarrow> 'a \<Rightarrow> 'a) \<Rightarrow> 'a list \<Rightarrow> 'a list" where
  "climb join level = (if 1 < length level then climb join (pair_up join level) else level)"
  by auto

termination climb
  by (relation "measure (\<lambda>(join, level). length level)") (auto simp: length_pair_up)

declare climb.simps [simp del]

definition root :: "hash \<Rightarrow> Digest32 list \<Rightarrow> Digest32 option" where
  "root sha record_hashes =
     (if record_hashes = [] then None
      else case climb (node_hash sha) (map (leaf_hash sha) record_hashes) of
             [] \<Rightarrow> None
           | apex # _ \<Rightarrow> Some (root_hash sha apex))"

section \<open>Paths\<close>

text \<open>\<open>div_ceil(2)\<close> on a \<open>u64\<close>.\<close>

definition half_up :: "u64 \<Rightarrow> u64" where
  "half_up n = n div 2 + n mod 2"

lemma unat_half_up: "unat (half_up n) = (unat n + 1) div 2"
proof -
  have "unat (n div 2) + unat (n mod 2) = (unat n + 1) div 2"
    by (simp add: unat_div unat_mod) arith
  moreover have "unat n < 2 ^ 64" using unsigned_less [of n] by simp
  ultimately show ?thesis
    unfolding half_up_def by (subst unat_add_no_wrap) simp_all
qed

function count_steps :: "u64 \<Rightarrow> u64 \<Rightarrow> nat \<Rightarrow> nat" where
  "count_steps remaining position steps =
     (if 1 < remaining then
        let promoted = (position = remaining - 1 \<and> remaining mod 2 \<noteq> 0);
            steps = (if promoted then steps else steps + 1)
        in count_steps (half_up remaining) (position div 2) steps
      else steps)"
  by auto

termination count_steps
  by (relation "measure (\<lambda>(remaining, position, steps). unat remaining)")
    (auto simp: unat_half_up word_less_nat_alt)

declare count_steps.simps [simp del]

definition path_length :: "u64 \<Rightarrow> u64 \<Rightarrow> nat option" where
  "path_length leaf_count index = (if leaf_count \<le> index then None else Some (count_steps leaf_count index 0))"

text \<open>\<open>level.get\<close> of a position.\<close>

definition get_at :: "'a list \<Rightarrow> nat \<Rightarrow> 'a option" where
  "get_at level i = (if i < length level then Some (level ! i) else None)"

definition sibling_step :: "Digest32 list \<Rightarrow> nat \<Rightarrow> PathStep option" where
  "sibling_step level position =
     (if position mod 2 = 0
      then map_option (\<lambda>h. \<lparr>step_side = Right, step_hash = h\<rparr>) (get_at level (position + 1))
      else map_option (\<lambda>h. \<lparr>step_side = Left, step_hash = h\<rparr>) (get_at level (position - 1)))"

function climb_path :: "hash \<Rightarrow> Digest32 list \<Rightarrow> nat \<Rightarrow> PathStep list" where
  "climb_path sha level position =
     (if 1 < length level then
        (case sibling_step level position of None \<Rightarrow> [] | Some step \<Rightarrow> [step])
        @ climb_path sha (combine sha level) (position div 2)
      else [])"
  by auto

termination climb_path
  by (relation "measure (\<lambda>(sha, level, position). length level)") (auto simp: length_pair_up combine_def)

declare climb_path.simps [simp del]

definition inclusion_path :: "hash \<Rightarrow> Digest32 list \<Rightarrow> nat \<Rightarrow> InclusionPath option" where
  "inclusion_path sha record_hashes index =
     (if length record_hashes \<le> index then None
      else Some \<lparr>path_index = of_nat index,
                 path_steps = climb_path sha (map (leaf_hash sha) record_hashes) index\<rparr>)"

fun fold_steps :: "hash \<Rightarrow> Digest32 \<Rightarrow> PathStep list \<Rightarrow> Digest32" where
  "fold_steps sha current [] = current"
| "fold_steps sha current (step # steps) =
     fold_steps sha
       (case step_side step of
          Left \<Rightarrow> node_hash sha (step_hash step) current
        | Right \<Rightarrow> node_hash sha current (step_hash step)) steps"

definition fold_to_apex :: "hash \<Rightarrow> Digest32 \<Rightarrow> InclusionPath \<Rightarrow> Digest32" where
  "fold_to_apex sha record_hash path = fold_steps sha (leaf_hash sha record_hash) (path_steps path)"

definition root_from_path :: "hash \<Rightarrow> Digest32 \<Rightarrow> InclusionPath \<Rightarrow> u64 \<Rightarrow> Digest32 option" where
  "root_from_path sha record_hash path leaf_count =
     (case path_length leaf_count (path_index path) of
        None \<Rightarrow> None
      | Some n \<Rightarrow>
          if n \<noteq> length (path_steps path) then None
          else Some (root_hash sha (fold_to_apex sha record_hash path)))"

definition verify_inclusion :: "hash \<Rightarrow> Digest32 \<Rightarrow> InclusionPath \<Rightarrow> Digest32 \<Rightarrow> u64 \<Rightarrow> bool" where
  "verify_inclusion sha record_hash path expected_root leaf_count =
     (case root_from_path sha record_hash path leaf_count of
        None \<Rightarrow> False
      | Some computed \<Rightarrow> computed = expected_root)"

section \<open>The levels as a tree\<close>

datatype tree = Leaf Digest32 | Node tree tree

fun leaves :: "tree \<Rightarrow> Digest32 list" where
  "leaves (Leaf r) = [r]"
| "leaves (Node l r) = leaves l @ leaves r"

fun thash :: "hash \<Rightarrow> tree \<Rightarrow> Digest32" where
  "thash sha (Leaf r) = leaf_hash sha r"
| "thash sha (Node l r) = node_hash sha (thash sha l) (thash sha r)"

text \<open>Every leaf with the steps from it to the top.\<close>

fun paths :: "hash \<Rightarrow> tree \<Rightarrow> (Digest32 \<times> PathStep list) set" where
  "paths sha (Leaf r) = {(r, [])}"
| "paths sha (Node l r) =
     (\<lambda>(h, s). (h, s @ [\<lparr>step_side = Right, step_hash = thash sha r\<rparr>])) ` paths sha l
     \<union> (\<lambda>(h, s). (h, s @ [\<lparr>step_side = Left, step_hash = thash sha l\<rparr>])) ` paths sha r"

definition merkle_tree :: "Digest32 list \<Rightarrow> tree" where
  "merkle_tree hs = hd (climb Node (map Leaf hs))"

lemma map_pair_up: "(\<And>a b. h (f a b) = g (h a) (h b)) \<Longrightarrow> map h (pair_up f xs) = pair_up g (map h xs)"
  by (induction f xs rule: pair_up.induct) simp_all

lemma map_climb: "(\<And>a b. h (f a b) = g (h a) (h b)) \<Longrightarrow> map h (climb f xs) = climb g (map h xs)"
proof (induction f xs rule: climb.induct)
  case (1 f xs)
  then show ?case
    by (subst climb.simps, subst (2) climb.simps) (simp add: map_pair_up [of h f g])
qed

lemma pair_up_Nil [simp]: "pair_up f xs = [] \<longleftrightarrow> xs = []"
  by (cases "(f, xs)" rule: pair_up.cases) auto

lemma length_climb: "xs \<noteq> [] \<Longrightarrow> length (climb f xs) = 1"
proof (induction f xs rule: climb.induct)
  case (1 f xs)
  with 1 show ?case by (subst climb.simps) (cases xs, auto)
qed

lemma concat_leaves_pair_up: "concat (map leaves (pair_up Node ts)) = concat (map leaves ts)"
  by (induction Node ts rule: pair_up.induct) simp_all

lemma concat_leaves_climb: "concat (map leaves (climb Node ts)) = concat (map leaves ts)"
proof (induction Node ts rule: climb.induct)
  case (1 ts)
  then show ?case by (subst climb.simps) (simp add: concat_leaves_pair_up)
qed

lemma climb_tree:
  assumes "hs \<noteq> []"
  shows "climb Node (map Leaf hs) = [merkle_tree hs]"
    and "leaves (merkle_tree hs) = hs"
    and "root sha hs = Some (root_hash sha (thash sha (merkle_tree hs)))"
proof -
  have "length (climb Node (map Leaf hs)) = 1" using assms by (intro length_climb) simp
  then show c: "climb Node (map Leaf hs) = [merkle_tree hs]"
    by (cases "climb Node (map Leaf hs)") (simp_all add: merkle_tree_def)
  have "concat (map leaves (climb Node (map Leaf hs))) = hs" by (simp add: concat_leaves_climb o_def)
  with c show "leaves (merkle_tree hs) = hs" by simp
  have "climb (node_hash sha) (map (leaf_hash sha) hs) = map (thash sha) (climb Node (map Leaf hs))"
    by (simp add: map_climb [of "thash sha" Node "node_hash sha"] o_def)
  with c assms show "root sha hs = Some (root_hash sha (thash sha (merkle_tree hs)))" by (simp add: root_def)
qed

lemma nth_pair_up:
  "q < length (pair_up f xs) \<Longrightarrow>
     pair_up f xs ! q = (if 2 * q + 1 < length xs then f (xs ! (2 * q)) (xs ! (2 * q + 1)) else xs ! (2 * q))"
proof (induction f xs arbitrary: q rule: pair_up.induct)
  case (1 f a b xs)
  then show ?case by (cases q) simp_all
qed auto

text \<open>The step a position contributes at one level, and the node it rises to.\<close>

lemma rises:
  assumes p: "p < length ts" and s: "(h, s) \<in> paths sha (ts ! p)"
  shows "(h, s @ (case sibling_step (map (thash sha) ts) p of None \<Rightarrow> [] | Some x \<Rightarrow> [x]))
    \<in> paths sha (pair_up Node ts ! (p div 2))"
proof -
  have q: "p div 2 < length (pair_up Node ts)" using p by (simp add: length_pair_up)
  show ?thesis
  proof (cases "p mod 2 = 0")
    case True
    then have "2 * (p div 2) = p" by presburger
    with True s p show ?thesis
      by (auto simp: nth_pair_up [OF q] sibling_step_def get_at_def)
  next
    case False
    then have "2 * (p div 2) = p - 1" "2 * (p div 2) + 1 = p" by presburger+
    with False s p show ?thesis
      by (force simp: nth_pair_up [OF q] sibling_step_def get_at_def)
  qed
qed

lemma descends:
  assumes q: "q < length (pair_up Node ts)" and s: "(h, s) \<in> paths sha (pair_up Node ts ! q)"
  shows "\<exists>p < length ts. p div 2 = q \<and> (\<exists>s0. (h, s0) \<in> paths sha (ts ! p)
    \<and> s = s0 @ (case sibling_step (map (thash sha) ts) p of None \<Rightarrow> [] | Some x \<Rightarrow> [x]))"
proof (cases "2 * q + 1 < length ts")
  case True
  with s consider s0 where "(h, s0) \<in> paths sha (ts ! (2 * q))" "s = s0 @ [\<lparr>step_side = Right, step_hash = thash sha (ts ! (2 * q + 1))\<rparr>]"
    | s0 where "(h, s0) \<in> paths sha (ts ! (2 * q + 1))" "s = s0 @ [\<lparr>step_side = Left, step_hash = thash sha (ts ! (2 * q))\<rparr>]"
    by (auto simp: nth_pair_up [OF q])
  then show ?thesis
  proof cases
    case 1
    with True show ?thesis by (intro exI [of _ "2 * q"]) (auto simp: sibling_step_def get_at_def)
  next
    case 2
    with True show ?thesis by (intro exI [of _ "2 * q + 1"]) (auto simp: sibling_step_def get_at_def)
  qed
next
  case False
  moreover have "2 * q < length ts" using q by (simp add: length_pair_up)
  ultimately show ?thesis
    using s by (intro exI [of _ "2 * q"]) (auto simp: nth_pair_up [OF q] sibling_step_def get_at_def)
qed

lemma combine_trees: "combine sha (map (thash sha) ts) = map (thash sha) (pair_up Node ts)"
  by (simp add: combine_def map_pair_up [of "thash sha" Node "node_hash sha"])

lemma apex_paths:
  assumes "ts \<noteq> []"
  shows "(h, s) \<in> paths sha (hd (climb Node ts)) \<longleftrightarrow>
    (\<exists>p < length ts. \<exists>s0. (h, s0) \<in> paths sha (ts ! p) \<and> s = s0 @ climb_path sha (map (thash sha) ts) p)"
  using assms
proof (induction Node ts arbitrary: s rule: climb.induct)
  case (1 ts)
  show ?case
  proof (cases "1 < length ts")
    case True
    let ?up = "pair_up Node ts" and ?sib = "\<lambda>p. case sibling_step (map (thash sha) ts) p of None \<Rightarrow> [] | Some x \<Rightarrow> [x]"
    have ne: "?up \<noteq> []" using True by auto
    have step: "climb_path sha (map (thash sha) ts) p = ?sib p @ climb_path sha (map (thash sha) ?up) (p div 2)" for p
      using True by (subst climb_path.simps) (simp add: combine_trees)
    have "(h, s) \<in> paths sha (hd (climb Node ts)) \<longleftrightarrow>
      (\<exists>q < length ?up. \<exists>s1. (h, s1) \<in> paths sha (?up ! q) \<and> s = s1 @ climb_path sha (map (thash sha) ?up) q)"
      using 1(1) [OF True ne] True by (subst climb.simps) simp
    also have "\<dots> \<longleftrightarrow> (\<exists>p < length ts. \<exists>s0. (h, s0) \<in> paths sha (ts ! p) \<and> s = s0 @ climb_path sha (map (thash sha) ts) p)"
    proof
      assume "\<exists>q < length ?up. \<exists>s1. (h, s1) \<in> paths sha (?up ! q) \<and> s = s1 @ climb_path sha (map (thash sha) ?up) q"
      then obtain q s1 where q: "q < length ?up" "(h, s1) \<in> paths sha (?up ! q)" "s = s1 @ climb_path sha (map (thash sha) ?up) q" by blast
      from descends [OF q(1,2)] q(3) show "\<exists>p < length ts. \<exists>s0. (h, s0) \<in> paths sha (ts ! p) \<and> s = s0 @ climb_path sha (map (thash sha) ts) p"
        unfolding step by force
    next
      assume "\<exists>p < length ts. \<exists>s0. (h, s0) \<in> paths sha (ts ! p) \<and> s = s0 @ climb_path sha (map (thash sha) ts) p"
      then obtain p s0 where p: "p < length ts" "(h, s0) \<in> paths sha (ts ! p)" "s = s0 @ climb_path sha (map (thash sha) ts) p" by blast
      from rises [OF p(1,2)] p(1,3) show "\<exists>q < length ?up. \<exists>s1. (h, s1) \<in> paths sha (?up ! q) \<and> s = s1 @ climb_path sha (map (thash sha) ?up) q"
        unfolding step by (intro exI [of _ "p div 2"]) (auto simp: length_pair_up)
    qed
    finally show ?thesis .
  next
    case False
    with 1(2) have "length ts = 1" by (cases ts) auto
    then show ?thesis by (subst climb.simps, subst climb_path.simps) (cases ts, auto)
  qed
qed

lemma tree_paths:
  assumes "hs \<noteq> []"
  shows "(h, s) \<in> paths sha (merkle_tree hs) \<longleftrightarrow>
    (\<exists>i < length hs. h = hs ! i \<and> s = climb_path sha (map (leaf_hash sha) hs) i)"
  using apex_paths [of "map Leaf hs" h s sha] assms by (auto simp: merkle_tree_def o_def)

section \<open>Completeness\<close>

lemma fold_steps_append: "fold_steps sha x (s @ t) = fold_steps sha (fold_steps sha x s) t"
  by (induction s arbitrary: x) simp_all

lemma fold_paths: "(h, s) \<in> paths sha t \<Longrightarrow> fold_steps sha (leaf_hash sha h) s = thash sha t"
  by (induction t arbitrary: s) (auto simp: fold_steps_append)

lemma count_steps_climb:
  assumes "unat remaining = length level" and "unat position = p" and "p < length level"
  shows "count_steps remaining position k = k + length (climb_path sha level p)"
  using assms
proof (induction sha level p arbitrary: remaining position k rule: climb_path.induct)
  case (1 sha level p)
  show ?case
  proof (cases "1 < length level")
    case True
    have big: "1 < remaining" using True 1(2) by (simp add: word_less_nat_alt)
    have last: "position = remaining - 1 \<longleftrightarrow> p = length level - 1"
      using big 1(2,3) by (simp add: word_unat_eq_iff unat_sub word_le_nat_alt word_less_nat_alt)
    have odd: "remaining mod 2 \<noteq> 0 \<longleftrightarrow> odd (length level)"
      using 1(2) by (simp add: word_unat_eq_iff unat_mod odd_iff_mod_2_eq_one)
    have sib: "length (case sibling_step level p of None \<Rightarrow> [] | Some x \<Rightarrow> [x]) = (if p = length level - 1 \<and> odd (length level) then 0 else 1)"
      using 1(4) True by (auto simp: sibling_step_def get_at_def split: if_splits) presburger+
    have len: "length (combine sha level) = (length level + 1) div 2" by (simp add: combine_def length_pair_up)
    have "count_steps (half_up remaining) (position div 2) k' = k' + length (climb_path sha (combine sha level) (p div 2))" for k'
      using 1(2-4) True by (intro 1(1)) (auto simp: unat_half_up len unat_div)
    moreover have "count_steps remaining position k = count_steps (half_up remaining) (position div 2)
        (if p = length level - 1 \<and> odd (length level) then k else k + 1)"
      by (subst count_steps.simps) (simp only: big if_True Let_def last odd)
    moreover have "length (climb_path sha level p) =
        length (case sibling_step level p of None \<Rightarrow> [] | Some x \<Rightarrow> [x]) + length (climb_path sha (combine sha level) (p div 2))"
      using True by (subst climb_path.simps) simp
    ultimately show ?thesis unfolding sib by simp
  next
    case False
    then have "\<not> 1 < remaining" using 1(2) by (simp add: word_less_nat_alt)
    with False show ?thesis by (subst count_steps.simps, subst climb_path.simps) simp
  qed
qed

lemma path_length_climb:
  assumes "length hs < 2 ^ 64" and "i < length hs"
  shows "path_length (of_nat (length hs)) (of_nat i) = Some (length (climb_path sha (map (leaf_hash sha) hs) i))"
proof -
  have u: "unat (of_nat n :: u64) = n" if "n < 2 ^ 64" for n
    using that by (simp add: unsigned_of_nat take_bit_nat_eq_self)
  have "count_steps (of_nat (length hs)) (of_nat i) 0 = length (climb_path sha (map (leaf_hash sha) hs) i)"
    using assms by (subst count_steps_climb) (auto simp: u)
  with assms show ?thesis by (simp add: path_length_def word_le_nat_alt u)
qed

text \<open>
  C31. Every inclusion path that the code builds verifies against the root it builds from the same records,
  for every number of records and every position. Nothing is assumed of the hash function.
\<close>

theorem built_paths_verify:
  assumes "inclusion_path sha hs i = Some path" and "root sha hs = Some r" and "length hs < 2 ^ 64"
  shows "verify_inclusion sha (hs ! i) path r (of_nat (length hs))"
proof -
  from assms(1) have i: "i < length hs"
    and path: "path = \<lparr>path_index = of_nat i, path_steps = climb_path sha (map (leaf_hash sha) hs) i\<rparr>"
    by (auto simp: inclusion_path_def split: if_splits)
  then have ne: "hs \<noteq> []" by auto
  have "(hs ! i, path_steps path) \<in> paths sha (merkle_tree hs)"
    using i path by (auto simp: tree_paths [OF ne])
  from fold_paths [OF this] have "fold_to_apex sha (hs ! i) path = thash sha (merkle_tree hs)"
    by (simp add: fold_to_apex_def)
  with path_length_climb [OF assms(3) i, of sha] path climb_tree(3) [OF ne, of sha] assms(2) show ?thesis
    by (simp add: verify_inclusion_def root_from_path_def)
qed

section \<open>Binding\<close>

definition leaf_message :: "Digest32 \<Rightarrow> bytes" where
  "leaf_message r = MERKLE_DOMAIN @ [LEAF_PREFIX] @ r"

definition node_message :: "Digest32 \<Rightarrow> Digest32 \<Rightarrow> bytes" where
  "node_message l r = MERKLE_DOMAIN @ [NODE_PREFIX] @ l @ r"

definition root_message :: "Digest32 \<Rightarrow> bytes" where
  "root_message a = MERKLE_DOMAIN @ [ROOT_PREFIX] @ a"

text \<open>The messages hashed to build the root of a list of records, and to check a path.\<close>

fun subtree_messages :: "hash \<Rightarrow> tree \<Rightarrow> bytes set" where
  "subtree_messages sha (Leaf r) = {leaf_message r}"
| "subtree_messages sha (Node l r) =
     insert (node_message (thash sha l) (thash sha r)) (subtree_messages sha l \<union> subtree_messages sha r)"

definition tree_messages :: "hash \<Rightarrow> Digest32 list \<Rightarrow> bytes set" where
  "tree_messages sha hs = insert (root_message (thash sha (merkle_tree hs))) (subtree_messages sha (merkle_tree hs))"

fun step_message :: "Digest32 \<Rightarrow> PathStep \<Rightarrow> bytes" where
  "step_message x st = (case step_side st of Left \<Rightarrow> node_message (step_hash st) x | Right \<Rightarrow> node_message x (step_hash st))"

fun step_messages :: "hash \<Rightarrow> Digest32 \<Rightarrow> PathStep list \<Rightarrow> bytes set" where
  "step_messages sha x [] = {}"
| "step_messages sha x (st # s) = insert (step_message x st) (step_messages sha (sha (step_message x st)) s)"

definition path_messages :: "hash \<Rightarrow> Digest32 \<Rightarrow> InclusionPath \<Rightarrow> bytes set" where
  "path_messages sha h path =
     insert (leaf_message h) (insert (root_message (fold_to_apex sha h path)) (step_messages sha (leaf_hash sha h) (path_steps path)))"

lemmas messages = leaf_message_def node_message_def root_message_def LEAF_PREFIX_def NODE_PREFIX_def ROOT_PREFIX_def

lemma hash_messages:
  "leaf_hash sha r = sha (leaf_message r)" "node_hash sha a b = sha (node_message a b)" "root_hash sha a = sha (root_message a)"
  by (simp_all add: leaf_hash_def node_hash_def root_hash_def leaf_message_def node_message_def root_message_def)

lemma fold_steps_snoc:
  "fold_steps sha x (s @ [st]) = sha (step_message (fold_steps sha x s) st)"
  by (simp add: fold_steps_append hash_messages split: Side.split)

lemma step_messages_append:
  "step_messages sha x (s @ t) = step_messages sha x s \<union> step_messages sha (fold_steps sha x s) t"
proof (induction s arbitrary: x)
  case (Cons st s)
  then show ?case by (cases "step_side st") (simp_all add: hash_messages)
qed simp

lemma message_disjoint:
  "leaf_message r \<noteq> node_message a b" "leaf_message r \<noteq> step_message x st" "root_message a = root_message b \<longleftrightarrow> a = b"
  "leaf_message r = leaf_message r' \<longleftrightarrow> r = r'"
  by (simp_all add: messages split: Side.split)

lemma node_message_inject:
  "length a = length c \<or> length b = length d \<Longrightarrow> node_message a b = node_message c d \<longleftrightarrow> a = c \<and> b = d"
  by (auto simp: messages append_eq_append_conv)

lemma length_thash: "(\<And>m. length (sha m) = 32) \<Longrightarrow> length (thash sha t) = 32"
  by (cases t) (simp_all add: hash_messages)

lemma length_folded: "(\<And>m. length (sha m) = 32) \<Longrightarrow> length (fold_steps sha (leaf_hash sha h) s) = 32"
  by (induction s rule: rev_induct) (simp_all add: fold_steps_snoc hash_messages)

text \<open>A digest determines the tree under it.\<close>

lemma thash_inject:
  assumes len: "\<And>m. length (sha m) = 32" and inj: "inj_on sha (subtree_messages sha t \<union> subtree_messages sha u)"
    and eq: "thash sha t = thash sha u"
  shows "t = u"
  using inj eq
proof (induction t arbitrary: u)
  case (Leaf r)
  show ?case
  proof (cases u)
    case (Leaf r')
    have "leaf_message r = leaf_message r'"
      by (rule inj_onD [OF Leaf.prems(1)]) (use Leaf.prems(2) Leaf in \<open>simp_all add: hash_messages\<close>)
    with Leaf show ?thesis by (simp add: message_disjoint)
  next
    case (Node c d)
    have "leaf_message r = node_message (thash sha c) (thash sha d)"
      by (rule inj_onD [OF Leaf.prems(1)]) (use Leaf.prems(2) Node in \<open>simp_all add: hash_messages\<close>)
    then show ?thesis by (simp add: message_disjoint)
  qed
next
  case (Node a b)
  show ?case
  proof (cases u)
    case (Leaf r)
    have "node_message (thash sha a) (thash sha b) = leaf_message r"
      by (rule inj_onD [OF Node.prems(1)]) (use Node.prems(2) Leaf in \<open>simp_all add: hash_messages\<close>)
    then show ?thesis using message_disjoint(1) by metis
  next
    case (Node c d)
    have "node_message (thash sha a) (thash sha b) = node_message (thash sha c) (thash sha d)"
      by (rule inj_onD [OF Node.prems(1)]) (use Node.prems(2) Node in \<open>simp_all add: hash_messages\<close>)
    then have eqs: "thash sha a = thash sha c" "thash sha b = thash sha d"
      using length_thash [where t = a, OF len] length_thash [where t = c, OF len] by (simp_all add: node_message_inject)
    have "inj_on sha (subtree_messages sha a \<union> subtree_messages sha c)" "inj_on sha (subtree_messages sha b \<union> subtree_messages sha d)"
      using Node by (intro inj_on_subset [OF Node.prems(1)], auto)+
    from Node.IH(1) [OF this(1) eqs(1)] Node.IH(2) [OF this(2) eqs(2)] Node show ?thesis by simp
  qed
qed

text \<open>A path that folds to the digest of a tree is one of its paths.\<close>

lemma folded_paths:
  assumes len: "\<And>m. length (sha m) = 32"
    and inj: "inj_on sha (insert (leaf_message h) (subtree_messages sha t \<union> step_messages sha (leaf_hash sha h) s))"
    and eq: "fold_steps sha (leaf_hash sha h) s = thash sha t"
  shows "(h, s) \<in> paths sha t"
  using inj eq
proof (induction t arbitrary: s)
  case (Leaf r)
  show ?case
  proof (cases s rule: rev_cases)
    case Nil
    have "leaf_message h = leaf_message r" by (rule inj_onD [OF Leaf(1)]) (use Leaf Nil in \<open>simp_all add: hash_messages\<close>)
    with Nil show ?thesis by (simp add: message_disjoint)
  next
    case (snoc s' st)
    have "step_message (fold_steps sha (leaf_hash sha h) s') st = leaf_message r"
      by (rule inj_onD [OF Leaf(1)]) (use Leaf snoc in \<open>simp_all add: fold_steps_snoc hash_messages step_messages_append\<close>)
    then show ?thesis using message_disjoint(2) by metis
  qed
next
  case (Node a b)
  show ?case
  proof (cases s rule: rev_cases)
    case Nil
    have "leaf_message h = node_message (thash sha a) (thash sha b)"
      by (rule inj_onD [OF Node.prems(1)]) (use Node.prems(2) Nil in \<open>simp_all add: hash_messages\<close>)
    then show ?thesis by (simp add: message_disjoint)
  next
    case (snoc s' st)
    let ?x = "fold_steps sha (leaf_hash sha h) s'"
    have m: "step_message ?x st = node_message (thash sha a) (thash sha b)"
      by (rule inj_onD [OF Node.prems(1)]) (use Node.prems(2) snoc in \<open>simp_all add: fold_steps_snoc hash_messages step_messages_append\<close>)
    have l: "length ?x = 32" "length (thash sha a) = 32" "length (thash sha b) = 32"
      using length_folded [OF len] length_thash [OF len] by simp_all
    have sub: "inj_on sha (insert (leaf_message h) (subtree_messages sha c \<union> step_messages sha (leaf_hash sha h) s'))"
      if "c = a \<or> c = b" for c
      using that snoc by (intro inj_on_subset [OF Node.prems(1)]) (auto simp: step_messages_append)
    show ?thesis
    proof (cases "step_side st")
      case Left
      with m l have "step_hash st = thash sha a" "?x = thash sha b" by (simp_all add: node_message_inject)
      with Node.IH(2) [of s'] sub snoc Left show ?thesis by (cases st) force
    next
      case Right
      with m l have "step_hash st = thash sha b" "?x = thash sha a" by (simp_all add: node_message_inject)
      with Node.IH(1) [of s'] sub snoc Right show ?thesis by (cases st) force
    qed
  qed
qed

text \<open>
  C32. A root commits to its records: two lists of records with the same root are the same list, with the same
  length and order, unless two of the messages hashed to build the two trees collide.
\<close>

theorem root_commits_to_records:
  assumes "\<And>m. length (sha m) = 32" and "inj_on sha (tree_messages sha hs \<union> tree_messages sha ks)"
    and "root sha hs = Some r" and "root sha ks = Some r"
  shows "hs = ks"
proof -
  have ne: "hs \<noteq> []" "ks \<noteq> []" using assms(3,4) by (auto simp: root_def)
  let ?t = "merkle_tree hs" and ?u = "merkle_tree ks"
  have "sha (root_message (thash sha ?t)) = sha (root_message (thash sha ?u))"
    using climb_tree(3) [OF ne(1), of sha] climb_tree(3) [OF ne(2), of sha] assms(3,4) by (simp add: hash_messages)
  then have "root_message (thash sha ?t) = root_message (thash sha ?u)"
    by (rule inj_onD [OF assms(2)]) (simp_all add: tree_messages_def)
  then have eq: "thash sha ?t = thash sha ?u" by (simp add: message_disjoint)
  have "inj_on sha (subtree_messages sha ?t \<union> subtree_messages sha ?u)"
    by (rule inj_on_subset [OF assms(2)]) (auto simp: tree_messages_def)
  from thash_inject [OF assms(1) this eq] climb_tree(2) [OF ne(1)] climb_tree(2) [OF ne(2)] show ?thesis by metis
qed

text \<open>
  C30. A path that verifies is genuine: the record is one of the tree's records, and the steps are the steps
  the code builds for a position that holds it, unless two of the messages hashed to build the tree and to
  check the path collide. The position is the one the steps lead to; the index the path carries is only
  checked through the number of steps.
\<close>

theorem verified_path_is_genuine:
  assumes "\<And>m. length (sha m) = 32" and "inj_on sha (tree_messages sha hs \<union> path_messages sha h path)"
    and "root sha hs = Some r" and "verify_inclusion sha h path r n"
  shows "\<exists>i < length hs. hs ! i = h \<and> map_option path_steps (inclusion_path sha hs i) = Some (path_steps path)"
proof -
  have ne: "hs \<noteq> []" using assms(3) by (auto simp: root_def)
  let ?t = "merkle_tree hs"
  have "sha (root_message (fold_to_apex sha h path)) = sha (root_message (thash sha ?t))"
    using assms(3,4) climb_tree(3) [OF ne, of sha]
    by (simp add: verify_inclusion_def root_from_path_def hash_messages split: option.splits if_splits)
  then have "root_message (fold_to_apex sha h path) = root_message (thash sha ?t)"
    by (rule inj_onD [OF assms(2)]) (simp_all add: tree_messages_def path_messages_def)
  then have eq: "fold_steps sha (leaf_hash sha h) (path_steps path) = thash sha ?t"
    by (simp add: message_disjoint fold_to_apex_def)
  have "inj_on sha (insert (leaf_message h) (subtree_messages sha ?t \<union> step_messages sha (leaf_hash sha h) (path_steps path)))"
    by (rule inj_on_subset [OF assms(2)]) (auto simp: tree_messages_def path_messages_def)
  from folded_paths [OF assms(1) this eq] obtain i where "i < length hs" "h = hs ! i"
    "path_steps path = climb_path sha (map (leaf_hash sha) hs) i" by (auto simp: tree_paths [OF ne])
  then show ?thesis by (intro exI [of _ i]) (simp add: inclusion_path_def)
qed

section \<open>A small tree\<close>

definition sample_sha :: hash where
  "sample_sha m = replicate 29 0 @ [m ! 28, m ! 60, last m]"

definition sample_records :: "Digest32 list" where
  "sample_records = map (replicate 32) [1, 2, 5]"

lemma length_sample_sha: "length (sample_sha m) = 32"
  by (simp add: sample_sha_def)

lemma sample_tree:
  "merkle_tree sample_records = Node (Node (Leaf (replicate 32 1)) (Leaf (replicate 32 2))) (Leaf (replicate 32 5))"
  by (simp add: merkle_tree_def sample_records_def climb.simps)

lemma sample_root: "root sample_sha sample_records = Some (root_hash sample_sha (thash sample_sha (merkle_tree sample_records)))"
  by (rule climb_tree(3)) (simp add: sample_records_def)

theorem built_paths_verify_witness:
  "verify_inclusion sample_sha (sample_records ! 1) (the (inclusion_path sample_sha sample_records 1))
     (the (root sample_sha sample_records)) 3"
  unfolding sample_root option.sel
  using built_paths_verify [OF _ sample_root, of 1 "the (inclusion_path sample_sha sample_records 1)"]
  by (simp add: inclusion_path_def sample_records_def)

definition sample_messages :: "bytes list" where
  "sample_messages = (let a = leaf_message (replicate 32 1); b = leaf_message (replicate 32 2); c = leaf_message (replicate 32 5);
     ab = node_message (sample_sha a) (sample_sha b); abc = node_message (sample_sha ab) (sample_sha c)
     in [a, b, c, ab, abc, root_message (sample_sha abc)])"

lemma sample_messages_tree: "tree_messages sample_sha sample_records = set sample_messages"
  by (auto simp: tree_messages_def sample_tree sample_messages_def hash_messages Let_def)

lemma sample_collision_free: "inj_on sample_sha (set sample_messages)"
proof -
  have "distinct (map sample_sha sample_messages)" by code_simp
  then show ?thesis by (simp add: distinct_map)
qed

theorem root_commits_to_records_witness:
  "root sample_sha sample_records \<noteq> None \<and> sample_records = map (replicate 32) [1, 2, 5]"
proof -
  have "inj_on sample_sha (tree_messages sample_sha sample_records \<union> tree_messages sample_sha (map (replicate 32) [1, 2, 5]))"
    using sample_collision_free unfolding sample_records_def [symmetric] sample_messages_tree by simp
  moreover have "root sample_sha (map (replicate 32) [1, 2, 5]) = root sample_sha sample_records" by (simp only: sample_records_def)
  ultimately show ?thesis
    using root_commits_to_records [OF length_sample_sha _ sample_root] sample_root by simp
qed

theorem verified_path_is_genuine_witness:
  "\<exists>i. i < length sample_records \<and> sample_records ! i = replicate 32 2
     \<and> map_option path_steps (inclusion_path sample_sha sample_records i)
       = map_option path_steps (inclusion_path sample_sha sample_records 1)"
proof -
  let ?path = "the (inclusion_path sample_sha sample_records 1)" and ?h = "sample_records ! 1"
  let ?r = "root_hash sample_sha (thash sample_sha (merkle_tree sample_records))"
  have "verify_inclusion sample_sha ?h ?path ?r 3" by code_simp
  moreover have "path_messages sample_sha ?h ?path \<subseteq> set sample_messages" by code_simp
  then have "inj_on sample_sha (tree_messages sample_sha sample_records \<union> path_messages sample_sha ?h ?path)"
    using sample_collision_free by (simp add: sample_messages_tree Un_absorb2)
  ultimately have "\<exists>i < length sample_records. sample_records ! i = ?h
      \<and> map_option path_steps (inclusion_path sample_sha sample_records i) = Some (path_steps ?path)"
    by (intro verified_path_is_genuine [OF length_sample_sha _ sample_root])
  then show ?thesis by (auto simp: sample_records_def inclusion_path_def)
qed

end
