(* ===== verification/Audit_Records.thy ===== *)
theory Audit_Records
  imports Domain Bytes Merkle
begin

text \<open>
  Audit events, their canonical bytes and their hashes
  (\<^verbatim>\<open>crates/record-store-audit/src/{lib,canonical,chain,checkpoint,intent}.rs\<close>).

  The hash of a record covers its canonical bytes, so that a hash stands for one event rests on the
  encoding: every variable part carries its length and every optional part its presence. The encoding is
  injective on events whose parts are shorter than four gigabytes, up to the part of a timestamp below a
  microsecond, which it leaves out. The preimage of a checkpoint is injective as well.
\<close>

section \<open>Events\<close>

datatype AuditResult = Success | Denied | Failure | Attempted

record AuditEvent =
  ae_event_id :: uuid
  ae_timestamp :: datetime
  ae_request_id :: "str option"
  ae_principal :: str
  ae_credential_id :: "uuid option"
  ae_source_ip :: "str option"
  ae_operation :: str
  ae_resource :: str
  ae_result :: AuditResult
  ae_metadata :: "(str, str) table"

section \<open>Canonical bytes\<close>

definition CANONICAL_VERSION :: u16 where "CANONICAL_VERSION = 1"
definition RECORD_DOMAIN :: bytes where "RECORD_DOMAIN = lit ''record-store/audit-record/v1''"

fun canonical_tag :: "AuditResult \<Rightarrow> u8" where
  "canonical_tag Success = 0"
| "canonical_tag Denied = 1"
| "canonical_tag Failure = 2"
| "canonical_tag Attempted = 3"

text \<open>\<open>u32::try_from(n).unwrap_or(u32::MAX)\<close>.\<close>

definition length_u32 :: "nat \<Rightarrow> nat" where
  "length_u32 n = (if n < 2 ^ 32 then n else 2 ^ 32 - 1)"

definition put_bytes :: "bytes \<Rightarrow> bytes" where
  "put_bytes value = be_bytes 4 (length_u32 (length value)) @ value"

definition put_str :: "str \<Rightarrow> bytes" where
  "put_str value = put_bytes value"

definition put_optional_str :: "str option \<Rightarrow> bytes" where
  "put_optional_str value = (case value of Some v \<Rightarrow> [1] @ put_str v | None \<Rightarrow> [0])"

text \<open>\<open>i64::to_be_bytes\<close> of a count of microseconds.\<close>

definition micros_bytes :: "datetime \<Rightarrow> bytes" where
  "micros_bytes t = be_bytes 8 (unat (word_of_int (timestamp_micros t) :: u64))"

definition put_metadata :: "(str \<times> str) list \<Rightarrow> bytes" where
  "put_metadata entries = concat (map (\<lambda>(k, v). put_str k @ put_str v) entries)"

definition canonical_bytes :: "AuditEvent \<Rightarrow> bytes" where
  "canonical_bytes event =
     be_bytes 2 (unat CANONICAL_VERSION)
     @ uuid_bytes (ae_event_id event)
     @ micros_bytes (ae_timestamp event)
     @ put_optional_str (ae_request_id event)
     @ put_str (ae_principal event)
     @ (case ae_credential_id event of Some i \<Rightarrow> [1] @ uuid_bytes i | None \<Rightarrow> [0])
     @ put_optional_str (ae_source_ip event)
     @ put_str (ae_operation event)
     @ put_str (ae_resource event)
     @ [canonical_tag (ae_result event)]
     @ be_bytes 4 (length_u32 (length (t_iter (ae_metadata event))))
     @ put_metadata (t_iter (ae_metadata event))"

section \<open>Record hashes\<close>

definition GENESIS_DOMAIN :: bytes where "GENESIS_DOMAIN = lit ''record-store/audit-genesis/v1''"

definition genesis_hash :: "hash \<Rightarrow> Digest32" where
  "genesis_hash sha = sha GENESIS_DOMAIN"

definition record_hash :: "hash \<Rightarrow> u64 \<Rightarrow> Digest32 \<Rightarrow> bytes \<Rightarrow> Digest32" where
  "record_hash sha sequence previous canonical =
     sha (RECORD_DOMAIN @ be_bytes 8 (unat sequence) @ previous @ canonical)"

definition hash_event :: "hash \<Rightarrow> u64 \<Rightarrow> Digest32 \<Rightarrow> AuditEvent \<Rightarrow> Digest32" where
  "hash_event sha sequence previous event = record_hash sha sequence previous (canonical_bytes event)"

record ChainLinks =
  previous_hash :: Digest32
  link_hash :: Digest32

record AuditRecord =
  ar_sequence :: u64
  ar_chain :: "ChainLinks option"
  ar_event :: AuditEvent

datatype RecordVerdict = Intact | ContentChanged | BrokenLink | Unchained | Missing

fun verdict_label :: "RecordVerdict \<Rightarrow> str" where
  "verdict_label Intact = lit ''intact''"
| "verdict_label ContentChanged = lit ''content changed''"
| "verdict_label BrokenLink = lit ''broken link to the previous record''"
| "verdict_label Unchained = lit ''predates the hash chain''"
| "verdict_label Missing = lit ''record is missing from the log''"

definition verify_against :: "hash \<Rightarrow> AuditRecord \<Rightarrow> Digest32 \<Rightarrow> RecordVerdict" where
  "verify_against sha record previous =
     (case ar_chain record of
        None \<Rightarrow> Unchained
      | Some links \<Rightarrow>
          if previous_hash links \<noteq> previous then BrokenLink
          else if hash_event sha (ar_sequence record) previous (ar_event record) = link_hash links then Intact
          else ContentChanged)"

section \<open>Checkpoints\<close>

datatype AuditError =
    AuditDirectory str
  | AuditEncoding str
  | AuditDatabase str str
  | AuditTask str
  | InvalidLimit
  | InvalidDigest
  | InvalidExportFormat
  | InvalidExportRange
  | EmptyCheckpoint
  | CheckpointLeafCount u64 u64 u64 u64

definition CHECKPOINT_VERSION :: u16 where "CHECKPOINT_VERSION = 1"
definition CHECKPOINT_DOMAIN :: bytes where "CHECKPOINT_DOMAIN = lit ''record-store/audit-checkpoint/v1''"
definition CHECKPOINT_GENESIS_DOMAIN :: bytes where
  "CHECKPOINT_GENESIS_DOMAIN = lit ''record-store/audit-checkpoint-genesis/v1''"

definition checkpoint_genesis_hash :: "hash \<Rightarrow> Digest32" where
  "checkpoint_genesis_hash sha = sha CHECKPOINT_GENESIS_DOMAIN"

record Checkpoint =
  cp_sequence :: u64
  cp_from_sequence :: u64
  cp_to_sequence :: u64
  cp_leaf_count :: u64
  cp_root :: Digest32
  cp_previous :: Digest32

definition checkpoint_new ::
  "u64 \<Rightarrow> u64 \<Rightarrow> u64 \<Rightarrow> u64 \<Rightarrow> Digest32 \<Rightarrow> Digest32 \<Rightarrow> (AuditError, Checkpoint) result" where
  "checkpoint_new sequence from to leaf_count tree_root previous =
     (if leaf_count = 0 \<or> to < from then Inl EmptyCheckpoint
      else
        let covered = to - from + 1
        in if covered \<noteq> leaf_count then Inl (CheckpointLeafCount from to covered leaf_count)
           else Inr \<lparr>cp_sequence = sequence, cp_from_sequence = from, cp_to_sequence = to,
                     cp_leaf_count = leaf_count, cp_root = tree_root, cp_previous = previous\<rparr>)"

definition preimage :: "Checkpoint \<Rightarrow> bytes" where
  "preimage c =
     CHECKPOINT_DOMAIN @ be_bytes 2 (unat CHECKPOINT_VERSION)
     @ be_bytes 8 (unat (cp_sequence c)) @ be_bytes 8 (unat (cp_from_sequence c))
     @ be_bytes 8 (unat (cp_to_sequence c)) @ be_bytes 8 (unat (cp_leaf_count c))
     @ cp_root c @ cp_previous c"

definition checkpoint_hash :: "hash \<Rightarrow> Checkpoint \<Rightarrow> Digest32" where
  "checkpoint_hash sha c = sha (preimage c)"

definition checkpoint_covers :: "Checkpoint \<Rightarrow> u64 \<Rightarrow> bool" where
  "checkpoint_covers c sequence \<longleftrightarrow> cp_from_sequence c \<le> sequence \<and> sequence \<le> cp_to_sequence c"

section \<open>Intents and outcomes\<close>

definition INTENT_EVENT_ID :: str where "INTENT_EVENT_ID = lit ''intent_event_id''"

definition method_mutates :: "str \<Rightarrow> bool" where
  "method_mutates m \<longleftrightarrow> m \<notin> {lit ''GET'', lit ''HEAD'', lit ''OPTIONS'', lit ''TRACE''}"

text \<open>A fresh identifier and the wall clock are arguments.\<close>

definition intent_event ::
  "uuid \<Rightarrow> datetime \<Rightarrow> str option \<Rightarrow> str \<Rightarrow> uuid option \<Rightarrow> str option \<Rightarrow> str \<Rightarrow> str \<Rightarrow> AuditEvent" where
  "intent_event fresh now request who credential address op res =
     \<lparr>ae_event_id = fresh, ae_timestamp = now, ae_request_id = request, ae_principal = who,
      ae_credential_id = credential, ae_source_ip = address, ae_operation = op,
      ae_resource = res, ae_result = Attempted, ae_metadata = t_empty\<rparr>"

definition outcome_event :: "(uuid \<Rightarrow> str) \<Rightarrow> uuid \<Rightarrow> datetime \<Rightarrow> AuditEvent \<Rightarrow> AuditResult \<Rightarrow> AuditEvent" where
  "outcome_event uuid_text fresh now intent result =
     intent\<lparr>ae_event_id := fresh, ae_timestamp := now, ae_result := result,
       ae_metadata := t_insert INTENT_EVENT_ID (uuid_text (ae_event_id intent)) (ae_metadata intent)\<rparr>"

definition result_for_status :: "u16 \<Rightarrow> AuditResult" where
  "result_for_status status =
     (if status = 401 \<or> status = 403 then Denied
      else if 200 \<le> status \<and> status \<le> 299 then Success
      else Failure)"

section \<open>The encoding is injective\<close>

definition short :: "'a list \<Rightarrow> bool" where
  "short xs \<longleftrightarrow> length xs < 2 ^ 32"

definition encodable :: "AuditEvent \<Rightarrow> bool" where
  "encodable e \<longleftrightarrow> list_all short [ae_principal e, ae_operation e, ae_resource e]
     \<and> pred_option short (ae_request_id e) \<and> pred_option short (ae_source_ip e)
     \<and> short (t_iter (ae_metadata e)) \<and> list_all (\<lambda>(k, v). short k \<and> short v) (t_iter (ae_metadata e))
     \<and> - (2 ^ 63) \<le> timestamp_micros (ae_timestamp e) \<and> timestamp_micros (ae_timestamp e) < 2 ^ 63"

lemma put_str_inject: "short v \<Longrightarrow> short w \<Longrightarrow> put_str v @ x = put_str w @ y \<longleftrightarrow> v = w \<and> x = y"
  by (auto simp: put_str_def put_bytes_def short_def length_u32_def be_bytes_inject)

lemma put_optional_str_inject:
  "pred_option short v \<Longrightarrow> pred_option short w \<Longrightarrow> put_optional_str v @ x = put_optional_str w @ y \<longleftrightarrow> v = w \<and> x = y"
  by (cases v; cases w) (simp_all add: put_optional_str_def put_str_inject)

lemma uuid_bytes_append: "uuid_bytes u @ x = uuid_bytes v @ y \<longleftrightarrow> u = v \<and> x = y"
  by (simp add: append_prefix_inject)

lemma put_metadata_inject:
  assumes "list_all (\<lambda>(k, v). short k \<and> short v) xs" and "list_all (\<lambda>(k, v). short k \<and> short v) ys"
    and "length xs = length ys" and "put_metadata xs = put_metadata ys"
  shows "xs = ys"
  using assms(3,1,2,4)
  by (induction xs ys rule: list_induct2) (auto simp: put_metadata_def put_str_inject)

lemma micros_bytes_inject:
  assumes "- (2 ^ 63) \<le> timestamp_micros t" "timestamp_micros t < 2 ^ 63" "- (2 ^ 63) \<le> timestamp_micros u" "timestamp_micros u < 2 ^ 63"
  shows "micros_bytes t @ x = micros_bytes u @ y \<longleftrightarrow> timestamp_micros t = timestamp_micros u \<and> x = y"
proof -
  have "(word_of_int (timestamp_micros t) :: u64) = word_of_int (timestamp_micros u) \<longleftrightarrow> timestamp_micros t = timestamp_micros u"
    (is "?l \<longleftrightarrow> ?a = ?b")
  proof
    assume ?l
    then have "?a mod 2 ^ 64 = ?b mod 2 ^ 64" by (simp add: word_of_int_eq_iff take_bit_eq_mod)
    then obtain k where "?a - ?b = 2 ^ 64 * k" unfolding mod_eq_dvd_iff by (auto elim: dvdE)
    with assms have "2 ^ 64 * k < 2 ^ 64 * 1" "2 ^ 64 * (- 1) < 2 ^ 64 * k" by simp_all
    then have "k = 0" unfolding mult_less_cancel_left by simp
    with \<open>?a - ?b = 2 ^ 64 * k\<close> show "?a = ?b" by simp
  qed simp
  moreover have "be_bytes 8 (unat a) @ x = be_bytes 8 (unat b) @ y \<longleftrightarrow> a = b \<and> x = y" for a b :: u64
    using unat_lt_256_pow [of 8 a] unat_lt_256_pow [of 8 b] by (simp add: be_bytes_inject word_unat_eq_iff)
  ultimately show ?thesis by (simp add: micros_bytes_def)
qed

lemma canonical_tag_inject: "canonical_tag a = canonical_tag b \<longleftrightarrow> a = b"
  by (cases a; cases b) simp_all

definition same_event :: "AuditEvent \<Rightarrow> AuditEvent \<Rightarrow> bool" where
  "same_event e e' \<longleftrightarrow> e\<lparr>ae_timestamp := 0\<rparr> = e'\<lparr>ae_timestamp := 0\<rparr> \<and> timestamp_micros (ae_timestamp e) = timestamp_micros (ae_timestamp e')"

lemma canonical_bytes_inject:
  assumes "encodable e" and "encodable e'" and "canonical_bytes e = canonical_bytes e'"
  shows "same_event e e'"
proof -
  have cred: "(case c of Some i \<Rightarrow> [1] @ uuid_bytes i | None \<Rightarrow> [0]) @ x = (case d of Some i \<Rightarrow> [1] @ uuid_bytes i | None \<Rightarrow> [0]) @ y \<longleftrightarrow> c = d \<and> x = y"
    for c d :: "uuid option" and x y :: bytes
    by (cases c; cases d) (simp_all add: uuid_bytes_append)
  have count: "be_bytes 4 (length_u32 (length (t_iter (ae_metadata e)))) @ x = be_bytes 4 (length_u32 (length (t_iter (ae_metadata e')))) @ y
      \<longleftrightarrow> length (t_iter (ae_metadata e)) = length (t_iter (ae_metadata e')) \<and> x = y" for x y
    using assms(1,2) by (simp add: encodable_def short_def length_u32_def be_bytes_inject)
  from assms have eqs: "ae_event_id e = ae_event_id e'" "timestamp_micros (ae_timestamp e) = timestamp_micros (ae_timestamp e')"
    "ae_request_id e = ae_request_id e'" "ae_principal e = ae_principal e'" "ae_credential_id e = ae_credential_id e'"
    "ae_source_ip e = ae_source_ip e'" "ae_operation e = ae_operation e'" "ae_resource e = ae_resource e'"
    "ae_result e = ae_result e'" "length (t_iter (ae_metadata e)) = length (t_iter (ae_metadata e'))"
    "put_metadata (t_iter (ae_metadata e)) = put_metadata (t_iter (ae_metadata e'))"
    by (simp_all add: canonical_bytes_def encodable_def append_prefix_inject uuid_bytes_append micros_bytes_inject
        put_optional_str_inject put_str_inject cred count canonical_tag_inject)
  then have "t_iter (ae_metadata e) = t_iter (ae_metadata e')"
    using assms(1,2) by (intro put_metadata_inject) (simp_all add: encodable_def)
  then have "ae_metadata e = ae_metadata e'" by (simp add: t_iter_inject)
  with eqs show ?thesis by (cases e; cases e') (simp add: same_event_def)
qed

text \<open>
  C33. The canonical bytes determine the event. Two events with the same canonical bytes agree in every field,
  and their timestamps agree to the microsecond.
\<close>

theorem canonical_bytes_determine_the_event:
  assumes "encodable e" and "encodable e'" and "canonical_bytes e = canonical_bytes e'"
  shows "e\<lparr>ae_timestamp := 0\<rparr> = e'\<lparr>ae_timestamp := 0\<rparr> \<and> timestamp_micros (ae_timestamp e) = timestamp_micros (ae_timestamp e')"
  using canonical_bytes_inject [OF assms] by (simp add: same_event_def)

definition sample_event :: "uuid \<Rightarrow> datetime \<Rightarrow> AuditEvent" where
  "sample_event u t = intent_event u t (Some (lit ''r-1'')) (lit ''alice'') None None (lit ''PUT'') (lit ''/records/a'')"

lemma sample_encodable: "0 \<le> t \<Longrightarrow> t < 1000000 \<Longrightarrow> encodable (sample_event u t)"
  by (simp add: encodable_def sample_event_def intent_event_def short_def t_empty.rep_eq lit_def timestamp_micros_def) arith

theorem canonical_bytes_determine_the_event_witness:
  "(sample_event 1 5100)\<lparr>ae_timestamp := 0\<rparr> = (sample_event 1 5900)\<lparr>ae_timestamp := 0\<rparr>
   \<and> timestamp_micros 5100 = timestamp_micros 5900"
proof -
  have "canonical_bytes (sample_event 1 5100) = canonical_bytes (sample_event 1 5900)"
    by (simp add: canonical_bytes_def sample_event_def intent_event_def micros_bytes_def timestamp_micros_def)
  from canonical_bytes_determine_the_event [OF sample_encodable sample_encodable this] show ?thesis
    by (simp add: sample_event_def intent_event_def)
qed

text \<open>
  C34. A checkpoint commits to exactly the range it names. One is only made for a range that is not empty and
  whose number of sequences is the number of leaves, without wrap-around, and two checkpoints with the same
  preimage are the same.
\<close>

theorem checkpoint_commits_to_its_range:
  assumes "checkpoint_new n from to leaf_count tree_root previous = Inr c"
  shows "unat leaf_count = card {q. checkpoint_covers c q} \<and> 0 < unat leaf_count
    \<and> (\<forall>d. length (cp_root d) = 32 \<and> length tree_root = 32 \<and> preimage d = preimage c \<longrightarrow> d = c)"
proof -
  from assms have c: "c = \<lparr>cp_sequence = n, cp_from_sequence = from, cp_to_sequence = to, cp_leaf_count = leaf_count, cp_root = tree_root, cp_previous = previous\<rparr>"
    and le: "from \<le> to" "leaf_count \<noteq> 0" and l: "leaf_count = to - from + 1"
    by (auto simp: checkpoint_new_def Let_def not_less split: if_splits)
  have span: "unat (to - from) = unat to - unat from" using le(1) by (rule unat_sub_no_wrap)
  have "unat (to - from) + 1 < 2 ^ 64"
  proof (rule ccontr)
    assume "\<not> ?thesis"
    then have "unat (to - from) = unat (- 1 :: u64)"
      using unat_lt_256_pow [of 8 "to - from"] by (simp add: unsigned_minus_1_eq_mask mask_eq_exp_minus_1)
    then have "to - from = - 1" by (simp only: word_unat_eq_iff)
    with l le(2) show False by simp
  qed
  then have count: "unat leaf_count = unat to - unat from + 1" unfolding l span [symmetric] by (subst unat_add_no_wrap) simp_all
  have "{q. checkpoint_covers c q} = of_nat ` {unat from..unat to}"
  proof (intro set_eqI iffI)
    fix q assume "q \<in> {q. checkpoint_covers c q}"
    then show "q \<in> of_nat ` {unat from..unat to}"
      by (intro image_eqI [of _ _ "unat q"]) (simp_all add: checkpoint_covers_def c word_le_nat_alt)
  next
    fix q :: u64 assume "q \<in> of_nat ` {unat from..unat to}"
    then obtain k where k: "q = of_nat k" "unat from \<le> k" "k \<le> unat to" by auto
    then have "unat q = k" using unat_lt_256_pow [of 8 to] by (simp add: unsigned_of_nat take_bit_nat_eq_self)
    with k show "q \<in> {q. checkpoint_covers c q}" by (simp add: checkpoint_covers_def c word_le_nat_alt)
  qed
  moreover have "inj_on (of_nat :: nat \<Rightarrow> u64) {unat from..unat to}"
  proof (rule inj_on_inverseI [of _ unat])
    fix k assume "k \<in> {unat from..unat to}"
    then show "unat (of_nat k :: u64) = k" using unat_lt_256_pow [of 8 to] by (simp add: unsigned_of_nat take_bit_nat_eq_self)
  qed
  moreover have "unat from \<le> unat to" using le(1) by (simp add: word_le_nat_alt)
  ultimately have "card {q. checkpoint_covers c q} = unat leaf_count" using count by (simp add: card_image)
  moreover have "be_bytes 8 (unat a) = be_bytes 8 (unat b) \<longleftrightarrow> a = b" for a b :: u64
    using unat_lt_256_pow [of 8 a] unat_lt_256_pow [of 8 b] by (simp add: be_bytes_inject word_unat_eq_iff)
  then have "d = c" if "length (cp_root d) = 32" "length tree_root = 32" "preimage d = preimage c" for d
    using that by (cases d) (simp add: preimage_def c)
  ultimately show ?thesis using count by simp
qed

theorem checkpoint_commits_to_its_range_witness:
  "card {q. checkpoint_covers \<lparr>cp_sequence = 0, cp_from_sequence = 4, cp_to_sequence = 6, cp_leaf_count = 3,
     cp_root = replicate 32 1, cp_previous = []\<rparr> q} = 3"
proof -
  have "checkpoint_new 0 4 6 3 (replicate 32 1) [] = Inr \<lparr>cp_sequence = 0, cp_from_sequence = 4, cp_to_sequence = 6, cp_leaf_count = 3,
     cp_root = replicate 32 1, cp_previous = []\<rparr>" by (simp add: checkpoint_new_def)
  from checkpoint_commits_to_its_range [OF this] show ?thesis by simp
qed

end
