(* ===== verification/Audit_Log.thy ===== *)
theory Audit_Log
  imports Audit_Records
begin

text \<open>
  The audit log (\<^verbatim>\<open>crates/record-store-audit/src/lib.rs\<close>): the append of one event, the batches of the writer,
  and the verification that walks the hash chain.

  The log is its three tables. A stored value is a record of the chain or, when it predates the chain, a
  bare event. The lemmas say what a log built by appends looks like (\<open>logged\<close>); the properties are that
  verification accepts every such log, and that two logs that both verify and end in the same hash hold the
  same events.
\<close>

section \<open>State\<close>

datatype stored = Chained AuditRecord | Bare AuditEvent

record audit_log =
  log_events :: "(bytes, stored) table"
  log_index :: "(u64, bytes) table"
  log_state :: "(str, bytes) table"

definition empty_log :: audit_log where
  "empty_log = \<lparr>log_events = t_empty, log_index = t_empty, log_state = t_empty\<rparr>"

definition NEXT_SEQUENCE :: str where "NEXT_SEQUENCE = lit ''next_sequence''"
definition HEAD_HASH :: str where "HEAD_HASH = lit ''head_hash''"

definition time_prefix :: "datetime \<Rightarrow> bytes" where
  "time_prefix time = be_bytes 8 (unat (word_of_int (max (timestamp_micros time) 0) :: u64))"

definition event_key_parts :: "datetime \<Rightarrow> uuid \<Rightarrow> bytes" where
  "event_key_parts time i = time_prefix time @ uuid_bytes i"

definition event_key :: "AuditEvent \<Rightarrow> bytes" where
  "event_key event = event_key_parts (ae_timestamp event) (ae_event_id event)"

fun decode_stored :: "stored \<Rightarrow> AuditRecord" where
  "decode_stored (Chained record) = record"
| "decode_stored (Bare event) = \<lparr>ar_sequence = 0, ar_chain = None, ar_event = event\<rparr>"

definition read_chain_head :: "hash \<Rightarrow> audit_log \<Rightarrow> (AuditError, u64 \<times> Digest32) result" where
  "read_chain_head sha log =
     rbind (case t_get (log_state log) NEXT_SEQUENCE of
              None \<Rightarrow> Inr 0
            | Some v \<Rightarrow>
                if length v = 8 then Inr (of_nat (be_value v))
                else Inl (AuditDatabase (lit ''decode audit sequence'') (lit ''sequence is not eight bytes''))) (\<lambda>next.
     rbind (case t_get (log_state log) HEAD_HASH of
              None \<Rightarrow> Inr (genesis_hash sha)
            | Some v \<Rightarrow>
                if length v = 32 then Inr v
                else Inl (AuditDatabase (lit ''decode audit chain head'') (lit ''head is not thirty-two bytes''))) (\<lambda>head.
     Inr (next, head)))"

section \<open>Appending\<close>

definition append_in :: "hash \<Rightarrow> audit_log \<Rightarrow> AuditEvent \<Rightarrow> (AuditError, audit_log) result" where
  "append_in sha log event =
     (let key = event_key event
      in rbind (read_chain_head sha log) (\<lambda>(sequence, previous).
         let digest = hash_event sha sequence previous event;
             record = \<lparr>ar_sequence = sequence, ar_chain = Some \<lparr>previous_hash = previous, link_hash = digest\<rparr>,
                       ar_event = event\<rparr>
         in if t_get (log_events log) key \<noteq> None
            then Inl (AuditDatabase (lit ''append event'')
                        (lit ''an audit record with this identifier and timestamp already exists''))
            else
              let log = log\<lparr>log_events := t_insert key (Chained record) (log_events log)\<rparr>;
                  log = log\<lparr>log_index := t_insert sequence key (log_index log)\<rparr>;
                  log = log\<lparr>log_state := t_insert NEXT_SEQUENCE (be_bytes 8 (unat (saturating_add sequence 1))) (log_state log)\<rparr>;
                  log = log\<lparr>log_state := t_insert HEAD_HASH digest (log_state log)\<rparr>
              in Inr log))"

fun append_all :: "hash \<Rightarrow> audit_log \<Rightarrow> AuditEvent list \<Rightarrow> (AuditError, audit_log) result" where
  "append_all sha log [] = Inr log"
| "append_all sha log (e # es) = rbind (append_in sha log e) (\<lambda>log. append_all sha log es)"

text \<open>
  One transaction around \<open>body\<close>. The engine is a parameter: a fault says whether beginning or committing the
  transaction fails and with which message. A transaction that does not commit leaves the log as it was.
\<close>

type_synonym fault = "str option \<times> str option"

definition log_transaction :: "fault \<Rightarrow> (audit_log \<Rightarrow> (AuditError, audit_log) result) \<Rightarrow> audit_log \<Rightarrow> (AuditError, audit_log) result" where
  "log_transaction fault body log =
     (case fst fault of
        Some e \<Rightarrow> Inl (AuditDatabase (lit ''begin append'') e)
      | None \<Rightarrow>
          rbind (body log) (\<lambda>log'.
          case snd fault of
            Some e \<Rightarrow> Inl (AuditDatabase (lit ''commit event'') e)
          | None \<Rightarrow> Inr log'))"

text \<open>\<open>faults n\<close> is the fault of the n-th transaction; both functions return the number of the next one.\<close>

fun append_each ::
  "hash \<Rightarrow> (nat \<Rightarrow> fault) \<Rightarrow> nat \<Rightarrow> audit_log \<Rightarrow> AuditEvent list \<Rightarrow> (AuditError, unit) result list \<times> audit_log \<times> nat" where
  "append_each sha faults n log [] = ([], log, n)"
| "append_each sha faults n log (e # es) =
     (let (reply, log) = (case log_transaction (faults n) (\<lambda>log. append_in sha log e) log of
                            Inl err \<Rightarrow> (Inl err, log) | Inr log' \<Rightarrow> (Inr (), log'));
          (replies, log, n) = append_each sha faults (n + 1) log es
      in (reply # replies, log, n))"

definition commit_appends ::
  "hash \<Rightarrow> (nat \<Rightarrow> fault) \<Rightarrow> nat \<Rightarrow> audit_log \<Rightarrow> AuditEvent list \<Rightarrow> (AuditError, unit) result list \<times> audit_log \<times> nat" where
  "commit_appends sha faults n log batch =
     (case log_transaction (faults n) (\<lambda>log. append_all sha log batch) log of
        Inr log' \<Rightarrow> (map (\<lambda>_. Inr ()) batch, log', n + 1)
      | Inl err \<Rightarrow> if length batch = 1 then ([Inl err], log, n + 1) else append_each sha faults (n + 1) log batch)"

section \<open>Verification\<close>

definition MAXIMUM_CHAIN_PROBLEMS :: nat where "MAXIMUM_CHAIN_PROBLEMS = 100"

record ChainProblem =
  problem_sequence :: u64
  problem_verdict :: str

record ChainVerification =
  cv_from_sequence :: u64
  cv_checked :: u64
  cv_intact :: u64
  cv_unchained :: u64
  cv_next_sequence :: "u64 option"
  cv_head_sequence :: "u64 option"
  cv_problems :: "ChainProblem list"

definition load_record :: "audit_log \<Rightarrow> u64 \<Rightarrow> AuditRecord option" where
  "load_record log sequence =
     (case t_get (log_index log) sequence of
        None \<Rightarrow> None
      | Some key \<Rightarrow> map_option decode_stored (t_get (log_events log) key))"

definition note_verdict :: "u64 \<Rightarrow> RecordVerdict \<Rightarrow> ChainVerification \<Rightarrow> ChainVerification" where
  "note_verdict sequence verdict v =
     (case verdict of
        Intact \<Rightarrow> v\<lparr>cv_intact := cv_intact v + 1\<rparr>
      | Unchained \<Rightarrow> v\<lparr>cv_unchained := cv_unchained v + 1\<rparr>
      | _ \<Rightarrow>
          if length (cv_problems v) < MAXIMUM_CHAIN_PROBLEMS
          then v\<lparr>cv_problems := cv_problems v @ [\<lparr>problem_sequence = sequence, problem_verdict = verdict_label verdict\<rparr>]\<rparr>
          else v)"

text \<open>The loop, with the number of records it may still examine.\<close>

fun walk_chain :: "hash \<Rightarrow> audit_log \<Rightarrow> u64 option \<Rightarrow> nat \<Rightarrow> u64 \<Rightarrow> Digest32 \<Rightarrow> ChainVerification \<Rightarrow> u64 \<times> ChainVerification" where
  "walk_chain sha log head 0 sequence previous v = (sequence, v)"
| "walk_chain sha log head (Suc n) sequence previous v =
     (case head of
        None \<Rightarrow> (sequence, v)
      | Some h \<Rightarrow>
          if h < sequence then (sequence, v)
          else
            let v = v\<lparr>cv_checked := cv_checked v + 1\<rparr>;
                (verdict, previous) =
                  (case load_record log sequence of
                     Some record \<Rightarrow>
                       (verify_against sha record previous,
                        case ar_chain record of None \<Rightarrow> previous | Some links \<Rightarrow> link_hash links)
                   | None \<Rightarrow> (Missing, previous))
            in walk_chain sha log head n (saturating_add sequence 1) previous (note_verdict sequence verdict v))"

definition span_start :: "hash \<Rightarrow> audit_log \<Rightarrow> u64 \<Rightarrow> Digest32" where
  "span_start sha log from =
     (case checked_sub from 1 of
        None \<Rightarrow> genesis_hash sha
      | Some earlier \<Rightarrow>
          case load_record log earlier of
            Some record \<Rightarrow> (case ar_chain record of None \<Rightarrow> genesis_hash sha | Some links \<Rightarrow> link_hash links)
          | None \<Rightarrow> genesis_hash sha)"

definition verify_chain :: "hash \<Rightarrow> audit_log \<Rightarrow> u64 \<Rightarrow> u64 \<Rightarrow> (AuditError, ChainVerification) result" where
  "verify_chain sha log from limit =
     (if limit < 1 \<or> 10000 < limit then Inl InvalidLimit
      else
        rbind (read_chain_head sha log) (\<lambda>(next_to_assign, _).
        let head = checked_sub next_to_assign 1;
            v = \<lparr>cv_from_sequence = from, cv_checked = 0, cv_intact = 0, cv_unchained = 0,
                 cv_next_sequence = None, cv_head_sequence = head, cv_problems = []\<rparr>;
            (sequence, v) = walk_chain sha log head (unat limit) from (span_start sha log from) v
        in Inr (case head of
                  Some h \<Rightarrow> if sequence \<le> h then v\<lparr>cv_next_sequence := Some sequence\<rparr> else v
                | None \<Rightarrow> v)))"

definition is_intact :: "ChainVerification \<Rightarrow> bool" where
  "is_intact v \<longleftrightarrow> cv_problems v = []"

section \<open>Logs built by appends\<close>

fun chain_hash :: "hash \<Rightarrow> AuditEvent list \<Rightarrow> nat \<Rightarrow> Digest32" where
  "chain_hash sha es 0 = genesis_hash sha"
| "chain_hash sha es (Suc i) = hash_event sha (of_nat i) (chain_hash sha es i) (es ! i)"

definition record_at :: "hash \<Rightarrow> AuditEvent list \<Rightarrow> nat \<Rightarrow> AuditRecord" where
  "record_at sha es i = \<lparr>ar_sequence = of_nat i,
     ar_chain = Some \<lparr>previous_hash = chain_hash sha es i, link_hash = chain_hash sha es (Suc i)\<rparr>, ar_event = es ! i\<rparr>"

definition logged :: "hash \<Rightarrow> audit_log \<Rightarrow> AuditEvent list \<Rightarrow> bool" where
  "logged sha log es \<longleftrightarrow> length es < 2 ^ 64
     \<and> read_chain_head sha log = Inr (of_nat (length es), chain_hash sha es (length es))
     \<and> (\<forall>i < length es. t_get (log_index log) (of_nat i) = Some (event_key (es ! i))
          \<and> t_get (log_events log) (event_key (es ! i)) = Some (Chained (record_at sha es i)))"

lemma chain_hash_append: "i \<le> length es \<Longrightarrow> chain_hash sha (es @ fs) i = chain_hash sha es i"
  by (induction i) (simp_all add: nth_append)

lemma record_at_append: "i < length es \<Longrightarrow> record_at sha (es @ fs) i = record_at sha es i"
  by (simp add: record_at_def chain_hash_append [of "Suc i", simplified] chain_hash_append nth_append)

lemma unat_small: "n < 2 ^ 64 \<Longrightarrow> unat (of_nat n :: u64) = n"
  by (simp add: unsigned_of_nat take_bit_nat_eq_self)

lemma next_small:
  assumes "n + 1 < 2 ^ 64"
  shows "saturating_add (of_nat n) 1 = (of_nat (n + 1) :: u64)"
  using assms by (simp add: saturating_add_def unat_small)

lemma length_chain_hash: "(\<And>m. length (sha m) = 32) \<Longrightarrow> length (chain_hash sha es i) = 32"
  by (cases i) (simp_all add: genesis_hash_def hash_event_def record_hash_def)

lemma logged_append:
  assumes len: "\<And>m. length (sha m) = 32" and l: "logged sha log es" and a: "append_in sha log e = Inr log'"
    and n: "length es + 1 < 2 ^ 64"
  shows "logged sha log' (es @ [e])"
proof -
  let ?n = "length es" and ?d = "hash_event sha (of_nat (length es)) (chain_hash sha es (length es)) e"
  from l have h: "read_chain_head sha log = Inr (of_nat ?n, chain_hash sha es ?n)" by (simp add: logged_def)
  have d: "?d = chain_hash sha (es @ [e]) (Suc ?n)" by (simp add: chain_hash_append nth_append)
  have r: "record_at sha (es @ [e]) ?n = \<lparr>ar_sequence = of_nat ?n, ar_chain = Some \<lparr>previous_hash = chain_hash sha es ?n, link_hash = ?d\<rparr>, ar_event = e\<rparr>"
    by (simp add: record_at_def chain_hash_append)
  from a h have fresh: "t_get (log_events log) (event_key e) = None"
    and log': "log' = log\<lparr>log_events := t_insert (event_key e) (Chained (record_at sha (es @ [e]) ?n)) (log_events log),
      log_index := t_insert (of_nat ?n) (event_key e) (log_index log),
      log_state := t_insert HEAD_HASH ?d (t_insert NEXT_SEQUENCE (be_bytes 8 (unat (saturating_add (of_nat ?n) 1 :: u64))) (log_state log))\<rparr>"
    by (auto simp: append_in_def Let_def r split: if_splits)
  have "be_bytes 8 (unat (saturating_add (of_nat ?n) 1 :: u64)) = be_bytes 8 (?n + 1)"
    using n by (simp add: next_small unat_small del: of_nat_Suc of_nat_add)
  moreover have "be_value (be_bytes 8 (?n + 1)) = ?n + 1" using n by (intro be_value_bytes) simp
  moreover have "NEXT_SEQUENCE \<noteq> HEAD_HASH" by (simp add: NEXT_SEQUENCE_def HEAD_HASH_def lit_def)
  ultimately have "read_chain_head sha log' = Inr (of_nat (?n + 1), ?d)"
    by (simp add: read_chain_head_def log' hash_event_def record_hash_def len)
  moreover have "(of_nat i :: u64) \<noteq> of_nat ?n" "event_key (es ! i) \<noteq> event_key e" if "i < ?n" for i
  proof -
    show "(of_nat i :: u64) \<noteq> of_nat ?n" using that n by (metis unat_small add_lessD1 less_trans nat_neq_iff)
    show "event_key (es ! i) \<noteq> event_key e" using l that fresh by (auto simp: logged_def)
  qed
  ultimately show ?thesis
    using l n d by (auto simp: logged_def log' nth_append record_at_append less_Suc_eq)
qed

lemma logged_append_all:
  assumes len: "\<And>m. length (sha m) = 32" and "logged sha log es" and "append_all sha log fs = Inr log'"
    and "length es + length fs < 2 ^ 64"
  shows "logged sha log' (es @ fs)"
  using assms(2-)
proof (induction fs arbitrary: log es)
  case (Cons e fs)
  from Cons.prems(2) obtain log1 where "append_in sha log e = Inr log1" and rest: "append_all sha log1 fs = Inr log'"
    by (auto simp: rbind_Inr)
  with logged_append [OF len Cons.prems(1)] Cons.prems(3) have "logged sha log1 (es @ [e])" by simp
  from Cons.IH [OF this rest] Cons.prems(3) show ?case by simp
qed simp

lemma load_logged: "logged sha log es \<Longrightarrow> i < length es \<Longrightarrow> load_record log (of_nat i) = Some (record_at sha es i)"
  by (simp add: logged_def load_record_def)

lemma walk_logged:
  assumes l: "logged sha log es" and k: "k \<le> length es" and h: "head = (if es = [] then None else Some (of_nat (length es - 1)))"
  shows "walk_chain sha log head n (of_nat k) (chain_hash sha es k) v =
    (of_nat (k + min n (length es - k)),
     v\<lparr>cv_checked := cv_checked v + of_nat (min n (length es - k)), cv_intact := cv_intact v + of_nat (min n (length es - k))\<rparr>)"
  using k
proof (induction n arbitrary: k v)
  case (Suc n)
  have len: "length es < 2 ^ 64" using l by (simp add: logged_def)
  have last: "unat (of_nat (length es - 1) :: u64) = length es - 1" by (rule unat_small) (use len in simp)
  have pos: "unat (of_nat k :: u64) = k" by (rule unat_small) (use len Suc.prems in simp)
  show ?case
  proof (cases "k < length es")
    case True
    then have ne: "es \<noteq> []" by auto
    have le: "\<not> (of_nat (length es - 1) :: u64) < of_nat k"
      using True unfolding word_less_nat_alt last pos by simp
    have intact: "verify_against sha (record_at sha es k) (chain_hash sha es k) = Intact"
      by (simp add: verify_against_def record_at_def)
    have next_s: "saturating_add (of_nat k) 1 = (of_nat (Suc k) :: u64)"
      using next_small [of k] True len by simp
    have m: "min (Suc n) (length es - k) = Suc (min n (length es - Suc k))" using True by simp
    have "walk_chain sha log head (Suc n) (of_nat k) (chain_hash sha es k) v =
      walk_chain sha log head n (of_nat (Suc k)) (chain_hash sha es (Suc k)) (v\<lparr>cv_checked := cv_checked v + 1, cv_intact := cv_intact v + 1\<rparr>)"
      using ne le next_s intact load_logged [OF l True]
      by (simp add: h Let_def note_verdict_def) (simp add: record_at_def)
    also have "\<dots> = (of_nat (k + min (Suc n) (length es - k)), v\<lparr>cv_checked := cv_checked v + of_nat (min (Suc n) (length es - k)),
        cv_intact := cv_intact v + of_nat (min (Suc n) (length es - k))\<rparr>)"
      using True unfolding m by (subst Suc.IH) (simp_all add: algebra_simps)
    finally show ?thesis .
  next
    case False
    with Suc.prems have k: "k = length es" by simp
    have "(of_nat (length es - 1) :: u64) < of_nat k" if "es \<noteq> []"
      using that k unfolding word_less_nat_alt last pos by (cases es) simp_all
    with k show ?thesis by (simp add: h)
  qed
qed simp

section \<open>Batches\<close>

text \<open>A run of the writer: the batches it takes, with the events it acknowledged.\<close>

definition acknowledged :: "AuditEvent list \<Rightarrow> (AuditError, unit) result list \<Rightarrow> AuditEvent list" where
  "acknowledged batch replies = map fst (filter (\<lambda>p. snd p = Inr ()) (zip batch replies))"

fun log_run :: "hash \<Rightarrow> (nat \<Rightarrow> fault) \<Rightarrow> nat \<Rightarrow> audit_log \<Rightarrow> AuditEvent list list \<Rightarrow> AuditEvent list \<times> audit_log" where
  "log_run sha faults n log [] = ([], log)"
| "log_run sha faults n log (batch # batches) =
     (let (replies, log, n) = commit_appends sha faults n log batch;
          (es, log) = log_run sha faults n log batches
      in (acknowledged batch replies @ es, log))"

lemma acknowledged_simps [simp]:
  "acknowledged [] replies = []"
  "acknowledged (e # batch) (Inr () # replies) = e # acknowledged batch replies"
  "acknowledged (e # batch) (Inl err # replies) = acknowledged batch replies"
  by (simp_all add: acknowledged_def)

lemma acknowledged_all [simp]: "acknowledged batch (map (\<lambda>_. Inr ()) batch) = batch"
  by (induction batch) simp_all

lemma log_transaction_Inr: "log_transaction fault body log = Inr log' \<Longrightarrow> body log = Inr log'"
  by (auto simp: log_transaction_def rbind_Inr split: option.splits)

lemma logged_append_each:
  assumes len: "\<And>m. length (sha m) = 32" and "logged sha log es" and "append_each sha faults n log batch = (replies, log', n')"
    and "length (es @ acknowledged batch replies) < 2 ^ 64"
  shows "logged sha log' (es @ acknowledged batch replies)"
  using assms(2-)
proof (induction batch arbitrary: log es replies n)
  case (Cons e batch)
  show ?case
  proof (cases "log_transaction (faults n) (\<lambda>log. append_in sha log e) log")
    case (Inl err)
    with Cons.prems obtain rs where "append_each sha faults (n + 1) log batch = (rs, log', n')" "replies = Inl err # rs"
      by (auto split: prod.splits)
    with Cons.IH [OF Cons.prems(1)] Cons.prems(3) show ?thesis by simp
  next
    case (Inr log1)
    with Cons.prems obtain rs where rs: "append_each sha faults (n + 1) log1 batch = (rs, log', n')" "replies = Inr () # rs"
      by (auto split: prod.splits)
    have "logged sha log1 (es @ [e])"
      using Cons.prems(3) rs by (intro logged_append [OF len Cons.prems(1) log_transaction_Inr [OF Inr]]) simp
    from Cons.IH [OF this rs(1)] Cons.prems(3) rs(2) show ?thesis by simp
  qed
qed simp

lemma logged_commit:
  assumes len: "\<And>m. length (sha m) = 32" and l: "logged sha log es" and c: "commit_appends sha faults n log batch = (replies, log', n')"
    and small: "length (es @ acknowledged batch replies) < 2 ^ 64"
  shows "logged sha log' (es @ acknowledged batch replies)"
proof (cases "log_transaction (faults n) (\<lambda>log. append_all sha log batch) log")
  case (Inl err)
  show ?thesis
  proof (cases "length batch = 1")
    case True
    then obtain e where "batch = [e]" by (cases batch) auto
    with Inl c l show ?thesis by (auto simp: commit_appends_def)
  next
    case False
    with Inl c have "append_each sha faults (n + 1) log batch = (replies, log', n')" by (simp add: commit_appends_def)
    from logged_append_each [OF len l this small] show ?thesis .
  qed
next
  case (Inr log1)
  with c have "log' = log1" "replies = map (\<lambda>_. Inr ()) batch" by (simp_all add: commit_appends_def)
  with logged_append_all [OF len l log_transaction_Inr [OF Inr]] small show ?thesis by simp
qed

lemma logged_run:
  assumes len: "\<And>m. length (sha m) = 32" and "logged sha log es" and "log_run sha faults n log batches = (fs, log')"
    and "length (es @ fs) < 2 ^ 64"
  shows "logged sha log' (es @ fs)"
  using assms(2-)
proof (induction batches arbitrary: log es fs n)
  case (Cons b batches)
  obtain rs log1 m where c: "commit_appends sha faults n log b = (rs, log1, m)" by (cases "commit_appends sha faults n log b") auto
  from Cons.prems(2) c obtain gs where gs: "log_run sha faults m log1 batches = (gs, log')" "fs = acknowledged b rs @ gs"
    by (auto simp: Let_def split: prod.splits)
  have "logged sha log1 (es @ acknowledged b rs)"
    using Cons.prems(3) gs(2) c by (intro logged_commit [OF len Cons.prems(1) c]) simp
  from Cons.IH [OF this gs(1)] Cons.prems(3) gs(2) show ?case by simp
qed simp

lemma logged_start: "log_state log = t_empty \<Longrightarrow> logged sha log []"
  by (simp add: logged_def read_chain_head_def)

lemma span_start_logged:
  assumes l: "logged sha log es" and k: "k \<le> length es"
  shows "span_start sha log (of_nat k) = chain_hash sha es k"
proof (cases k)
  case (Suc i)
  have len: "length es < 2 ^ 64" using l by (simp add: logged_def)
  have "unat (of_nat (Suc i) :: u64) = Suc i" by (rule unat_small) (use len k Suc in simp)
  then have "checked_sub (of_nat (Suc i)) 1 = Some (of_nat i :: u64)"
    by (simp add: checked_sub_def word_le_nat_alt del: of_nat_Suc) simp
  moreover have "load_record log (of_nat i) = Some (record_at sha es i)" using l k Suc by (intro load_logged) simp_all
  ultimately show ?thesis unfolding span_start_def Suc by (simp add: record_at_def)
qed (simp add: span_start_def checked_sub_def)

lemma verify_logged:
  assumes l: "logged sha log es" and small: "length es < 2 ^ 64" and "k \<le> length es" and "1 \<le> limit" and "limit \<le> 10000"
    and "n = min (unat limit) (length es - k)"
  shows "verify_chain sha log (of_nat k) limit = Inr \<lparr>cv_from_sequence = of_nat k, cv_checked = of_nat n, cv_intact = of_nat n,
      cv_unchained = 0, cv_next_sequence = (if k + n < length es then Some (of_nat (k + n)) else None),
      cv_head_sequence = (if es = [] then None else Some (of_nat (length es - 1))), cv_problems = []\<rparr>"
proof -
  let ?head = "if es = [] then None else Some (of_nat (length es - 1)) :: u64 option"
  have head: "checked_sub (of_nat (length es)) 1 = ?head"
  proof (cases es)
    case (Cons e fs)
    have "unat (of_nat (length es) :: u64) = length es" using small by (rule unat_small)
    with Cons show ?thesis by (simp add: checked_sub_def word_le_nat_alt del: of_nat_Suc) simp
  qed (simp add: checked_sub_def)
  have h: "read_chain_head sha log = Inr (of_nat (length es), chain_hash sha es (length es))" using l by (simp add: logged_def)
  have cmp: "(of_nat (k + n) :: u64) \<le> of_nat (length es - 1) \<longleftrightarrow> k + n < length es" if "es \<noteq> []"
  proof -
    have "unat (of_nat (k + n) :: u64) = k + n" by (rule unat_small) (use assms(2,3,6) in simp)
    moreover have "unat (of_nat (length es - 1) :: u64) = length es - 1" by (rule unat_small) (use small in simp)
    ultimately show ?thesis using that unfolding word_le_nat_alt by (cases es) auto
  qed
  show ?thesis
    unfolding verify_chain_def h rbind_simps split_conv head Let_def span_start_logged [OF l assms(3)] walk_logged [OF l assms(3) refl]
    using assms(4,5) cmp unfolding assms(6) [symmetric] by (auto simp: not_less)
qed

text \<open>
  C28. A log that was only appended to verifies. Whatever batches the writer took and whatever transactions
  the engine failed, the verification of any span
  finds every record in place and intact, and reports where to resume. It covers exactly the acknowledged
  events in the order of their acknowledgement; older events without links do not disturb it.
\<close>

theorem appended_log_verifies:
  assumes "\<And>m. length (sha m) = 32" and "log_state start = t_empty" and "log_run sha faults n0 start batches = (es, log)"
    and "length es < 2 ^ 64" and "k \<le> length es" and "1 \<le> limit" and "limit \<le> 10000"
    and "n = min (unat limit) (length es - k)"
  shows "verify_chain sha log (of_nat k) limit = Inr \<lparr>cv_from_sequence = of_nat k, cv_checked = of_nat n, cv_intact = of_nat n,
      cv_unchained = 0, cv_next_sequence = (if k + n < length es then Some (of_nat (k + n)) else None),
      cv_head_sequence = (if es = [] then None else Some (of_nat (length es - 1))), cv_problems = []\<rparr>"
proof -
  have "logged sha log es" using logged_run [OF assms(1) logged_start [OF assms(2)] assms(3)] assms(4) by simp
  from verify_logged [OF this assms(4-)] show ?thesis .
qed

text \<open>A batch with a repeated event, then a batch whose transaction fails to commit, then one more.\<close>

definition sample_log_faults :: "nat \<Rightarrow> fault" where
  "sample_log_faults n = (None, if n = 3 then Some (lit ''disk full'') else None)"

definition sample_log_run :: "AuditEvent list \<times> audit_log" where
  "sample_log_run = log_run sample_sha sample_log_faults 0 empty_log
     [[sample_event 1 5000, sample_event 1 5000], [sample_event 3 5000], [sample_event 2 6000]]"

lemma sample_log_events: "fst sample_log_run = [sample_event 1 5000, sample_event 2 6000]"
  by (simp add: sample_log_run_def sample_log_faults_def empty_log_def commit_appends_def append_in_def read_chain_head_def Let_def
      event_key_def event_key_parts_def time_prefix_def timestamp_micros_def sample_event_def intent_event_def NEXT_SEQUENCE_def
      HEAD_HASH_def hash_event_def record_hash_def length_sample_sha lit_def saturating_add_def log_transaction_def)

lemma sample_log_run: "log_run sample_sha sample_log_faults 0 empty_log
    [[sample_event 1 5000, sample_event 1 5000], [sample_event 3 5000], [sample_event 2 6000]] = (fst sample_log_run, snd sample_log_run)"
  by (simp only: sample_log_run_def prod.collapse)

theorem appended_log_verifies_witness:
  "verify_chain sample_sha (snd sample_log_run) 1 1
     = Inr \<lparr>cv_from_sequence = 1, cv_checked = 1, cv_intact = 1, cv_unchained = 0, cv_next_sequence = None,
         cv_head_sequence = Some 1, cv_problems = []\<rparr>"
  using appended_log_verifies [OF length_sample_sha _ sample_log_run, of 1 1 1] by (simp add: sample_log_events empty_log_def)

section \<open>What an intact verification proves\<close>

text \<open>A position whose record is there, links to its predecessor and hashes to its stored digest.\<close>

definition entry_intact :: "hash \<Rightarrow> audit_log \<Rightarrow> u64 \<Rightarrow> bool" where
  "entry_intact sha log q \<longleftrightarrow> (\<exists>r links. load_record log q = Some r \<and> ar_chain r = Some links
     \<and> previous_hash links = span_start sha log q
     \<and> link_hash links = hash_event sha (ar_sequence r) (previous_hash links) (ar_event r))"

lemma entry_intact_verdict:
  "load_record log q = Some r \<Longrightarrow> verify_against sha r (span_start sha log q) = Intact \<longleftrightarrow> entry_intact sha log q"
  by (auto simp: entry_intact_def verify_against_def split: option.splits)

lemma note_verdict_grows:
  assumes "cv_problems (note_verdict q vd v) = []"
  shows "cv_problems v = [] \<and> (vd = Intact \<or> vd = Unchained)
    \<and> cv_unchained (note_verdict q vd v) = cv_unchained v + (if vd = Unchained then 1 else 0)"
  using assms by (cases vd) (auto simp: note_verdict_def MAXIMUM_CHAIN_PROBLEMS_def split: if_splits)

definition examine :: "hash \<Rightarrow> audit_log \<Rightarrow> u64 \<Rightarrow> Digest32 \<Rightarrow> RecordVerdict \<times> Digest32" where
  "examine sha log q p =
     (case load_record log q of
        Some record \<Rightarrow> (verify_against sha record p, case ar_chain record of None \<Rightarrow> p | Some links \<Rightarrow> link_hash links)
      | None \<Rightarrow> (Missing, p))"

lemma walk_Suc:
  "walk_chain sha log (Some h) (Suc n) q p v =
     (if h < q then (q, v)
      else walk_chain sha log (Some h) n (saturating_add q 1) (snd (examine sha log q p))
             (note_verdict q (fst (examine sha log q p)) (v\<lparr>cv_checked := cv_checked v + 1\<rparr>)))"
  by (simp add: examine_def Let_def split: prod.split)

text \<open>No problem and no unchained record at the end means that there was none at any position.\<close>

lemma walk_grows:
  assumes "walk_chain sha log (Some h) n q p v = (q', v')" and "cv_problems v' = []" and "unat (cv_unchained v) + n < 2 ^ 64"
  shows "cv_problems v = [] \<and> unat (cv_unchained v) \<le> unat (cv_unchained v')"
  using assms
proof (induction n arbitrary: q p v)
  case (Suc n)
  let ?vd = "fst (examine sha log q p)"
  let ?w = "note_verdict q ?vd (v\<lparr>cv_checked := cv_checked v + 1\<rparr>)"
  show ?case
  proof (cases "h < q")
    case False
    have one: "unat (cv_unchained v + 1) = unat (cv_unchained v) + 1" using Suc.prems(3) by (subst unat_add_no_wrap) simp_all
    then have "unat (cv_unchained ?w) \<le> unat (cv_unchained v) + 1" by (cases ?vd) (simp_all add: note_verdict_def)
    then have b: "unat (cv_unchained ?w) + n < 2 ^ 64" using Suc.prems(3) by simp
    from Suc.prems(1) False have "walk_chain sha log (Some h) n (saturating_add q 1) (snd (examine sha log q p)) ?w = (q', v')"
      by (simp only: walk_Suc if_False)
    from Suc.IH [OF this Suc.prems(2) b] have ih: "cv_problems ?w = []" "unat (cv_unchained ?w) \<le> unat (cv_unchained v')" by simp_all
    from note_verdict_grows [OF ih(1)] ih(2) one show ?thesis by (auto split: if_splits)
  qed (use Suc.prems in \<open>simp add: walk_Suc del: walk_chain.simps\<close>)
qed simp

lemma walk_intact:
  assumes "walk_chain sha log (Some h) n q (span_start sha log q) v = (q', v')" and "cv_problems v' = []"
    and "cv_unchained v = 0" "cv_unchained v' = 0" and "n < 2 ^ 32" and "h < 2 ^ 63"
  shows "\<forall>k. q \<le> k \<and> k < q' \<longrightarrow> entry_intact sha log k"
  using assms(1-5)
proof (induction n arbitrary: q v)
  case (Suc n)
  let ?p = "span_start sha log q"
  let ?vd = "fst (examine sha log q ?p)"
  let ?w = "note_verdict q ?vd (v\<lparr>cv_checked := cv_checked v + 1\<rparr>)"
  show ?case
  proof (cases "h < q")
    case False
    from Suc.prems(1) False have walk: "walk_chain sha log (Some h) n (saturating_add q 1) (snd (examine sha log q ?p)) ?w = (q', v')"
      by (simp only: walk_Suc if_False)
    have "unat (cv_unchained ?w) \<le> 1" using Suc.prems(3) by (cases ?vd) (simp_all add: note_verdict_def)
    with Suc.prems(5) have b: "unat (cv_unchained ?w) + n < 2 ^ 64" by simp
    from walk_grows [OF walk Suc.prems(2) b] Suc.prems(4) have w: "cv_problems ?w = []" "cv_unchained ?w = 0"
      by (simp_all add: unsigned_eq_0_iff)
    with note_verdict_grows [OF w(1)] Suc.prems(3) have vd: "?vd = Intact" by (auto split: if_splits)
    then obtain r where r: "load_record log q = Some r" "verify_against sha r ?p = Intact"
      by (auto simp: examine_def split: option.splits)
    then have ok: "entry_intact sha log q" using entry_intact_verdict [OF r(1)] by simp
    then obtain links where links: "ar_chain r = Some links" using r(1) by (auto simp: entry_intact_def)
    have up: "saturating_add q 1 = q + 1" "unat (q + 1) = unat q + 1"
    proof -
      have "unat q + unat (1 :: u64) < 2 ^ 64" using False assms(6) by (simp add: word_less_nat_alt not_less)
      then show "saturating_add q 1 = q + 1" "unat (q + 1) = unat q + 1" by (simp_all add: saturating_add_def unat_add_no_wrap)
    qed
    have "checked_sub (q + 1) 1 = Some q" using up(2) by (simp add: checked_sub_def word_le_nat_alt)
    then have "span_start sha log (q + 1) = snd (examine sha log q ?p)" using r links by (simp add: span_start_def examine_def)
    with walk up have "walk_chain sha log (Some h) n (q + 1) (span_start sha log (q + 1)) ?w = (q', v')" by simp
    from Suc.IH [OF this Suc.prems(2) w(2) Suc.prems(4)] Suc.prems(5) have "\<forall>k. q + 1 \<le> k \<and> k < q' \<longrightarrow> entry_intact sha log k" by simp
    moreover have "q \<le> k \<Longrightarrow> k = q \<or> q + 1 \<le> k" for k using up(2) by (auto simp: word_le_nat_alt word_unat_eq_iff)
    ultimately show ?thesis using ok by blast
  next
    case True
    with Suc.prems(1) have "q = q'" by (simp add: walk_Suc del: walk_chain.simps)
    then show ?thesis by auto
  qed
qed auto

text \<open>A client that follows \<open>next_sequence\<close> to the head and accepts nothing but intact records.\<close>

fun verified_from :: "nat \<Rightarrow> hash \<Rightarrow> audit_log \<Rightarrow> u64 \<Rightarrow> u64 \<Rightarrow> bool" where
  "verified_from 0 sha log limit from = False"
| "verified_from (Suc n) sha log limit from =
     (case verify_chain sha log from limit of
        Inl _ \<Rightarrow> False
      | Inr v \<Rightarrow> is_intact v \<and> cv_unchained v = 0
          \<and> (case cv_next_sequence v of None \<Rightarrow> True | Some q \<Rightarrow> verified_from n sha log limit q))"

lemma verified_entries:
  assumes "verified_from n sha log limit from" and head: "read_chain_head sha log = Inr (next, hh)" and "unat next \<le> 2 ^ 63"
  shows "\<forall>k. from \<le> k \<and> k < next \<longrightarrow> entry_intact sha log k"
  using assms(1)
proof (induction n arbitrary: "from")
  case (Suc n)
  then obtain v where v: "verify_chain sha log from limit = Inr v" "cv_problems v = []" "cv_unchained v = 0"
    and more: "case cv_next_sequence v of None \<Rightarrow> True | Some q \<Rightarrow> verified_from n sha log limit q"
    by (auto simp: is_intact_def split: sum.splits)
  show ?case
  proof (cases "next = 0")
    case False
    define h where "h = next - 1"
    from False have "0 < unat next" by (simp add: unat_gt_0)
    then have h1: "checked_sub next 1 = Some h" "unat next = unat h + 1"
      using False by (simp_all add: checked_sub_def h_def word_le_nat_alt unat_minus_one)
    let ?v0 = "\<lparr>cv_from_sequence = from, cv_checked = 0, cv_intact = 0, cv_unchained = 0, cv_next_sequence = None, cv_head_sequence = Some h, cv_problems = []\<rparr>"
    obtain q w where w: "walk_chain sha log (Some h) (unat limit) from (span_start sha log from) ?v0 = (q, w)" by fastforce
    from v(1) w head h1 have limit: "limit \<le> 10000" and vw: "v = (if q \<le> h then w\<lparr>cv_next_sequence := Some q\<rparr> else w)"
      by (auto simp: verify_chain_def Let_def split: if_splits)
    have "\<forall>k. from \<le> k \<and> k < q \<longrightarrow> entry_intact sha log k"
    proof (rule walk_intact [OF w])
      show "unat limit < 2 ^ 32" using limit by (simp add: word_le_nat_alt)
      show "h < 2 ^ 63" using h1(2) assms(3) by (simp add: word_less_nat_alt)
    qed (use v(2,3) vw in \<open>auto split: if_splits\<close>)
    moreover have "\<forall>k. q \<le> k \<and> k < next \<longrightarrow> entry_intact sha log k"
    proof (cases "q \<le> h")
      case True
      with more vw show ?thesis by (intro Suc.IH) simp
    next
      case False
      then show ?thesis using h1(2) by (auto simp: word_le_nat_alt word_less_nat_alt)
    qed
    ultimately show ?thesis by (meson not_less)
  qed simp
qed simp

section \<open>Tamper evidence\<close>

text \<open>The messages the hashes of the first records of a log are taken of.\<close>

definition chain_messages :: "audit_log \<Rightarrow> u64 \<Rightarrow> bytes set" where
  "chain_messages log n = {RECORD_DOMAIN @ be_bytes 8 (unat (ar_sequence r)) @ previous_hash links @ canonical_bytes (ar_event r) | k r links.
     k < n \<and> load_record log k = Some r \<and> ar_chain r = Some links}"

definition same_records :: "audit_log \<Rightarrow> audit_log \<Rightarrow> u64 \<Rightarrow> bool" where
  "same_records log log' k \<longleftrightarrow> (\<exists>r r'. load_record log k = Some r \<and> load_record log' k = Some r' \<and> ar_sequence r = ar_sequence r'
     \<and> ar_chain r = ar_chain r' \<and> canonical_bytes (ar_event r) = canonical_bytes (ar_event r')
     \<and> (encodable (ar_event r) \<and> encodable (ar_event r') \<longrightarrow> same_event (ar_event r) (ar_event r')))"

lemma length_span_start:
  assumes len: "\<And>m. length (sha m) = 32" and "k = 0 \<or> entry_intact sha log (k - 1)"
  shows "length (span_start sha log k) = 32"
proof (cases "k = 0")
  case False
  with assms(2) obtain r links where "load_record log (k - 1) = Some r" "ar_chain r = Some links"
    "link_hash links = hash_event sha (ar_sequence r) (previous_hash links) (ar_event r)"
    by (auto simp: entry_intact_def)
  moreover from False have "checked_sub k 1 = Some (k - 1)" by (simp add: checked_sub_def word_le_nat_alt unat_gt_0 Suc_leI)
  ultimately show ?thesis by (simp add: span_start_def hash_event_def record_hash_def len)
qed (simp add: span_start_def checked_sub_def genesis_hash_def len)

lemma unat_next:
  fixes k n :: u64
  assumes "k < n"
  shows "unat (k + 1) = unat k + 1"
proof -
  have "unat k + unat (1 :: u64) < 2 ^ 64"
    using assms unat_lt_256_pow [of 8 n] unfolding word_less_nat_alt by simp
  then show ?thesis by (simp add: unat_add_no_wrap)
qed

lemma same_records_back:
  assumes len: "\<And>m. length (sha m) = 32" and inj: "inj_on sha (chain_messages log n \<union> chain_messages log' n)"
    and ok: "\<forall>k. k < n \<longrightarrow> entry_intact sha log k" "\<forall>k. k < n \<longrightarrow> entry_intact sha log' k"
    and k: "k < n" and eq: "span_start sha log (k + 1) = span_start sha log' (k + 1)"
  shows "same_records log log' k \<and> span_start sha log k = span_start sha log' k"
proof -
  from ok k obtain r links r' links' where r: "load_record log k = Some r" "ar_chain r = Some links"
    "previous_hash links = span_start sha log k" "link_hash links = hash_event sha (ar_sequence r) (previous_hash links) (ar_event r)"
    and r': "load_record log' k = Some r'" "ar_chain r' = Some links'"
    "previous_hash links' = span_start sha log' k" "link_hash links' = hash_event sha (ar_sequence r') (previous_hash links') (ar_event r')"
    by (meson entry_intact_def)
  let ?m = "\<lambda>r links. RECORD_DOMAIN @ be_bytes 8 (unat (ar_sequence r)) @ previous_hash links @ canonical_bytes (ar_event r)"
  have up: "checked_sub (k + 1) 1 = Some k"
    using unat_next [OF k] by (simp add: checked_sub_def word_le_nat_alt)
  have link: "link_hash links = link_hash links'" using eq up r r' by (simp add: span_start_def)
  then have "sha (?m r links) = sha (?m r' links')" using r(4) r'(4) by (simp add: hash_event_def record_hash_def)
  moreover have "?m r links \<in> chain_messages log n" "?m r' links' \<in> chain_messages log' n"
    unfolding chain_messages_def using r(1,2) r'(1,2) k by blast+
  ultimately have m: "?m r links = ?m r' links'" using inj_onD [OF inj] by blast
  have prior: "k = 0 \<or> k - 1 < n" 
  proof (cases "k = 0")
    case False
    then have "unat (k - 1) < unat k" by (simp add: unat_minus_one unat_gt_0)
    with k show ?thesis by (simp add: word_less_nat_alt)
  qed simp
  have "k = 0 \<or> entry_intact sha log (k - 1)" "k = 0 \<or> entry_intact sha log' (k - 1)" using ok prior by blast+
  then have "length (previous_hash links) = 32" "length (previous_hash links') = 32"
    unfolding r(3) r'(3) by (simp_all only: length_span_start [OF len])
  with m have eqs: "ar_sequence r = ar_sequence r'" "previous_hash links = previous_hash links'"
    "canonical_bytes (ar_event r) = canonical_bytes (ar_event r')"
    using unat_lt_256_pow [of 8 "ar_sequence r"] unat_lt_256_pow [of 8 "ar_sequence r'"]
    by (simp_all add: be_bytes_inject word_unat_eq_iff)
  with r r' link canonical_bytes_inject [of "ar_event r" "ar_event r'"] show ?thesis by (auto simp: same_records_def)
qed

text \<open>
  C27. The audit log is tamper evident. When two logs both verify to the head, hold the same number of records
  and end in the same hash, they hold the same records at every position: sequence, links and the canonical
  bytes of the event, which means the same event to the microsecond. The only assumption on SHA-256 is that it
  does not collide on the messages of these two logs. Changing, removing, inserting or reordering a record that
  a published head hash covers is therefore detected by a client that insists on intact records.
\<close>

theorem verified_logs_agree:
  assumes "\<And>m. length (sha m) = 32" and "inj_on sha (chain_messages log n \<union> chain_messages log' n)"
    and "read_chain_head sha log = Inr (n, hh)" and "read_chain_head sha log' = Inr (n, hh')" and "unat n \<le> 2 ^ 63"
    and "verified_from fuel sha log limit 0" and "verified_from fuel' sha log' limit' 0"
    and "span_start sha log n = span_start sha log' n" and "k < n"
  shows "same_records log log' k"
proof -
  have ok: "\<forall>k. k < n \<longrightarrow> entry_intact sha log k" "\<forall>k. k < n \<longrightarrow> entry_intact sha log' k"
    using verified_entries [OF assms(6,3,5)] verified_entries [OF assms(7,4,5)] by simp_all
  have "span_start sha log (n - of_nat j) = span_start sha log' (n - of_nat j)
    \<and> (\<forall>k. n - of_nat j \<le> k \<and> k < n \<longrightarrow> same_records log log' k)" if "j \<le> unat n" for j
    using that
  proof (induction j)
    case (Suc j)
    define q where "q = n - of_nat (Suc j)"
    have "Suc j < 2 ^ 64" using Suc.prems unat_lt_256_pow [of 8 n] by simp
    then have j: "unat (of_nat (Suc j) :: u64) = Suc j" by (rule unat_small)
    have q: "unat q = unat n - Suc j" unfolding q_def using Suc.prems
      by (subst unat_sub_no_wrap) (simp_all add: word_le_nat_alt j del: of_nat_Suc)
    have q1: "q + 1 = n - of_nat j" by (simp add: q_def)
    have "q < n" using q Suc.prems by (simp add: word_less_nat_alt)
    moreover have "span_start sha log (q + 1) = span_start sha log' (q + 1)" unfolding q1 using Suc by simp
    ultimately have both: "same_records log log' q \<and> span_start sha log q = span_start sha log' q"
      by (rule same_records_back [OF assms(1,2) ok])
    have "k = q \<or> q + 1 \<le> k" if "q \<le> k" for k
      using that unat_next [OF \<open>q < n\<close>] by (auto simp: word_le_nat_alt word_unat_eq_iff)
    moreover from Suc have "\<forall>k. q + 1 \<le> k \<and> k < n \<longrightarrow> same_records log log' k" unfolding q1 by simp
    ultimately show ?case unfolding q_def [symmetric] using both by blast
  qed (auto simp: assms(8))
  from this [of "unat n"] assms(9) show ?thesis by simp
qed

text \<open>Two logs of two records, written in different batches; the first events differ below a microsecond.\<close>

definition sequence_sha :: hash where
  "sequence_sha m = replicate 31 0 @ [if 35 < length m then m ! 35 else 0]"

definition two_batches :: "nat \<Rightarrow> datetime \<Rightarrow> AuditEvent list \<times> audit_log" where
  "two_batches n t = log_run sequence_sha (\<lambda>_. (None, None)) 0 empty_log
     (if n = 1 then [[sample_event 1 t, sample_event 2 6000]] else [[sample_event 1 t], [sample_event 2 6000]])"

lemma length_sequence_sha: "length (sequence_sha m) = 32"
  by (simp add: sequence_sha_def)

lemma two_batches_events:
  assumes "timestamp_micros t = 5"
  shows "fst (two_batches n t) = [sample_event 1 t, sample_event 2 6000]"
  using assms
  by (simp add: two_batches_def empty_log_def commit_appends_def append_in_def read_chain_head_def Let_def event_key_def
      event_key_parts_def time_prefix_def sample_event_def intent_event_def NEXT_SEQUENCE_def HEAD_HASH_def hash_event_def
      record_hash_def length_sequence_sha lit_def saturating_add_def log_transaction_def timestamp_micros_def [of 6000])

lemma two_batches_logged:
  assumes "timestamp_micros t = 5"
  shows "logged sequence_sha (snd (two_batches n t)) [sample_event 1 t, sample_event 2 6000]"
proof -
  let ?b = "if n = 1 then [[sample_event 1 t, sample_event 2 6000]] else [[sample_event 1 t], [sample_event 2 6000]]"
  have "log_run sequence_sha (\<lambda>_. (None, None)) 0 empty_log ?b = (fst (two_batches n t), snd (two_batches n t))"
    by (simp only: two_batches_def prod.collapse)
  from logged_run [OF length_sequence_sha logged_start this] show ?thesis
    by (simp add: two_batches_events [OF assms] empty_log_def)
qed

lemma chain_messages_logged:
  assumes l: "logged sha log es"
  shows "chain_messages log (of_nat (length es))
    = (\<lambda>i. RECORD_DOMAIN @ be_bytes 8 i @ chain_hash sha es i @ canonical_bytes (es ! i)) ` {..<length es}"
proof -
  have len: "length es < 2 ^ 64" using l by (simp add: logged_def)
  then have n: "unat (of_nat (length es) :: u64) = length es" by (rule unat_small)
  have small: "unat (of_nat i :: u64) = i" if "i < length es" for i by (rule unat_small) (use that len in simp)
  have pos: "k < of_nat (length es) \<longleftrightarrow> (\<exists>i < length es. k = of_nat i)" for k :: u64
    using n small by (auto simp: word_less_nat_alt intro!: exI [of _ "unat k"])
  show ?thesis
    by (auto simp: chain_messages_def pos load_logged [OF l] record_at_def small intro!: image_eqI exI)
qed

lemma logged_head_hash:
  assumes "logged sha log es"
  shows "span_start sha log (of_nat (length es)) = chain_hash sha es (length es)"
  using assms by (rule span_start_logged) simp

lemma verified_logged:
  assumes l: "logged sha log es" and "length es \<le> unat limit" and "1 \<le> limit" and "limit \<le> 10000"
  shows "verified_from 1 sha log limit 0"
proof -
  have len: "length es < 2 ^ 64" using l by (simp add: logged_def)
  from verify_logged [OF l len _ assms(3,4) refl, of 0] assms(2) show ?thesis by (simp add: is_intact_def)
qed

theorem verified_logs_agree_witness:
  "sample_event 1 5000 \<noteq> sample_event 1 5400
     \<and> same_records (snd (two_batches 1 5000)) (snd (two_batches 2 5400)) 0"
proof -
  have t: "timestamp_micros 5000 = 5" "timestamp_micros 5400 = 5" by (simp_all add: timestamp_micros_def)
  note l = two_batches_logged [OF t(1), of 1] two_batches_logged [OF t(2), of 2]
  have c: "canonical_bytes (sample_event 1 5000) = canonical_bytes (sample_event 1 5400)"
    by (simp add: canonical_bytes_def sample_event_def intent_event_def micros_bytes_def t)
  have hash: "sequence_sha (RECORD_DOMAIN @ be_bytes 8 i @ p @ x) = replicate 31 0 @ [of_nat i]" if "i < 2" for i p x
  proof -
    have "length RECORD_DOMAIN = 28" by (simp add: RECORD_DOMAIN_def lit_def)
    moreover have "be_bytes 8 0 ! 7 = 0" "be_bytes 8 1 ! 7 = 1" by code_simp+
    then have "be_bytes 8 i ! 7 = of_nat i" using that by (auto simp: less_2_cases_iff)
    ultimately show ?thesis by (simp add: sequence_sha_def nth_append)
  qed
  have inj: "inj_on sequence_sha (chain_messages (snd (two_batches 1 5000)) 2 \<union> chain_messages (snd (two_batches 2 5400)) 2)"
    using chain_messages_logged [OF l(1)] chain_messages_logged [OF l(2)]
    by (auto simp: lessThan_Suc inj_on_def hash hash_event_def record_hash_def c)
  have "same_records (snd (two_batches 1 5000)) (snd (two_batches 2 5400)) 0"
  proof (rule verified_logs_agree [OF length_sequence_sha inj])
    show "verified_from 1 sequence_sha (snd (two_batches 1 5000)) 10 0" "verified_from 1 sequence_sha (snd (two_batches 2 5400)) 10 0"
      using verified_logged [OF l(1), of 10] verified_logged [OF l(2), of 10] by (simp_all del: verified_from.simps One_nat_def)
    show "span_start sequence_sha (snd (two_batches 1 5000)) 2 = span_start sequence_sha (snd (two_batches 2 5400)) 2"
      using logged_head_hash [OF l(1)] logged_head_hash [OF l(2)] by (simp add: numeral_2_eq_2 hash_event_def record_hash_def hash c)
  qed (use l in \<open>simp_all add: logged_def\<close>)
  then show ?thesis by (simp add: sample_event_def intent_event_def)
qed

end
