(* ===== verification/Audit_Query.thy ===== *)
theory Audit_Query
  imports Paging Audit_Log
begin

text \<open>
  Queries of the audit log (\<^verbatim>\<open>fn query\<close> of \<^verbatim>\<open>crates/record-store-audit/src/lib.rs\<close>). A query scans a range of the
  event table, keeps what its filters accept, and stops at the page size or at a fixed budget of scanned
  entries; in both cases it returns a cursor. The query is an interpretation of \<open>scanner\<close>: a page can be
  empty although something is left, but the cursor always moves.
\<close>

section \<open>One page\<close>

definition MAXIMUM_SCANNED_ENTRIES :: nat where "MAXIMUM_SCANNED_ENTRIES = 100000"

type_synonym cursor = "datetime \<times> uuid"

record AuditQuery =
  aq_since :: "datetime option"
  aq_until :: "datetime option"
  aq_principal :: "str option"
  aq_operation :: "str option"
  aq_resource_prefix :: "str option"
  aq_result :: "AuditResult option"
  aq_source_ip :: "str option"
  aq_request_id :: "str option"
  aq_after :: "cursor option"
  aq_limit :: u64

record AuditPage =
  ap_events :: "AuditEvent list"
  ap_next :: "cursor option"
  ap_scan_truncated :: bool

definition query_start :: "AuditQuery \<Rightarrow> bytes" where
  "query_start query =
     (let start = (case aq_after query of
                     None \<Rightarrow> (case aq_since query of None \<Rightarrow> replicate 24 0 | Some time \<Rightarrow> time_prefix time)
                   | Some (time, i) \<Rightarrow> event_key_parts time i @ [0])
      in if start = [] then replicate 24 0 else start)"

definition query_end :: "AuditQuery \<Rightarrow> bytes" where
  "query_end query =
     (case aq_until query of None \<Rightarrow> replicate 25 0xFF | Some time \<Rightarrow> time_prefix time @ replicate 16 0xFF)"

definition query_accepts :: "AuditQuery \<Rightarrow> AuditEvent \<Rightarrow> bool" where
  "query_accepts query event \<longleftrightarrow>
     \<not> ((\<exists>v. aq_principal query = Some v \<and> v \<noteq> ae_principal event)
        \<or> (\<exists>v. aq_operation query = Some v \<and> v \<noteq> ae_operation event)
        \<or> (\<exists>v. aq_resource_prefix query = Some v \<and> \<not> prefix v (ae_resource event))
        \<or> (\<exists>v. aq_result query = Some v \<and> v \<noteq> ae_result event)
        \<or> (\<exists>v. aq_source_ip query = Some v \<and> Some v \<noteq> ae_source_ip event)
        \<or> (\<exists>v. aq_request_id query = Some v \<and> Some v \<noteq> ae_request_id event))"

text \<open>The loop over the range, with the events found so far and the last entry looked at.\<close>

fun scan_events ::
  "(AuditEvent \<Rightarrow> bool) \<Rightarrow> nat \<Rightarrow> nat \<Rightarrow> (bytes \<times> stored) list \<Rightarrow> AuditEvent list \<Rightarrow> cursor option \<Rightarrow> AuditEvent list \<times> bool \<times> cursor option" where
  "scan_events accepts limit scanned [] events last_scanned = (events, False, last_scanned)"
| "scan_events accepts limit scanned (entry # rest) events last_scanned =
     (if limit < length events then (events, False, last_scanned)
      else if MAXIMUM_SCANNED_ENTRIES \<le> scanned then (events, True, last_scanned)
      else
        let event = ar_event (decode_stored (snd entry));
            last_scanned = Some (ae_timestamp event, ae_event_id event)
        in scan_events accepts limit (scanned + 1) rest (if accepts event then events @ [event] else events) last_scanned)"

definition audit_query :: "audit_log \<Rightarrow> AuditQuery \<Rightarrow> (AuditError, AuditPage) result" where
  "audit_query log query =
     (if aq_limit query < 1 \<or> 1000 < aq_limit query then Inl InvalidLimit
      else
        let (events, scan_truncated, last_scanned) =
              scan_events (query_accepts query) (unat (aq_limit query)) 0
                (t_range (log_events log) (query_start query) (query_end query)) [] None;
            (events, next) =
              (if unat (aq_limit query) < length events then
                 let events = butlast events
                 in (events, if events = [] then None else Some (ae_timestamp (last events), ae_event_id (last events)))
               else if scan_truncated then (events, last_scanned)
               else (events, None))
        in Inr \<lparr>ap_events = events, ap_next = next, ap_scan_truncated = scan_truncated\<rparr>)"

section \<open>What a scan stops at\<close>

abbreviation event_of :: "bytes \<times> stored \<Rightarrow> AuditEvent" where
  "event_of entry \<equiv> ar_event (decode_stored (snd entry))"

definition position_of :: "AuditEvent \<Rightarrow> cursor" where
  "position_of event = (ae_timestamp event, ae_event_id event)"

lemma scan_events_spec:
  assumes "scan_events accepts limit scanned F events c = (out, truncated, c')" and "length events \<le> Suc limit"
  shows "\<exists>n \<le> length F. out = events @ filter accepts (map event_of (take n F)) \<and> length out \<le> Suc limit
    \<and> c' = (if n = 0 then c else Some (position_of (event_of (F ! (n - 1)))))
    \<and> (truncated \<longrightarrow> n < length F \<and> MAXIMUM_SCANNED_ENTRIES \<le> scanned + n \<and> length out \<le> limit)
    \<and> (\<not> truncated \<longrightarrow> limit < length out \<or> n = length F)"
  using assms
proof (induction F arbitrary: scanned events c)
  case (Cons e F)
  show ?case
  proof (cases "limit < length events \<or> MAXIMUM_SCANNED_ENTRIES \<le> scanned")
    case True
    then show ?thesis using Cons.prems by (intro exI [of _ 0]) (auto split: if_splits)
  next
    case False
    let ?ev = "if accepts (event_of e) then events @ [event_of e] else events"
    from False Cons.prems(1) have "scan_events accepts limit (scanned + 1) F ?ev (Some (position_of (event_of e))) = (out, truncated, c')"
      by (simp add: Let_def position_of_def)
    moreover have "length ?ev \<le> Suc limit" using False by auto
    ultimately obtain n where n: "n \<le> length F" "out = ?ev @ filter accepts (map event_of (take n F))" "length out \<le> Suc limit"
      "c' = (if n = 0 then Some (position_of (event_of e)) else Some (position_of (event_of (F ! (n - 1)))))"
      "truncated \<longrightarrow> n < length F \<and> MAXIMUM_SCANNED_ENTRIES \<le> scanned + 1 + n \<and> length out \<le> limit"
      "\<not> truncated \<longrightarrow> limit < length out \<or> n = length F" using Cons.IH by blast
    then show ?thesis by (intro exI [of _ "Suc n"]) (auto simp: nth_Cons')
  qed
qed auto

lemma filter_cut:
  assumes "0 < m" and "m < length (filter P xs)"
  shows "\<exists>j < length xs. filter P (take (Suc j) xs) = take m (filter P xs) \<and> last (take m (filter P xs)) = xs ! j"
  using assms
proof (induction xs arbitrary: m)
  case (Cons x xs)
  show ?case
  proof (cases "P x \<and> m = 1")
    case True
    then show ?thesis by (intro exI [of _ 0]) simp
  next
    case False
    let ?k = "if P x then m - 1 else m"
    from False Cons.prems have "0 < ?k" "?k < length (filter P xs)" by (auto split: if_splits)
    from Cons.IH [OF this] obtain j where j: "j < length xs" "filter P (take (Suc j) xs) = take ?k (filter P xs)"
      "last (take ?k (filter P xs)) = xs ! j" by blast
    from \<open>0 < ?k\<close> \<open>?k < length (filter P xs)\<close> have "take ?k (filter P xs) \<noteq> []" by auto
    with j False Cons.prems(1) show ?thesis
      by (intro exI [of _ "Suc j"]) (auto simp: take_Cons' split: if_splits)
  qed
qed simp

section \<open>Following the cursor\<close>

text \<open>Every event is stored under its own key.\<close>

definition keyed :: "audit_log \<Rightarrow> bool" where
  "keyed log \<longleftrightarrow> (\<forall>k v. t_get (log_events log) k = Some v \<longrightarrow> k = event_key (ar_event (decode_stored v)))"

lemma keyed_empty: "keyed empty_log"
  by (simp add: keyed_def empty_log_def)

lemma keyed_append: "keyed log \<Longrightarrow> append_in sha log e = Inr log' \<Longrightarrow> keyed log'"
  by (auto simp: keyed_def append_in_def Let_def rbind_Inr split: if_splits prod.splits)

lemma keyed_append_all: "keyed log \<Longrightarrow> append_all sha log es = Inr log' \<Longrightarrow> keyed log'"
  by (induction es arbitrary: log) (auto simp: rbind_Inr dest: keyed_append)

lemma keyed_append_each: "keyed log \<Longrightarrow> append_each sha faults n log es = (rs, log', n') \<Longrightarrow> keyed log'"
  by (induction es arbitrary: log rs n)
    (auto split: prod.splits sum.splits dest!: log_transaction_Inr dest: keyed_append)

lemma keyed_commit: "keyed log \<Longrightarrow> commit_appends sha faults n log batch = (rs, log', n') \<Longrightarrow> keyed log'"
  by (auto simp: commit_appends_def split: sum.splits if_splits
      dest!: log_transaction_Inr dest: keyed_append_all keyed_append_each)

lemma keyed_run: "keyed log \<Longrightarrow> log_run sha faults n log batches = (es, log') \<Longrightarrow> keyed log'"
  by (induction batches arbitrary: log es n) (auto split: prod.splits dest: keyed_commit)

definition query_page :: "audit_log \<times> AuditQuery \<Rightarrow> cursor option \<Rightarrow> (AuditError, AuditEvent list \<times> cursor option) result" where
  "query_page q c = (case q of (log, query) \<Rightarrow>
     rbind (audit_query log (query\<lparr>aq_after := c\<rparr>)) (\<lambda>page. Inr (ap_events page, ap_next page)))"

definition query_range :: "audit_log \<times> AuditQuery \<Rightarrow> cursor option \<Rightarrow> (bytes \<times> stored) list" where
  "query_range q c = (case q of (log, query) \<Rightarrow> t_range (log_events log) (query_start (query\<lparr>aq_after := c\<rparr>)) (query_end query))"

definition query_left :: "audit_log \<times> AuditQuery \<Rightarrow> cursor option \<Rightarrow> AuditEvent list" where
  "query_left q c = filter (query_accepts (snd q)) (map event_of (query_range q c))"

definition query_ok :: "audit_log \<times> AuditQuery \<Rightarrow> cursor option \<Rightarrow> bool" where
  "query_ok q c \<longleftrightarrow> keyed (fst q) \<and> 1 \<le> aq_limit (snd q) \<and> aq_limit (snd q) \<le> 1000"

lemma query_accepts_after [simp]: "query_accepts (query\<lparr>aq_after := c\<rparr>) = query_accepts query"
  by (simp add: query_accepts_def fun_eq_iff)

lemma query_end_after [simp]: "query_end (query\<lparr>aq_after := c\<rparr>) = query_end query"
  by (simp add: query_end_def)

lemma range_entry: "keyed (fst q) \<Longrightarrow> e \<in> set (query_range q c) \<Longrightarrow> fst e = event_key (event_of e)"
  by (cases q; cases e) (auto simp: query_range_def set_t_range keyed_def)

lemma range_after:
  assumes "keyed (fst q)" and "0 < n" "n \<le> length (query_range q c)"
  shows "query_range q (Some (position_of (event_of (query_range q c ! (n - 1))))) = drop n (query_range q c)"
proof -
  let ?F = "query_range q c"
  have l: "last (take n ?F) = ?F ! (n - 1)" using assms(2,3) by (subst last_conv_nth) (auto simp: min_def)
  have "?F ! (n - 1) \<in> set ?F" using assms(2,3) by simp
  from range_entry [OF assms(1) this] l have k: "fst (last (take n ?F)) = event_key (event_of (?F ! (n - 1)))" by simp
  show ?thesis
    using range_resumes [of n "log_events (fst q)" "query_start ((snd q)\<lparr>aq_after := c\<rparr>)" "query_end (snd q)"] assms(2,3) k
    by (cases q) (simp add: query_range_def query_start_def position_of_def event_key_def)
qed

lemma query_page_step:
  assumes ok: "query_ok q c"
  shows "\<exists>xs d. query_page q c = Inr (xs, d)
    \<and> (case d of None \<Rightarrow> query_left q c = xs
        | Some e \<Rightarrow> query_left q c = xs @ query_left q (Some e) \<and> length (query_range q (Some e)) < length (query_range q c))"
proof -
  obtain log query where q: "q = (log, query)" by (cases q)
  let ?F = "query_range q c" and ?P = "query_accepts query" and ?m = "unat (aq_limit query)"
  from ok q have keyed: "keyed (fst q)" and lim: "\<not> aq_limit query < 1" "\<not> 1000 < aq_limit query" by (auto simp: query_ok_def)
  then have m: "0 < ?m" by (simp add: word_less_nat_alt)
  obtain out truncated cur where scan: "scan_events ?P ?m 0 ?F [] None = (out, truncated, cur)" by (cases "scan_events ?P ?m 0 ?F [] None") auto
  have "length ([] :: AuditEvent list) \<le> Suc ?m" by simp
  from scan_events_spec [OF scan this, unfolded append_Nil add_0_left] obtain n where n: "n \<le> length ?F" "out = filter ?P (map event_of (take n ?F))" "length out \<le> Suc ?m"
    and cur: "cur = (if n = 0 then None else Some (position_of (event_of (?F ! (n - 1)))))"
    and tr: "truncated \<longrightarrow> n < length ?F \<and> MAXIMUM_SCANNED_ENTRIES \<le> n \<and> length out \<le> ?m"
    and fin: "\<not> truncated \<longrightarrow> ?m < length out \<or> n = length ?F" by blast
  have page: "query_page q c = Inr (if ?m < length out then (butlast out, if butlast out = [] then None else Some (position_of (last (butlast out))))
      else if truncated then (out, cur) else (out, None))"
    using lim scan by (simp add: query_page_def q audit_query_def Let_def query_range_def position_of_def)
  have rest: "query_left q (Some (position_of (event_of (?F ! (j - 1))))) = filter ?P (map event_of (drop j ?F))"
    "length (query_range q (Some (position_of (event_of (?F ! (j - 1)))))) < length ?F" if "0 < j" "j \<le> length ?F" for j
    using range_after [OF keyed that] that by (simp_all add: query_left_def q)
  have split: "query_left q c = filter ?P (map event_of (take j ?F)) @ filter ?P (map event_of (drop j ?F))" for j
    by (simp add: query_left_def q flip: filter_append map_append)
  show ?thesis
  proof (cases "?m < length out")
    case True
    have "length out = Suc ?m" using True n(3) by simp
    then have cut: "butlast out = take ?m out" by (simp add: butlast_conv_take)
    from filter_cut [OF m, of ?P "map event_of (take n ?F)"] True n(2) obtain j where j: "j < length (map event_of (take n ?F))"
      "filter ?P (take (Suc j) (map event_of (take n ?F))) = butlast out" "last (butlast out) = map event_of (take n ?F) ! j"
      unfolding cut by blast
    have "j < n" using j(1) by simp
    with j n(1) have j: "j < n" "filter ?P (map event_of (take (Suc j) ?F)) = butlast out" "last (butlast out) = event_of (?F ! j)"
      by (simp_all add: take_map)
    have "butlast out \<noteq> []" using True m by (cases out) auto
    with page True j(3) have "query_page q c = Inr (butlast out, Some (position_of (event_of (?F ! j))))" by simp
    moreover have "query_left q c = butlast out @ query_left q (Some (position_of (event_of (?F ! j))))"
      "length (query_range q (Some (position_of (event_of (?F ! j))))) < length ?F"
      using rest [of "Suc j"] split [of "Suc j"] j n(1) by simp_all
    ultimately show ?thesis by (intro exI [of _ "butlast out"] exI [of _ "Some (position_of (event_of (?F ! j)))"]) simp
  next
    case False
    show ?thesis
    proof (cases truncated)
      case True
      with tr have n0: "0 < n" by (simp add: MAXIMUM_SCANNED_ENTRIES_def)
      with page False True cur have "query_page q c = Inr (out, Some (position_of (event_of (?F ! (n - 1)))))" by simp
      moreover have "query_left q c = out @ query_left q (Some (position_of (event_of (?F ! (n - 1)))))"
        "length (query_range q (Some (position_of (event_of (?F ! (n - 1)))))) < length ?F"
        using rest [OF n0 n(1)] split [of n] n(2) by simp_all
      ultimately show ?thesis by (intro exI [of _ out] exI [of _ "Some (position_of (event_of (?F ! (n - 1))))"]) simp
    next
      case no: False
      with fin False have "n = length ?F" by simp
      with split [of n] n(2) have "query_left q c = out" by simp
      with page False no show ?thesis by (intro exI [of _ out] exI [of _ None]) simp
    qed
  qed
qed

interpretation aq: scanner query_page query_left "\<lambda>q c. length (query_range q c)" query_ok
proof
  fix q c assume "query_ok q c"
  from query_page_step [OF this] show "\<exists>xs d. query_page q c = Inr (xs, d)" by blast
next
  fix q c xs assume "query_ok q c" "query_page q c = Inr (xs, None)"
  with query_page_step [OF this(1)] show "query_left q c = xs" by auto
next
  fix q c xs d assume "query_ok q c" "query_page q c = Inr (xs, Some d)"
  with query_page_step [OF this(1)] show "query_left q c = xs @ query_left q (Some d) \<and> query_ok q (Some d)"
    by (auto simp: query_ok_def)
next
  fix q c xs d assume "query_ok q c" "query_page q c = Inr (xs, Some d)"
  with query_page_step [OF this(1)] show "length (query_range q (Some d)) < length (query_range q c)" by auto
qed

section \<open>The window of a query\<close>

definition in_window :: "AuditQuery \<Rightarrow> AuditEvent \<Rightarrow> bool" where
  "in_window query e \<longleftrightarrow> (case aq_since query of None \<Rightarrow> True | Some t \<Rightarrow> timestamp_micros t \<le> timestamp_micros (ae_timestamp e))
     \<and> (case aq_until query of None \<Rightarrow> True | Some t \<Rightarrow> timestamp_micros (ae_timestamp e) \<le> timestamp_micros t)"

definition after_epoch :: "datetime \<Rightarrow> bool" where
  "after_epoch t \<longleftrightarrow> 0 \<le> timestamp_micros t \<and> timestamp_micros t < 2 ^ 63"

lemma time_prefix_micros:
  assumes "after_epoch t"
  shows "time_prefix t = be_bytes 8 (nat (timestamp_micros t))" and "nat (timestamp_micros t) < 256 ^ 8"
proof -
  have "timestamp_micros t < 2 ^ 64" using assms by (simp add: after_epoch_def)
  then show "time_prefix t = be_bytes 8 (nat (timestamp_micros t))" "nat (timestamp_micros t) < 256 ^ 8"
    using assms by (auto simp: time_prefix_def after_epoch_def unsigned_of_int take_bit_int_eq_self)
qed

lemma be_bytes_full: "be_bytes w (256 ^ w - 1) = replicate w 0xFF"
proof (induction w)
  case (Suc w)
  have "(0 :: nat) < 256 ^ w" by simp
  then obtain n where n: "256 ^ w = Suc n" using gr0_implies_Suc by blast
  have "256 * Suc n - 1 = 255 + n * 256" by simp
  then have "(256 * Suc n - 1) div 256 = n" "(256 * Suc n - 1) mod 256 = 255" by (simp_all only: div_mult_self1 mod_mult_self1) simp_all
  with Suc n show ?case by (simp add: replicate_append_same [symmetric])
qed simp

lemma be_bytes_zero: "be_bytes w 0 = replicate w 0"
  by (induction w) (simp_all add: replicate_append_same)

lemma max_bytes: "replicate 16 0xFF = uuid_bytes (- 1)" "replicate 8 0xFF = be_bytes 8 (2 ^ 64 - 1)"
  using be_bytes_full [of 16] be_bytes_full [of 8]
  by (simp_all add: uuid_bytes_def unsigned_minus_1_eq_mask mask_eq_exp_minus_1)

lemma prefix_le: "length xs = length ys \<Longrightarrow> xs \<le> ys @ vs \<longleftrightarrow> xs \<le> ys" for xs ys vs :: bytes
  using list_less_append_same_length [of xs ys "[]" vs] by (cases vs) (auto simp: order.order_iff_strict)

lemma key_in_window:
  assumes e: "after_epoch (ae_timestamp e)" "ae_event_id e \<noteq> - 1"
    and w: "pred_option after_epoch (aq_since query)" "pred_option after_epoch (aq_until query)"
  shows "query_start (query\<lparr>aq_after := None\<rparr>) \<le> event_key e \<and> event_key e < query_end query \<longleftrightarrow> in_window query e"
proof -
  let ?m = "nat (timestamp_micros (ae_timestamp e))" and ?u = "uuid_bytes (ae_event_id e)"
  note m = time_prefix_micros [OF e(1)]
  have key: "event_key e = be_bytes 8 ?m @ ?u" by (simp add: event_key_def event_key_parts_def m)
  have small: "?m < 2 ^ 64 - 1" using e(1) by (simp add: after_epoch_def nat_less_iff)
  have "ae_event_id e < - 1" using e(2) by (simp add: word_order.not_eq_extremum)
  then have last: "?u < replicate 16 0xFF" by (simp only: max_bytes uuid_bytes_less)
  have "query_start (query\<lparr>aq_after := None\<rparr>) \<le> event_key e
    \<longleftrightarrow> (case aq_since query of None \<Rightarrow> True | Some t \<Rightarrow> timestamp_micros t \<le> timestamp_micros (ae_timestamp e))"
  proof (cases "aq_since query")
    case None
    have "replicate 24 0 = be_bytes 8 0 @ uuid_bytes 0" by (simp add: uuid_bytes_def be_bytes_zero flip: replicate_add)
    moreover have "be_bytes 8 0 @ uuid_bytes 0 \<le> be_bytes 8 ?m @ ?u"
      using m(2) by (auto simp: order.order_iff_strict list_less_append_same_length be_bytes_less be_bytes_inject uuid_bytes_less word_neq_0_conv)
    ultimately show ?thesis using None by (simp add: query_start_def key)
  next
    case (Some t)
    with w have t: "after_epoch t" by simp
    note t' = time_prefix_micros [OF t]
    from t' m(2) have "time_prefix t \<le> be_bytes 8 ?m \<longleftrightarrow> nat (timestamp_micros t) \<le> ?m"
      by (auto simp: order.order_iff_strict be_bytes_less be_bytes_inject)
    moreover have "nat (timestamp_micros t) \<le> ?m \<longleftrightarrow> timestamp_micros t \<le> timestamp_micros (ae_timestamp e)"
      using t e(1) by (simp add: after_epoch_def nat_le_eq_zle)
    moreover have "length (time_prefix t) = 8" by (simp add: t')
    ultimately show ?thesis using Some by (auto simp: query_start_def key prefix_le Let_def)
  qed
  moreover have "event_key e < query_end query
    \<longleftrightarrow> (case aq_until query of None \<Rightarrow> True | Some t \<Rightarrow> timestamp_micros (ae_timestamp e) \<le> timestamp_micros t)"
  proof (cases "aq_until query")
    case None
    have "replicate 25 (0xFF :: u8) = replicate 8 0xFF @ replicate 17 0xFF" by (simp add: replicate_add [symmetric])
    with None small m(2) show ?thesis
      by (simp add: query_end_def key list_less_append_same_length max_bytes be_bytes_less)
  next
    case (Some t)
    with w have t: "after_epoch t" by simp
    note t' = time_prefix_micros [OF t]
    have "?m \<le> nat (timestamp_micros t) \<longleftrightarrow> timestamp_micros (ae_timestamp e) \<le> timestamp_micros t"
      using t e(1) by (simp add: after_epoch_def nat_le_eq_zle)
    with Some t' m(2) last show ?thesis
      by (auto simp: query_end_def key list_less_append_same_length be_bytes_less be_bytes_inject order.order_iff_strict)
  qed
  ultimately show ?thesis by (simp add: in_window_def)
qed

section \<open>Completeness\<close>

definition stored_events :: "audit_log \<Rightarrow> AuditEvent set" where
  "stored_events log = {ar_event (decode_stored v) | k v. t_get (log_events log) k = Some v}"

lemma stored_append:
  assumes "append_in sha log e = Inr log'"
  shows "stored_events log' = insert e (stored_events log)"
proof -
  from assms have "t_get (log_events log) (event_key e) = None"
    and "\<exists>r. ar_event r = e \<and> log_events log' = t_insert (event_key e) (Chained r) (log_events log)"
    by (auto simp: append_in_def Let_def rbind_Inr split: if_splits prod.splits intro!: exI)
  then obtain r where r: "ar_event r = e" and fresh: "t_get (log_events log) (event_key e) = None"
    and get: "t_get (log_events log') k = (if k = event_key e then Some (Chained r) else t_get (log_events log) k)" for k by auto
  have "ar_event (decode_stored v) \<in> stored_events log'" if "t_get (log_events log) k = Some v" for k v
  proof -
    have "t_get (log_events log') k = Some v" using that fresh get [of k] by auto
    then show ?thesis unfolding stored_events_def by blast
  qed
  moreover have "e \<in> stored_events log'" using get [of "event_key e"] r unfolding stored_events_def by force
  moreover have "stored_events log' \<subseteq> insert e (stored_events log)" using r by (auto simp: stored_events_def get split: if_splits)
  ultimately show ?thesis by (auto simp: stored_events_def [of log])
qed

lemma stored_append_all: "append_all sha log es = Inr log' \<Longrightarrow> stored_events log' = stored_events log \<union> set es"
  by (induction es arbitrary: log) (auto simp: rbind_Inr stored_append)

lemma stored_append_each:
  "append_each sha faults n log es = (rs, log', n') \<Longrightarrow> stored_events log' = stored_events log \<union> set (acknowledged es rs)"
proof (induction es arbitrary: log rs n)
  case (Cons e es)
  show ?case
  proof (cases "log_transaction (faults n) (\<lambda>log. append_in sha log e) log")
    case (Inl err)
    with Cons show ?thesis by (auto split: prod.splits)
  next
    case (Inr log1)
    with Cons.prems obtain rs' where "append_each sha faults (n + 1) log1 es = (rs', log', n')" "rs = Inr () # rs'"
      by (auto split: prod.splits)
    with Cons.IH stored_append [OF log_transaction_Inr [OF Inr]] show ?thesis by simp
  qed
qed simp

lemma stored_commit:
  assumes "commit_appends sha faults n log batch = (rs, log', n')"
  shows "stored_events log' = stored_events log \<union> set (acknowledged batch rs)"
proof (cases "log_transaction (faults n) (\<lambda>log. append_all sha log batch) log")
  case (Inl err)
  show ?thesis
  proof (cases "length batch = 1")
    case True
    then obtain e where "batch = [e]" by (cases batch) auto
    with Inl assms show ?thesis by (auto simp: commit_appends_def)
  next
    case False
    with Inl assms have "append_each sha faults (n + 1) log batch = (rs, log', n')" by (simp add: commit_appends_def)
    then show ?thesis by (rule stored_append_each)
  qed
next
  case (Inr log1)
  with assms have "log' = log1" "rs = map (\<lambda>_. Inr ()) batch" by (simp_all add: commit_appends_def)
  with stored_append_all [OF log_transaction_Inr [OF Inr]] show ?thesis by simp
qed

lemma stored_run: "log_run sha faults n log batches = (es, log') \<Longrightarrow> stored_events log' = stored_events log \<union> set es"
proof (induction batches arbitrary: log es n)
  case (Cons b batches)
  obtain rs log1 m where c: "commit_appends sha faults n log b = (rs, log1, m)" by (cases "commit_appends sha faults n log b") auto
  with Cons.prems obtain fs where "log_run sha faults m log1 batches = (fs, log')" "es = acknowledged b rs @ fs"
    by (auto split: prod.splits)
  with Cons.IH stored_commit [OF c] show ?case by auto
qed simp

lemma range_events:
  assumes "keyed log"
  shows "e \<in> event_of ` set (t_range (log_events log) lo hi) \<longleftrightarrow> e \<in> stored_events log \<and> lo \<le> event_key e \<and> event_key e < hi"
proof
  assume "e \<in> event_of ` set (t_range (log_events log) lo hi)"
  then obtain k v where "(k, v) \<in> set (t_range (log_events log) lo hi)" "e = ar_event (decode_stored v)" by auto
  with assms show "e \<in> stored_events log \<and> lo \<le> event_key e \<and> event_key e < hi"
    unfolding set_t_range stored_events_def keyed_def by blast
next
  assume e: "e \<in> stored_events log \<and> lo \<le> event_key e \<and> event_key e < hi"
  then obtain k v where kv: "t_get (log_events log) k = Some v" "e = ar_event (decode_stored v)" unfolding stored_events_def by blast
  with assms have "k = event_key e" unfolding keyed_def by blast
  with kv e have "(k, v) \<in> set (t_range (log_events log) lo hi)" by (simp add: set_t_range)
  with kv(2) show "e \<in> event_of ` set (t_range (log_events log) lo hi)" by (intro image_eqI [of _ _ "(k, v)"]) simp_all
qed

lemma range_keys:
  assumes "keyed (fst q)"
  shows "map event_key (map event_of (query_range q c)) = map fst (query_range q c)"
  using range_entry [OF assms] by (auto simp: map_eq_conv)

text \<open>
  C29. A query finds everything. Following the cursor of an audit query from its first page returns, in the order
  of the keys and each once, exactly the acknowledged events inside the time window that pass the filters. This
  holds for every page size, also when the scan budget ends a page that found nothing; the client needs at most
  one call more than the log has entries.
\<close>

theorem audit_query_is_complete:
  assumes "log_run sha faults n empty_log batches = (es, log)"
    and "list_all (\<lambda>e. after_epoch (ae_timestamp e) \<and> ae_event_id e \<noteq> - 1) es"
    and "pred_option after_epoch (aq_since query)" and "pred_option after_epoch (aq_until query)"
    and "1 \<le> aq_limit query" and "aq_limit query \<le> 1000" and "length (t_iter (log_events log)) < k"
  shows "\<exists>xs. walk (query_page (log, query)) k None = Some (Inr xs) \<and> sorted_wrt (\<lambda>e e'. event_key e < event_key e') xs
    \<and> set xs = {e. e \<in> set es \<and> in_window query e \<and> query_accepts query e}"
proof -
  let ?q = "(log, query)"
  have keyed: "keyed log" by (rule keyed_run [OF keyed_empty assms(1)])
  then have ok: "query_ok ?q None" using assms(5,6) by (simp add: query_ok_def)
  have "length (query_range ?q None) < k" using assms(7) by (simp add: query_range_def t_range_def le_less_trans [OF length_filter_le])
  from aq.walk_all [OF ok this] have w: "walk (query_page ?q) k None = Some (Inr (query_left ?q None))" .
  have "sorted_wrt (<) (map fst (query_range ?q None))" by (simp add: query_range_def t_range_sorted)
  then have "sorted_wrt (<) (map event_key (map event_of (query_range ?q None)))" unfolding range_keys [of ?q None, unfolded fst_conv, OF keyed] .
  then have "sorted_wrt (\<lambda>e e'. event_key e < event_key e') (map event_of (query_range ?q None))" by (simp only: sorted_wrt_map)
  then have s: "sorted_wrt (\<lambda>e e'. event_key e < event_key e') (query_left ?q None)"
    unfolding query_left_def by (rule sorted_wrt_filter)
  have es: "stored_events log = set es" using stored_run [OF assms(1)] by (simp add: stored_events_def empty_log_def)
  have "e \<in> set (map event_of (query_range ?q None)) \<longleftrightarrow> e \<in> set es \<and> in_window query e" for e
  proof -
    have "e \<in> set (map event_of (query_range ?q None)) \<longleftrightarrow>
        e \<in> stored_events log \<and> query_start (query\<lparr>aq_after := None\<rparr>) \<le> event_key e \<and> event_key e < query_end query"
      using range_events [OF keyed] by (simp add: query_range_def)
    also have "\<dots> \<longleftrightarrow> e \<in> set es \<and> in_window query e"
      unfolding es using assms(2) key_in_window [OF _ _ assms(3,4)] by (auto simp: list_all_iff)
    finally show ?thesis .
  qed
  then have "set (query_left ?q None) = {e. e \<in> set es \<and> in_window query e \<and> query_accepts query e}"
    by (auto simp: query_left_def)
  with w s show ?thesis by blast
qed

definition sample_query :: AuditQuery where
  "sample_query = \<lparr>aq_since = Some 6000, aq_until = None, aq_principal = Some (lit ''alice''), aq_operation = None,
     aq_resource_prefix = Some (lit ''/records''), aq_result = Some Attempted, aq_source_ip = None, aq_request_id = None,
     aq_after = None, aq_limit = 1\<rparr>"

theorem audit_query_is_complete_witness:
  "\<exists>xs. walk (query_page (snd sample_log_run, sample_query)) (length (t_iter (log_events (snd sample_log_run))) + 1) None = Some (Inr xs)
     \<and> set xs = {sample_event 2 6000}"
proof -
  have "list_all (\<lambda>e. after_epoch (ae_timestamp e) \<and> ae_event_id e \<noteq> - 1) (fst sample_log_run)"
    by (simp add: sample_log_events sample_event_def intent_event_def after_epoch_def timestamp_micros_def)
  moreover have "pred_option after_epoch (aq_since sample_query)"
    by (simp add: sample_query_def after_epoch_def timestamp_micros_def)
  ultimately obtain xs where
    "walk (query_page (snd sample_log_run, sample_query)) (length (t_iter (log_events (snd sample_log_run))) + 1) None = Some (Inr xs)"
    "set xs = {e. e \<in> set (fst sample_log_run) \<and> in_window sample_query e \<and> query_accepts sample_query e}"
    using audit_query_is_complete [OF sample_log_run, of sample_query "length (t_iter (log_events (snd sample_log_run))) + 1"]
    by (auto simp: sample_query_def)
  moreover have "query_accepts sample_query (sample_event u t)" for u t
    by (simp add: sample_query_def query_accepts_def sample_event_def intent_event_def lit_def)
  moreover have "\<not> in_window sample_query (sample_event 1 5000)" "in_window sample_query (sample_event 2 6000)"
    by (simp_all add: sample_query_def in_window_def sample_event_def intent_event_def timestamp_micros_def)
  ultimately show ?thesis by (auto simp: sample_log_events)
qed

end
