(* ===== verification/Cluster_Topology.thy ===== *)
theory Cluster_Topology
  imports Domain
begin

text \<open>
  The members of a cluster (\<^verbatim>\<open>crates/record-store-cluster/src\<close>: \<^verbatim>\<open>config.rs\<close>, \<^verbatim>\<open>device.rs\<close>, \<^verbatim>\<open>policy.rs\<close>,
  \<^verbatim>\<open>version.rs\<close>, \<^verbatim>\<open>topology.rs\<close>): the cluster-wide configuration, devices with their capacity, health and
  lifecycle, storage policies, node records and their lifecycle, and the topology view placement reads.

  Constructors carry the name of their enum as a prefix where the enums share names (\<open>NodeHealthy\<close>,
  \<open>DeviceHealthy\<close>). Paths are strings. The text form of a UUID is a parameter \<open>show\<close>.
\<close>

type_synonym u128 = "128 word"
type_synonym NodeId = uuid
type_synonym DeviceId = uuid
type_synonym ClusterId = uuid
type_synonym RaftNodeId = u64

definition saturating_mul :: "'w::len word \<Rightarrow> 'w word \<Rightarrow> 'w word" where
  "saturating_mul a b = (if unat a * unat b < 2 ^ LENGTH('w) then a * b else - 1)"

definition default_storage_class :: StorageClass where
  "default_storage_class = lit ''standard''"

section \<open>Versions\<close>

record ProtocolVersion =
  pv_major :: u32
  pv_minor :: u32

record NodeVersions =
  nv_protocol :: ProtocolVersion
  nv_software :: str
  nv_storage_format :: u32
  nv_cluster_format :: u32

definition MINIMUM_COMPATIBLE_PROTOCOL_MINOR_VERSION :: u32 where "MINIMUM_COMPATIBLE_PROTOCOL_MINOR_VERSION = 1"

datatype CompatibilityError =
    ProtocolMajor u32 u32
  | ProtocolMinorTooOld u32 u32
  | StorageFormatTooNew u32 u32
  | ClusterFormatTooNew u32 u32

definition check_compatibility :: "NodeVersions \<Rightarrow> NodeVersions \<Rightarrow> (CompatibilityError, unit) result" where
  "check_compatibility loc remote =
     (if pv_major (nv_protocol loc) \<noteq> pv_major (nv_protocol remote)
      then Inl (ProtocolMajor (pv_major (nv_protocol loc)) (pv_major (nv_protocol remote)))
      else if pv_minor (nv_protocol remote) < MINIMUM_COMPATIBLE_PROTOCOL_MINOR_VERSION
      then Inl (ProtocolMinorTooOld (pv_minor (nv_protocol remote)) MINIMUM_COMPATIBLE_PROTOCOL_MINOR_VERSION)
      else if nv_storage_format remote > nv_storage_format loc
      then Inl (StorageFormatTooNew (nv_storage_format loc) (nv_storage_format remote))
      else if nv_cluster_format remote > nv_cluster_format loc
      then Inl (ClusterFormatTooNew (nv_cluster_format loc) (nv_cluster_format remote))
      else Inr ())"

section \<open>Node states\<close>

datatype NodeState =
    NodeJoining | NodeHealthy | NodeSuspect | NodeUnreachable | NodeDraining | NodeMaintenance | NodeOffline | NodeDecommissioned

datatype TopologyError =
    TopologyInvalidStorageClass str
  | InvalidFailureDomain str
  | InvalidNodeTransition NodeState NodeState
  | InvalidAddress str
  | UnknownNodeState str

definition node_accepts_new_replicas :: "NodeState \<Rightarrow> bool" where
  "node_accepts_new_replicas s \<longleftrightarrow> s = NodeHealthy"

definition node_serves_reads :: "NodeState \<Rightarrow> bool" where
  "node_serves_reads s \<longleftrightarrow> s \<in> {NodeHealthy, NodeSuspect, NodeDraining}"

definition node_contributes_durability :: "NodeState \<Rightarrow> bool" where
  "node_contributes_durability s \<longleftrightarrow> s \<in> {NodeHealthy, NodeSuspect, NodeUnreachable, NodeDraining, NodeMaintenance}"

definition node_expected_reachable :: "NodeState \<Rightarrow> bool" where
  "node_expected_reachable s \<longleftrightarrow> s \<in> {NodeJoining, NodeHealthy, NodeSuspect, NodeDraining, NodeMaintenance}"

definition node_is_terminal :: "NodeState \<Rightarrow> bool" where
  "node_is_terminal s \<longleftrightarrow> s = NodeDecommissioned"

definition node_is_administrative :: "NodeState \<Rightarrow> bool" where
  "node_is_administrative s \<longleftrightarrow> s \<in> {NodeDraining, NodeMaintenance, NodeDecommissioned}"

definition node_can_transition :: "NodeState \<Rightarrow> NodeState \<Rightarrow> bool" where
  "node_can_transition s t =
     (if s = t then True
      else if node_is_terminal s then False
      else case s of
        NodeJoining \<Rightarrow>
          t \<in> {NodeHealthy, NodeSuspect, NodeUnreachable, NodeOffline, NodeMaintenance, NodeDecommissioned}
      | NodeHealthy \<Rightarrow>
          t \<in> {NodeSuspect, NodeUnreachable, NodeOffline, NodeDraining, NodeMaintenance, NodeDecommissioned}
      | NodeSuspect \<Rightarrow>
          t \<in> {NodeHealthy, NodeUnreachable, NodeOffline, NodeDraining, NodeMaintenance, NodeDecommissioned}
      | NodeUnreachable \<Rightarrow>
          t \<in> {NodeHealthy, NodeSuspect, NodeOffline, NodeDraining, NodeMaintenance, NodeDecommissioned}
      | NodeOffline \<Rightarrow>
          t \<in> {NodeJoining, NodeHealthy, NodeSuspect, NodeUnreachable, NodeMaintenance, NodeDecommissioned}
      | NodeDraining \<Rightarrow>
          t \<in> {NodeHealthy, NodeMaintenance, NodeDecommissioned, NodeSuspect, NodeUnreachable, NodeOffline}
      | NodeMaintenance \<Rightarrow>
          t \<in> {NodeHealthy, NodeDraining, NodeDecommissioned, NodeSuspect, NodeUnreachable, NodeOffline}
      | NodeDecommissioned \<Rightarrow> False)"

section \<open>Failure domains\<close>

datatype FailureDomainScope = ScopeDevice | ScopeNode | ScopeHost | ScopeRack | ScopeDatacenter | ScopeZone | ScopeRegion

fun scope_label :: "FailureDomainScope \<Rightarrow> str option" where
  "scope_label ScopeDevice = None"
| "scope_label ScopeNode = None"
| "scope_label ScopeHost = Some (lit ''host'')"
| "scope_label ScopeRack = Some (lit ''rack'')"
| "scope_label ScopeDatacenter = Some (lit ''datacenter'')"
| "scope_label ScopeZone = Some (lit ''zone'')"
| "scope_label ScopeRegion = Some (lit ''region'')"

fun scope_to_string :: "FailureDomainScope \<Rightarrow> str" where
  "scope_to_string ScopeDevice = lit ''device''"
| "scope_to_string ScopeNode = lit ''node''"
| "scope_to_string ScopeHost = lit ''host''"
| "scope_to_string ScopeRack = lit ''rack''"
| "scope_to_string ScopeDatacenter = lit ''datacenter''"
| "scope_to_string ScopeZone = lit ''zone''"
| "scope_to_string ScopeRegion = lit ''region''"

definition scope_from_str :: "str \<Rightarrow> (TopologyError, FailureDomainScope) result" where
  "scope_from_str value =
     (if value = lit ''device'' then Inr ScopeDevice
      else if value = lit ''node'' then Inr ScopeNode
      else if value = lit ''host'' then Inr ScopeHost
      else if value = lit ''rack'' then Inr ScopeRack
      else if value = lit ''datacenter'' then Inr ScopeDatacenter
      else if value = lit ''zone'' then Inr ScopeZone
      else if value = lit ''region'' then Inr ScopeRegion
      else Inl (InvalidFailureDomain (lit ''unknown failure-domain scope '' @ [0x27] @ value @ [0x27])))"

type_synonym FailureDomain = "(str, str) table"

definition MAX_LABELS :: nat where "MAX_LABELS = 16"
definition MAX_LABEL_LENGTH :: nat where "MAX_LABEL_LENGTH = 63"

definition validate_label :: "str \<Rightarrow> (TopologyError, unit) result" where
  "validate_label value =
     rbind (ensure (\<not> (value = [] \<or> length value > MAX_LABEL_LENGTH))
              (InvalidFailureDomain (lit ''label keys and values must contain between 1 and 63 bytes''))) (\<lambda>_.
     ensure (list_all (\<lambda>b. is_ascii_lowercase b \<or> is_ascii_uppercase b \<or> is_ascii_digit b
                            \<or> b = 0x2D \<or> b = 0x5F \<or> b = 0x2E) value)
       (InvalidFailureDomain (lit ''label keys and values may only contain letters, digits, '' @
          [0x27, 0x2D, 0x27] @ lit '', '' @ [0x27, 0x5F, 0x27] @ lit '', and '' @ [0x27, 0x2E, 0x27])))"

fun validate_labels :: "(str \<times> str) list \<Rightarrow> (TopologyError, unit) result" where
  "validate_labels [] = Inr ()"
| "validate_labels ((key, value) # rest) =
     rbind (validate_label key) (\<lambda>_. rbind (validate_label value) (\<lambda>_. validate_labels rest))"

definition failure_domain_new :: "FailureDomain \<Rightarrow> (TopologyError, FailureDomain) result" where
  "failure_domain_new labels =
     rbind (ensure (\<not> length (t_iter labels) > MAX_LABELS)
              (InvalidFailureDomain (lit ''at most 16 labels are allowed''))) (\<lambda>_.
     rbind (validate_labels (t_iter labels)) (\<lambda>_. Inr labels))"

definition domain_key :: "(uuid \<Rightarrow> str) \<Rightarrow> FailureDomain \<Rightarrow> FailureDomainScope \<Rightarrow> NodeId \<Rightarrow> str" where
  "domain_key show fd scope node_id =
     (case scope of
        ScopeDevice \<Rightarrow> lit ''unknown:device''
      | ScopeNode \<Rightarrow> lit ''node:'' @ show node_id
      | other \<Rightarrow>
          case Option.bind (scope_label other) (t_get fd) of
            Some value \<Rightarrow> scope_to_string other @ lit '':'' @ value
          | None \<Rightarrow> lit ''unknown:'' @ scope_to_string other)"

section \<open>Cluster configuration\<close>

definition MAXIMUM_REPLICATION_FACTOR :: u8 where "MAXIMUM_REPLICATION_FACTOR = 3"

type_synonym ClusterConfigError = str

datatype CapacityLevel = LevelNormal | LevelConstrained | LevelUrgent | LevelCritical

record CapacityWatermarks =
  low_percent :: u32
  high_percent :: u32
  critical_percent :: u32

definition watermark_level :: "CapacityWatermarks \<Rightarrow> u32 \<Rightarrow> CapacityLevel" where
  "watermark_level w utilization =
     (if utilization \<ge> critical_percent w then LevelCritical
      else if utilization \<ge> high_percent w then LevelUrgent
      else if utilization \<ge> low_percent w then LevelConstrained
      else LevelNormal)"

definition watermarks_validate :: "CapacityWatermarks \<Rightarrow> (ClusterConfigError, unit) result" where
  "watermarks_validate w =
     ensure (\<not> (low_percent w = 0 \<or> low_percent w \<ge> high_percent w \<or> high_percent w \<ge> critical_percent w
                \<or> critical_percent w > 100))
       (lit ''capacity watermarks must satisfy 0 < low < high < critical <= 100'')"

fun level_accepts_new_replicas :: "CapacityLevel \<Rightarrow> bool" where
  "level_accepts_new_replicas LevelNormal = True"
| "level_accepts_new_replicas LevelConstrained = True"
| "level_accepts_new_replicas _ = False"

fun level_needs_relief :: "CapacityLevel \<Rightarrow> bool" where
  "level_needs_relief LevelUrgent = True"
| "level_needs_relief LevelCritical = True"
| "level_needs_relief _ = False"

datatype WriteAcknowledgement = Quorum | AckAll | AckCount u8

fun acknowledgement_required :: "WriteAcknowledgement \<Rightarrow> u8 \<Rightarrow> u8" where
  "acknowledgement_required Quorum factor = factor div 2 + 1"
| "acknowledgement_required AckAll factor = factor"
| "acknowledgement_required (AckCount count) factor =
     (if count > factor then factor else if count = 0 then 1 else count)"

record MovementPolicy =
  mp_maximum_concurrent_tasks :: u32
  mp_maximum_streams_per_node :: u32
  mp_maximum_bytes_per_second :: u64
  mp_interval_seconds :: u64
  mp_batch_size :: u32

definition movement_validate :: "MovementPolicy \<Rightarrow> str \<Rightarrow> (ClusterConfigError, unit) result" where
  "movement_validate p name =
     rbind (ensure (\<not> (mp_maximum_concurrent_tasks p = 0 \<or> mp_maximum_concurrent_tasks p > 1024))
              (name @ lit ''.maximum_concurrent_tasks must be between 1 and 1024'')) (\<lambda>_.
     rbind (ensure (\<not> (mp_maximum_streams_per_node p = 0 \<or> mp_maximum_streams_per_node p > 256))
              (name @ lit ''.maximum_streams_per_node must be between 1 and 256'')) (\<lambda>_.
     rbind (ensure (\<not> (mp_interval_seconds p = 0 \<or> mp_interval_seconds p > 86400))
              (name @ lit ''.interval_seconds must be between 1 and 86400'')) (\<lambda>_.
     ensure (\<not> (mp_batch_size p = 0 \<or> mp_batch_size p > 10000))
       (name @ lit ''.batch_size must be between 1 and 10000''))))"

record RepairPolicy =
  rp_movement :: MovementPolicy
  rp_maximum_attempts :: u32
  rp_lease_seconds :: u64

record RebalancePolicy =
  rb_automatic :: bool
  rb_movement :: MovementPolicy
  rb_tolerance_percent :: u32

record FailureDetectionPolicy =
  heartbeat_interval_seconds :: u64
  suspect_timeout_seconds :: u64
  offline_timeout_seconds :: u64

definition failure_detection_validate :: "FailureDetectionPolicy \<Rightarrow> (ClusterConfigError, unit) result" where
  "failure_detection_validate p =
     rbind (ensure (\<not> (heartbeat_interval_seconds p = 0 \<or> heartbeat_interval_seconds p > 300))
              (lit ''failure_detection.heartbeat_interval_seconds must be between 1 and 300'')) (\<lambda>_.
     rbind (ensure (\<not> suspect_timeout_seconds p \<le> heartbeat_interval_seconds p)
              (lit ''failure_detection.suspect_timeout_seconds must exceed the heartbeat interval'')) (\<lambda>_.
     rbind (ensure (\<not> offline_timeout_seconds p \<le> suspect_timeout_seconds p)
              (lit ''failure_detection.offline_timeout_seconds must exceed the suspect timeout'')) (\<lambda>_.
     ensure (\<not> offline_timeout_seconds p > 86400)
       (lit ''failure_detection.offline_timeout_seconds must not exceed 86400''))))"

record ClusterConfig =
  cfg_replication_factor :: u8
  cfg_write_acknowledgement :: WriteAcknowledgement
  cfg_failure_domain_scope :: FailureDomainScope
  cfg_strict_failure_domains :: bool
  cfg_allow_degraded_writes :: bool
  cfg_watermarks :: CapacityWatermarks
  cfg_capacity_safety_margin_bytes :: u64
  cfg_failure_detection :: FailureDetectionPolicy
  cfg_repair :: RepairPolicy
  cfg_rebalance :: RebalancePolicy
  cfg_metadata_voter_target :: u8
  cfg_maintenance_serves_reads :: bool
  cfg_tombstone_retention_hours :: u32
  cfg_unknown_upload_size_reservation_bytes :: u64

definition default_config :: ClusterConfig where
  "default_config = \<lparr>
     cfg_replication_factor = 3,
     cfg_write_acknowledgement = Quorum,
     cfg_failure_domain_scope = ScopeRack,
     cfg_strict_failure_domains = False,
     cfg_allow_degraded_writes = True,
     cfg_watermarks = \<lparr>low_percent = 80, high_percent = 90, critical_percent = 95\<rparr>,
     cfg_capacity_safety_margin_bytes = 1024 * 1024 * 1024,
     cfg_failure_detection =
       \<lparr>heartbeat_interval_seconds = 5, suspect_timeout_seconds = 20, offline_timeout_seconds = 120\<rparr>,
     cfg_repair = \<lparr>
       rp_movement = \<lparr>mp_maximum_concurrent_tasks = 8, mp_maximum_streams_per_node = 4,
         mp_maximum_bytes_per_second = 64 * 1024 * 1024, mp_interval_seconds = 30, mp_batch_size = 256\<rparr>,
       rp_maximum_attempts = 8, rp_lease_seconds = 600\<rparr>,
     cfg_rebalance = \<lparr>
       rb_automatic = False,
       rb_movement = \<lparr>mp_maximum_concurrent_tasks = 4, mp_maximum_streams_per_node = 2,
         mp_maximum_bytes_per_second = 32 * 1024 * 1024, mp_interval_seconds = 300, mp_batch_size = 128\<rparr>,
       rb_tolerance_percent = 10\<rparr>,
     cfg_metadata_voter_target = 3,
     cfg_maintenance_serves_reads = True,
     cfg_tombstone_retention_hours = 168,
     cfg_unknown_upload_size_reservation_bytes = 64 * 1024 * 1024\<rparr>"

definition standalone_config :: ClusterConfig where
  "standalone_config = default_config\<lparr>cfg_replication_factor := 1, cfg_write_acknowledgement := AckAll,
     cfg_failure_domain_scope := ScopeNode, cfg_metadata_voter_target := 1\<rparr>"

definition config_required_acknowledgements :: "ClusterConfig \<Rightarrow> u8" where
  "config_required_acknowledgements c = acknowledgement_required (cfg_write_acknowledgement c) (cfg_replication_factor c)"

definition config_validate :: "ClusterConfig \<Rightarrow> (ClusterConfigError, unit) result" where
  "config_validate c =
     rbind (ensure (\<not> (cfg_replication_factor c = 0 \<or> cfg_replication_factor c > MAXIMUM_REPLICATION_FACTOR))
              (lit ''replication_factor must be between 1 and 3'')) (\<lambda>_.
     rbind (ensure (case cfg_write_acknowledgement c of
                      AckCount count \<Rightarrow> \<not> (count = 0 \<or> count > cfg_replication_factor c)
                    | _ \<Rightarrow> True)
              (lit ''write_acknowledgement count must be between 1 and replication_factor'')) (\<lambda>_.
     rbind (watermarks_validate (cfg_watermarks c)) (\<lambda>_.
     rbind (failure_detection_validate (cfg_failure_detection c)) (\<lambda>_.
     rbind (movement_validate (rp_movement (cfg_repair c)) (lit ''repair'')) (\<lambda>_.
     rbind (movement_validate (rb_movement (cfg_rebalance c)) (lit ''rebalance'')) (\<lambda>_.
     rbind (ensure (\<not> (rp_maximum_attempts (cfg_repair c) = 0 \<or> rp_maximum_attempts (cfg_repair c) > 1000))
              (lit ''repair.maximum_attempts must be between 1 and 1000'')) (\<lambda>_.
     rbind (ensure (\<not> (rp_lease_seconds (cfg_repair c) < 10 \<or> rp_lease_seconds (cfg_repair c) > 86400))
              (lit ''repair.lease_seconds must be between 10 and 86400'')) (\<lambda>_.
     rbind (ensure (\<not> (rb_tolerance_percent (cfg_rebalance c) = 0 \<or> rb_tolerance_percent (cfg_rebalance c) > 50))
              (lit ''rebalance.tolerance_percent must be between 1 and 50'')) (\<lambda>_.
     rbind (ensure (\<not> (cfg_metadata_voter_target c = 0 \<or> cfg_metadata_voter_target c > 7))
              (lit ''metadata_voter_target must be between 1 and 7'')) (\<lambda>_.
     rbind (ensure (\<not> (cfg_metadata_voter_target c > 1 \<and> cfg_metadata_voter_target c mod 2 = 0))
              (lit ''metadata_voter_target must be odd so that a quorum is unambiguous'')) (\<lambda>_.
     rbind (ensure (\<not> (cfg_tombstone_retention_hours c = 0 \<or> cfg_tombstone_retention_hours c > 8760))
              (lit ''tombstone_retention_hours must be between 1 and 8760'')) (\<lambda>_.
     ensure (\<not> (cfg_unknown_upload_size_reservation_bytes c = 0
                \<or> cfg_unknown_upload_size_reservation_bytes c > 1024 ^ 4))
       (lit ''unknown_upload_size_reservation_bytes must be between 1 and 1 TiB'')))))))))))))"

section \<open>Devices\<close>

datatype DeviceKind =
    Nvme | SataSsd | SasSsd | SataHdd | SasHdd | Ssd | Hdd | BlockDevice | RaidLogicalVolume | CloudBlockVolume
  | FilesystemDirectory | KindUnknown

fun rotational :: "DeviceKind \<Rightarrow> bool option" where
  "rotational SataHdd = Some True"
| "rotational SasHdd = Some True"
| "rotational Hdd = Some True"
| "rotational Nvme = Some False"
| "rotational SataSsd = Some False"
| "rotational SasSsd = Some False"
| "rotational Ssd = Some False"
| "rotational _ = None"

definition default_movement_concurrency :: "DeviceKind \<Rightarrow> u32" where
  "default_movement_concurrency kind =
     (case rotational kind of Some True \<Rightarrow> 1 | Some False \<Rightarrow> 4 | None \<Rightarrow> 2)"

datatype DeviceHealth = HealthUnknown | HealthHealthy | HealthDegraded | HealthFailed | HealthUnavailable | HealthUnsupported

definition permits_placement :: "DeviceHealth \<Rightarrow> bool" where
  "permits_placement h \<longleftrightarrow> h \<in> {HealthUnknown, HealthHealthy, HealthUnsupported}"

definition health_contributes_durability :: "DeviceHealth \<Rightarrow> bool" where
  "health_contributes_durability h \<longleftrightarrow> h \<notin> {HealthFailed, HealthUnavailable}"

datatype DeviceState =
    DeviceDiscovered | DeviceAvailable | DeviceActive | DeviceDegraded | DeviceDraining | DeviceMaintenance
  | DeviceFailed | DeviceSafeToRemove | DeviceRetired

definition device_accepts_new_placements :: "DeviceState \<Rightarrow> bool" where
  "device_accepts_new_placements s \<longleftrightarrow> s = DeviceActive"

definition device_contributes_durability_state :: "DeviceState \<Rightarrow> bool" where
  "device_contributes_durability_state s \<longleftrightarrow> s \<in> {DeviceActive, DeviceDegraded, DeviceDraining, DeviceMaintenance}"

definition device_can_transition :: "DeviceState \<Rightarrow> DeviceState \<Rightarrow> bool" where
  "device_can_transition s t =
     (if s = t then True
      else case s of
        DeviceDiscovered \<Rightarrow> t \<in> {DeviceAvailable, DeviceRetired}
      | DeviceAvailable \<Rightarrow> t \<in> {DeviceActive, DeviceMaintenance, DeviceRetired}
      | DeviceActive \<Rightarrow> t \<in> {DeviceDegraded, DeviceDraining, DeviceMaintenance, DeviceFailed}
      | DeviceDegraded \<Rightarrow> t \<in> {DeviceActive, DeviceDraining, DeviceMaintenance, DeviceFailed}
      | DeviceDraining \<Rightarrow> t \<in> {DeviceActive, DeviceMaintenance, DeviceFailed, DeviceSafeToRemove}
      | DeviceMaintenance \<Rightarrow> t \<in> {DeviceAvailable, DeviceActive, DeviceDraining, DeviceFailed, DeviceRetired}
      | DeviceFailed \<Rightarrow> t \<in> {DeviceDraining, DeviceSafeToRemove, DeviceRetired}
      | DeviceSafeToRemove \<Rightarrow> t \<in> {DeviceActive, DeviceRetired}
      | DeviceRetired \<Rightarrow> False)"

datatype DeviceError =
    InvalidWeight
  | InvalidCapacity str
  | DuplicateDevice DeviceId
  | WrongNode DeviceId NodeId NodeId
  | DeviceUnknown DeviceId
  | InvalidDeviceTransition DeviceState DeviceState

definition WEIGHT_DEFAULT :: u32 where "WEIGHT_DEFAULT = 1000"
definition WEIGHT_MAXIMUM :: u32 where "WEIGHT_MAXIMUM = 10000"

definition placement_weight_new :: "u32 \<Rightarrow> (DeviceError, u32) result" where
  "placement_weight_new value = (if value = 0 \<or> value > WEIGHT_MAXIMUM then Inl InvalidWeight else Inr value)"

record DeviceCapacity =
  dc_raw_bytes :: u64
  dc_usable_bytes :: u64
  dc_allocated_bytes :: u64
  dc_reserved_bytes :: u64
  dc_available_bytes :: u64

definition capacity_validate :: "DeviceCapacity \<Rightarrow> (DeviceError, unit) result" where
  "capacity_validate c =
     rbind (ensure (\<not> dc_usable_bytes c > dc_raw_bytes c)
              (InvalidCapacity (lit ''usable capacity exceeds raw capacity''))) (\<lambda>_.
     rbind (ensure (\<not> dc_available_bytes c > dc_usable_bytes c)
              (InvalidCapacity (lit ''available capacity exceeds usable capacity''))) (\<lambda>_.
     ensure (\<not> dc_reserved_bytes c > dc_raw_bytes c)
       (InvalidCapacity (lit ''reserved capacity exceeds raw capacity''))))"

definition device_used_bytes :: "DeviceCapacity \<Rightarrow> u64" where
  "device_used_bytes c = saturating_sub (dc_usable_bytes c) (dc_available_bytes c)"

text \<open>\<open>u32::try_from(scaled).unwrap_or(bound).min(bound)\<close>.\<close>

definition clamp_u32 :: "u128 \<Rightarrow> u32 \<Rightarrow> u32" where
  "clamp_u32 scaled bound = min (if unat scaled < 2 ^ 32 then ucast scaled else bound) bound"

definition device_utilization_permille :: "DeviceCapacity \<Rightarrow> u32" where
  "device_utilization_permille c =
     (if dc_usable_bytes c = 0 then 1000
      else clamp_u32 (ucast (device_used_bytes c) * 1000 div ucast (dc_usable_bytes c)) 1000)"

record HardwareMetadata =
  hw_model :: "str option"
  hw_serial :: "str option"
  hw_controller :: "str option"
  hw_filesystem :: "str option"
  hw_mount_point :: "str option"
  hw_rotational :: "bool option"
  hw_logical_block_size :: "u32 option"
  hw_physical_block_size :: "u32 option"
  hw_temperature_celsius :: "16 word option"
  hw_wear_percentage :: "u8 option"
  hw_health_summary :: "str option"

definition no_hardware :: HardwareMetadata where
  "no_hardware = \<lparr>hw_model = None, hw_serial = None, hw_controller = None, hw_filesystem = None, hw_mount_point = None,
     hw_rotational = None, hw_logical_block_size = None, hw_physical_block_size = None, hw_temperature_celsius = None,
     hw_wear_percentage = None, hw_health_summary = None\<rparr>"

record DeviceRecord =
  dv_id :: DeviceId
  dv_node_id :: NodeId
  dv_current_path :: "str option"
  dv_stable_hardware_identifier :: "str option"
  dv_kind :: DeviceKind
  dv_storage_class :: StorageClass
  dv_capacity :: DeviceCapacity
  dv_configured_weight :: u32
  dv_health :: DeviceHealth
  dv_state :: DeviceState
  dv_hardware :: HardwareMetadata
  dv_movement_concurrency :: "u32 option"

definition legacy_id :: "NodeId \<Rightarrow> DeviceId" where
  "legacy_id node_id = node_id"

definition legacy_directory :: "NodeId \<Rightarrow> str option \<Rightarrow> StorageClass \<Rightarrow> DeviceCapacity \<Rightarrow> DeviceRecord" where
  "legacy_directory node_id path cls capacity =
     \<lparr>dv_id = legacy_id node_id, dv_node_id = node_id, dv_current_path = path, dv_stable_hardware_identifier = None,
      dv_kind = FilesystemDirectory, dv_storage_class = cls, dv_capacity = capacity,
      dv_configured_weight = WEIGHT_DEFAULT, dv_health = HealthUnknown, dv_state = DeviceActive,
      dv_hardware = no_hardware, dv_movement_concurrency = None\<rparr>"

definition device_eligible :: "DeviceRecord \<Rightarrow> u64 \<Rightarrow> u64 \<Rightarrow> bool" where
  "device_eligible d reservation margin \<longleftrightarrow>
     device_accepts_new_placements (dv_state d) \<and> permits_placement (dv_health d)
     \<and> dc_usable_bytes (dv_capacity d) > 0
     \<and> dc_available_bytes (dv_capacity d) \<ge> saturating_add reservation margin"

definition effective_weight :: "DeviceRecord \<Rightarrow> u128" where
  "effective_weight d =
     saturating_mul (ucast (dc_usable_bytes (dv_capacity d))) (ucast (dv_configured_weight d)) div ucast WEIGHT_DEFAULT"

definition movement_concurrency :: "DeviceRecord \<Rightarrow> u32" where
  "movement_concurrency d =
     (case (case dv_movement_concurrency d of Some value \<Rightarrow> if value > 0 then Some value else None | None \<Rightarrow> None) of
        Some value \<Rightarrow> value
      | None \<Rightarrow>
          case hw_rotational (dv_hardware d) of
            Some True \<Rightarrow> 1
          | Some False \<Rightarrow> 4
          | None \<Rightarrow> default_movement_concurrency (dv_kind d))"

definition device_transition :: "DeviceRecord \<Rightarrow> DeviceState \<Rightarrow> (DeviceError, bool \<times> DeviceRecord) result" where
  "device_transition d t =
     (if dv_state d = t then Inr (False, d)
      else if \<not> device_can_transition (dv_state d) t then Inl (InvalidDeviceTransition (dv_state d) t)
      else Inr (True, d\<lparr>dv_state := t\<rparr>))"

text \<open>The inventory of one node.\<close>

fun inventory_new :: "NodeId \<Rightarrow> DeviceRecord list \<Rightarrow> (DeviceId, DeviceRecord) table \<Rightarrow> (DeviceError, (DeviceId, DeviceRecord) table) result" where
  "inventory_new node_id [] inventory = Inr inventory"
| "inventory_new node_id (d # ds) inventory =
     (if dv_node_id d \<noteq> node_id then Inl (WrongNode (dv_id d) node_id (dv_node_id d))
      else
        rbind (capacity_validate (dv_capacity d)) (\<lambda>_.
        if t_get inventory (dv_id d) \<noteq> None then Inl (DuplicateDevice (dv_id d))
        else inventory_new node_id ds (t_insert (dv_id d) d inventory)))"

definition device_manager_new :: "NodeId \<Rightarrow> DeviceRecord list \<Rightarrow> (DeviceError, (DeviceId, DeviceRecord) table) result" where
  "device_manager_new node_id devices = inventory_new node_id devices t_empty"

definition device_manager_transition ::
  "(DeviceId, DeviceRecord) table \<Rightarrow> DeviceId \<Rightarrow> DeviceState \<Rightarrow> (DeviceError, bool \<times> (DeviceId, DeviceRecord) table) result" where
  "device_manager_transition devices i t =
     rbind (ok_or (t_get devices i) (DeviceUnknown i)) (\<lambda>d.
     rbind (device_transition d t) (\<lambda>(changed, d). Inr (changed, t_insert i d devices)))"

section \<open>Storage policies\<close>

definition MAXIMUM_POLICY_REPLICAS :: u8 where "MAXIMUM_POLICY_REPLICAS = 16"

datatype StoragePolicyError =
    InvalidReplicas
  | InvalidReserve
  | ErasureCodingUnavailable
  | DuplicateDeviceKind DeviceKind
  | PolicyNotFound StorageClass
  | StillReferenced StorageClass u64
  | DefaultIsRequired

datatype DurabilityStrategy = Replication u8 | ErasureCoding ErasureProfile

record StoragePolicy =
  sp_class :: StorageClass
  sp_description :: "str option"
  sp_allowed_kinds :: "DeviceKind list"
  sp_durability :: DurabilityStrategy
  sp_failure_domain :: FailureDomainScope
  sp_strict_failure_domains :: bool
  sp_minimum_free_space_percent :: u8

definition filter_accepts :: "DeviceKind list \<Rightarrow> DeviceKind \<Rightarrow> bool" where
  "filter_accepts allowed kind \<longleftrightarrow> allowed = [] \<or> kind \<in> set allowed"

definition default_policy :: "FailureDomainScope \<Rightarrow> u8 \<Rightarrow> StoragePolicy" where
  "default_policy scope copies =
     \<lparr>sp_class = default_storage_class,
      sp_description = Some (lit ''Default policy for buckets that select no class''),
      sp_allowed_kinds = [], sp_durability = Replication copies, sp_failure_domain = scope,
      sp_strict_failure_domains = False, sp_minimum_free_space_percent = 0\<rparr>"

fun first_repeated :: "'a list \<Rightarrow> 'a list \<Rightarrow> 'a option" where
  "first_repeated seen [] = None"
| "first_repeated seen (k # ks) = (if k \<in> set seen then Some k else first_repeated (k # seen) ks)"

definition policy_validate :: "StoragePolicy \<Rightarrow> (StoragePolicyError, unit) result" where
  "policy_validate p =
     rbind (case sp_durability p of
              Replication n \<Rightarrow> ensure (\<not> (n = 0 \<or> n > MAXIMUM_POLICY_REPLICAS)) InvalidReplicas
            | ErasureCoding _ \<Rightarrow> Inl ErasureCodingUnavailable) (\<lambda>_.
     rbind (ensure (\<not> sp_minimum_free_space_percent p \<ge> 100) InvalidReserve) (\<lambda>_.
     case first_repeated [] (sp_allowed_kinds p) of
       Some kind \<Rightarrow> Inl (DuplicateDeviceKind kind)
     | None \<Rightarrow> Inr ()))"

definition accepts_device :: "StoragePolicy \<Rightarrow> DeviceRecord \<Rightarrow> bool" where
  "accepts_device p d \<longleftrightarrow> dv_storage_class d = sp_class p \<and> filter_accepts (sp_allowed_kinds p) (dv_kind d)"

text \<open>The product fits 128 bits, and a hundredth of less than a hundred times 64 bits fits 64.\<close>

definition reserved_bytes :: "StoragePolicy \<Rightarrow> u64 \<Rightarrow> u64" where
  "reserved_bytes p usable =
     (if sp_minimum_free_space_percent p = 0 then 0
      else let reserve = (ucast usable :: u128) * ucast (sp_minimum_free_space_percent p) div 100
           in if unat reserve < 2 ^ 64 then ucast reserve else - 1)"

section \<open>Nodes\<close>

record NodeCapacity =
  nc_total_bytes :: u64
  nc_available_bytes :: u64
  nc_replica_bytes :: u64
  nc_temporary_bytes :: u64

definition no_capacity :: NodeCapacity where
  "no_capacity = \<lparr>nc_total_bytes = 0, nc_available_bytes = 0, nc_replica_bytes = 0, nc_temporary_bytes = 0\<rparr>"

definition capacity_from_devices :: "DeviceRecord list \<Rightarrow> NodeCapacity" where
  "capacity_from_devices devices =
     foldl (\<lambda>total d. total\<lparr>nc_total_bytes := saturating_add (nc_total_bytes total) (dc_raw_bytes (dv_capacity d)),
        nc_available_bytes := saturating_add (nc_available_bytes total) (dc_available_bytes (dv_capacity d)),
        nc_replica_bytes := saturating_add (nc_replica_bytes total) (dc_allocated_bytes (dv_capacity d))\<rparr>)
       no_capacity devices"

definition node_used_bytes :: "NodeCapacity \<Rightarrow> u64" where
  "node_used_bytes c = saturating_sub (nc_total_bytes c) (nc_available_bytes c)"

definition utilization_scaled :: "NodeCapacity \<Rightarrow> u32 \<Rightarrow> u32" where
  "utilization_scaled c scale =
     (if nc_total_bytes c = 0 then scale
      else clamp_u32 (ucast (node_used_bytes c) * ucast scale div ucast (nc_total_bytes c)) scale)"

definition node_utilization_percent :: "NodeCapacity \<Rightarrow> u32" where
  "node_utilization_percent c = utilization_scaled c 100"

record NodeActivity =
  na_active_uploads :: u32
  na_active_downloads :: u32
  na_replication_backlog :: u64
  na_integrity_failures :: u64

definition no_activity :: NodeActivity where
  "no_activity = \<lparr>na_active_uploads = 0, na_active_downloads = 0, na_replication_backlog = 0, na_integrity_failures = 0\<rparr>"

record NodeRegistration =
  rg_node_id :: NodeId
  rg_versions :: NodeVersions
  rg_rpc_address :: str
  rg_s3_endpoint :: "str option"
  rg_management_endpoint :: "str option"
  rg_storage_class :: StorageClass
  rg_failure_domain :: FailureDomain
  rg_capacity :: NodeCapacity
  rg_devices :: "DeviceRecord list"
  rg_started_at :: datetime

record NodeRecord =
  nr_node_id :: NodeId
  nr_raft_id :: RaftNodeId
  nr_protocol :: ProtocolVersion
  nr_software_version :: str
  nr_storage_format_version :: u32
  nr_rpc_address :: str
  nr_s3_endpoint :: "str option"
  nr_management_endpoint :: "str option"
  nr_storage_class :: StorageClass
  nr_failure_domain :: FailureDomain
  nr_state :: NodeState
  nr_metadata_voter :: bool
  nr_capacity :: NodeCapacity
  nr_devices :: "DeviceRecord list"
  nr_activity :: NodeActivity
  nr_joined_at :: datetime
  nr_started_at :: datetime
  nr_last_heartbeat_at :: "datetime option"
  nr_state_changed_at :: datetime
  nr_state_reason :: "str option"

definition node_joining :: "NodeRegistration \<Rightarrow> RaftNodeId \<Rightarrow> bool \<Rightarrow> datetime \<Rightarrow> NodeRecord" where
  "node_joining r raft_id voter now = \<lparr>
     nr_node_id = rg_node_id r, nr_raft_id = raft_id,
     nr_protocol = nv_protocol (rg_versions r), nr_software_version = nv_software (rg_versions r),
     nr_storage_format_version = nv_storage_format (rg_versions r),
     nr_rpc_address = rg_rpc_address r, nr_s3_endpoint = rg_s3_endpoint r,
     nr_management_endpoint = rg_management_endpoint r, nr_storage_class = rg_storage_class r,
     nr_failure_domain = rg_failure_domain r, nr_state = NodeJoining, nr_metadata_voter = voter,
     nr_capacity = rg_capacity r, nr_devices = rg_devices r, nr_activity = no_activity, nr_joined_at = now,
     nr_started_at = rg_started_at r, nr_last_heartbeat_at = Some now, nr_state_changed_at = now,
     nr_state_reason = Some (lit ''registered'')\<rparr>"

definition node_domain_key :: "(uuid \<Rightarrow> str) \<Rightarrow> NodeRecord \<Rightarrow> FailureDomainScope \<Rightarrow> str" where
  "node_domain_key show n scope = domain_key show (nr_failure_domain n) scope (nr_node_id n)"

definition node_device :: "NodeRecord \<Rightarrow> DeviceId \<Rightarrow> DeviceRecord option" where
  "node_device n i = find (\<lambda>d. dv_id d = i) (nr_devices n)"

text \<open>Writing through \<open>device_mut\<close>: the first device with the identifier is replaced.\<close>

fun replace_device :: "DeviceId \<Rightarrow> DeviceRecord \<Rightarrow> DeviceRecord list \<Rightarrow> DeviceRecord list" where
  "replace_device i d [] = []"
| "replace_device i d (x # xs) = (if dv_id x = i then d # xs else x # replace_device i d xs)"

definition ensure_legacy_device :: "NodeRecord \<Rightarrow> NodeRecord" where
  "ensure_legacy_device n =
     (if nr_devices n \<noteq> [] then n
      else n\<lparr>nr_devices := [legacy_directory (nr_node_id n) None (nr_storage_class n)
        \<lparr>dc_raw_bytes = nc_total_bytes (nr_capacity n), dc_usable_bytes = nc_total_bytes (nr_capacity n),
         dc_allocated_bytes = nc_replica_bytes (nr_capacity n), dc_reserved_bytes = 0,
         dc_available_bytes = nc_available_bytes (nr_capacity n)\<rparr>]\<rparr>)"

definition node_capacity_level :: "NodeRecord \<Rightarrow> ClusterConfig \<Rightarrow> CapacityLevel" where
  "node_capacity_level n c = watermark_level (cfg_watermarks c) (node_utilization_percent (nr_capacity n))"

definition node_transition :: "NodeRecord \<Rightarrow> NodeState \<Rightarrow> str option \<Rightarrow> datetime \<Rightarrow> (TopologyError, bool \<times> NodeRecord) result" where
  "node_transition n t reason now =
     (if nr_state n = t
      then Inr (False, if reason \<noteq> None then n\<lparr>nr_state_reason := reason\<rparr> else n)
      else if \<not> node_can_transition (nr_state n) t then Inl (InvalidNodeTransition (nr_state n) t)
      else Inr (True, n\<lparr>nr_state := t, nr_state_changed_at := now, nr_state_reason := reason\<rparr>))"

section \<open>The topology view\<close>

record ClusterTopology =
  ct_cluster_id :: ClusterId
  ct_config :: ClusterConfig
  ct_epoch :: u64
  ct_nodes :: "NodeRecord list"

definition topology_new :: "ClusterId \<Rightarrow> ClusterConfig \<Rightarrow> NodeRecord list \<Rightarrow> ClusterTopology" where
  "topology_new cluster_id config nodes =
     \<lparr>ct_cluster_id = cluster_id, ct_config = config, ct_epoch = 0,
      ct_nodes = sort_key nr_node_id (map ensure_legacy_device nodes)\<rparr>"

definition topology_node :: "ClusterTopology \<Rightarrow> NodeId \<Rightarrow> NodeRecord option" where
  "topology_node t i = find (\<lambda>n. nr_node_id n = i) (ct_nodes t)"

fun find_device :: "DeviceId \<Rightarrow> NodeRecord list \<Rightarrow> (NodeRecord \<times> DeviceRecord) option" where
  "find_device i [] = None"
| "find_device i (n # ns) =
     (case node_device n i of Some d \<Rightarrow> Some (n, d) | None \<Rightarrow> find_device i ns)"

definition topology_device :: "ClusterTopology \<Rightarrow> DeviceId \<Rightarrow> (NodeRecord \<times> DeviceRecord) option" where
  "topology_device t i = find_device i (ct_nodes t)"

definition topology_serves_reads :: "ClusterTopology \<Rightarrow> NodeId \<Rightarrow> bool" where
  "topology_serves_reads t i =
     (case topology_node t i of
        None \<Rightarrow> False
      | Some n \<Rightarrow> node_serves_reads (nr_state n)
          \<or> nr_state n = NodeMaintenance \<and> cfg_maintenance_serves_reads (ct_config t))"

definition device_contributes_durability :: "ClusterTopology \<Rightarrow> NodeId \<Rightarrow> DeviceId \<Rightarrow> bool" where
  "device_contributes_durability t i j =
     (case topology_node t i of
        None \<Rightarrow> False
      | Some n \<Rightarrow> node_contributes_durability (nr_state n)
          \<and> (case node_device n j of
               None \<Rightarrow> False
             | Some d \<Rightarrow> device_contributes_durability_state (dv_state d) \<and> health_contributes_durability (dv_health d)))"

end
