(* ===== verification/Placement.thy ===== *)
theory Placement
  imports Cluster_Topology Bytes "HOL-Library.Product_Lexorder"
begin

text \<open>
  Replica placement (\<^verbatim>\<open>crates/record-store-cluster/src/placement.rs\<close>): which devices receive the replicas of a
  payload. Candidates are ranked by weighted rendezvous hashing; a first pass takes one replica per failure
  domain, a second pass reuses domains unless the policy is strict.

  Two things are parameters: SHA-256, and the floating-point score of a candidate, of which only the total
  order is used (\<open>race\<close> maps a hash sample and a weight to the position of the score in that order).
\<close>

section \<open>Requests and plans\<close>

text \<open>A \<open>BTreeSet\<close> is a table without values.\<close>

type_synonym 'a btree_set = "('a, unit) table"

definition in_set :: "'a::linorder \<Rightarrow> 'a btree_set \<Rightarrow> bool" where
  "in_set x s \<longleftrightarrow> t_get s x \<noteq> None"

definition elements :: "'a::linorder btree_set \<Rightarrow> 'a list" where
  "elements s = map fst (t_iter s)"

definition set_insert :: "'a::linorder \<Rightarrow> 'a btree_set \<Rightarrow> 'a btree_set" where
  "set_insert x s = t_insert x () s"

fun btree_set :: "'a::linorder list \<Rightarrow> 'a btree_set" where
  "btree_set [] = t_empty"
| "btree_set (x # xs) = set_insert x (btree_set xs)"

record ObjectPlacementRequest =
  pr_object_id :: ObjectId
  pr_size_hint :: "u64 option"
  pr_desired_replicas :: u8
  pr_required_acknowledgements :: u8
  pr_storage_class :: StorageClass
  pr_preferred_node :: "NodeId option"
  pr_existing_nodes :: "NodeId btree_set"
  pr_excluded_nodes :: "NodeId btree_set"
  pr_existing_targets :: "(NodeId \<times> DeviceId) btree_set"
  pr_excluded_devices :: "DeviceId btree_set"
  pr_policy :: "StoragePolicy option"

definition placement_request_new :: "ObjectId \<Rightarrow> u8 \<Rightarrow> u8 \<Rightarrow> StorageClass \<Rightarrow> ObjectPlacementRequest" where
  "placement_request_new object_id desired required cls =
     \<lparr>pr_object_id = object_id, pr_size_hint = None, pr_desired_replicas = desired, pr_required_acknowledgements = required,
      pr_storage_class = cls, pr_preferred_node = None, pr_existing_nodes = t_empty, pr_excluded_nodes = t_empty,
      pr_existing_targets = t_empty, pr_excluded_devices = t_empty, pr_policy = None\<rparr>"

definition with_policy :: "StoragePolicy option \<Rightarrow> ObjectPlacementRequest \<Rightarrow> ObjectPlacementRequest" where
  "with_policy policy r =
     (let r = (case policy of Some p \<Rightarrow> r\<lparr>pr_storage_class := sp_class p\<rparr> | None \<Rightarrow> r) in r\<lparr>pr_policy := policy\<rparr>)"

record PlacementTarget =
  pt_node_id :: NodeId
  pt_device_id :: DeviceId
  pt_rpc_address :: str
  pt_domain :: str
  pt_local :: bool

record PlacementPlan =
  pl_epoch :: u64
  pl_targets :: "PlacementTarget list"
  pl_required_acknowledgements :: u8
  pl_desired_replicas :: u8
  pl_failure_domains_reused :: bool

definition fully_replicated :: "PlacementPlan \<Rightarrow> bool" where
  "fully_replicated p \<longleftrightarrow> length (pl_targets p) \<ge> unat (pl_desired_replicas p)"

datatype PlacementError =
    InvalidRequest str
  | NoEligibleDevices StorageClass nat nat nat
  | InsufficientDurability u8 nat
  | InsufficientFailureDomains str u8 nat

section \<open>Candidates\<close>

record Candidate =
  cd_node_id :: NodeId
  cd_device_id :: DeviceId
  cd_rpc_address :: str
  cd_domain :: str
  cd_score :: int
  cd_effective_weight :: u128
  cd_kind :: DeviceKind

record placement_externs =
  px_sha :: "bytes \<Rightarrow> bytes"
  px_race :: "u64 \<Rightarrow> u128 \<Rightarrow> int"
  px_show :: "uuid \<Rightarrow> str"

definition into_target :: "Candidate \<Rightarrow> NodeId option \<Rightarrow> PlacementTarget" where
  "into_target c local_node =
     \<lparr>pt_node_id = cd_node_id c, pt_device_id = cd_device_id c, pt_rpc_address = cd_rpc_address c,
      pt_domain = cd_domain c, pt_local = (local_node = Some (cd_node_id c))\<rparr>"

definition placement_domain :: "placement_externs \<Rightarrow> NodeRecord \<Rightarrow> DeviceId \<Rightarrow> FailureDomainScope \<Rightarrow> str" where
  "placement_domain x node device_id scope =
     (if scope = ScopeDevice then lit ''device:'' @ px_show x device_id else node_domain_key (px_show x) node scope)"

definition candidate :: "placement_externs \<Rightarrow> NodeRecord \<Rightarrow> DeviceRecord \<Rightarrow> ObjectPlacementRequest \<Rightarrow> FailureDomainScope \<Rightarrow> Candidate" where
  "candidate x node d request scope =
     (let hashed = px_sha x (uuid_bytes (pr_object_id request) @ pr_storage_class request
                       @ uuid_bytes (nr_node_id node) @ uuid_bytes (dv_id d));
          sample = (of_nat (be_value (take 8 hashed)) :: u64);
          weight = max (effective_weight d) 1
      in \<lparr>cd_node_id = nr_node_id node, cd_device_id = dv_id d, cd_rpc_address = nr_rpc_address node,
          cd_domain = placement_domain x node (dv_id d) scope, cd_score = px_race x sample weight,
          cd_effective_weight = weight, cd_kind = dv_kind d\<rparr>)"

definition eligible_class :: "ObjectPlacementRequest \<Rightarrow> DeviceRecord \<Rightarrow> bool" where
  "eligible_class request d =
     (case pr_policy request of
        Some policy \<Rightarrow> accepts_device policy d
      | None \<Rightarrow> dv_storage_class d = pr_storage_class request)"

definition request_scope :: "ObjectPlacementRequest \<Rightarrow> ClusterTopology \<Rightarrow> FailureDomainScope" where
  "request_scope request t =
     (case pr_policy request of None \<Rightarrow> cfg_failure_domain_scope (ct_config t) | Some p \<Rightarrow> sp_failure_domain p)"

definition request_strict :: "ObjectPlacementRequest \<Rightarrow> ClusterTopology \<Rightarrow> bool" where
  "request_strict request t =
     (case pr_policy request of None \<Rightarrow> cfg_strict_failure_domains (ct_config t) | Some p \<Rightarrow> sp_strict_failure_domains p)"

definition request_reservation :: "ObjectPlacementRequest \<Rightarrow> ClusterTopology \<Rightarrow> u64" where
  "request_reservation request t =
     (case pr_size_hint request of Some hint \<Rightarrow> hint | None \<Rightarrow> cfg_unknown_upload_size_reservation_bytes (ct_config t))"

definition device_reserve :: "ObjectPlacementRequest \<Rightarrow> ClusterTopology \<Rightarrow> DeviceRecord \<Rightarrow> u64" where
  "device_reserve request t d =
     saturating_add (cfg_capacity_safety_margin_bytes (ct_config t))
       (case pr_policy request of None \<Rightarrow> 0 | Some p \<Rightarrow> reserved_bytes p (dc_usable_bytes (dv_capacity d)))"

definition device_level :: "ClusterTopology \<Rightarrow> DeviceRecord \<Rightarrow> CapacityLevel" where
  "device_level t d = watermark_level (cfg_watermarks (ct_config t)) (device_utilization_permille (dv_capacity d) div 10)"

definition has_capacity :: "ObjectPlacementRequest \<Rightarrow> ClusterTopology \<Rightarrow> DeviceRecord \<Rightarrow> bool" where
  "has_capacity request t d \<longleftrightarrow>
     \<not> (device_level t d = LevelCritical \<or> \<not> level_accepts_new_replicas (device_level t d)
        \<or> \<not> device_eligible d (request_reservation request t) (device_reserve request t d))"

definition barred :: "ObjectPlacementRequest \<Rightarrow> NodeRecord \<Rightarrow> DeviceRecord \<Rightarrow> bool" where
  "barred request node d \<longleftrightarrow>
     in_set (nr_node_id node) (pr_excluded_nodes request) \<or> in_set (nr_node_id node) (pr_existing_nodes request)
     \<or> in_set (dv_id d) (pr_excluded_devices request)
     \<or> in_set (nr_node_id node, dv_id d) (pr_existing_targets request)"

text \<open>The counters of the scan and the candidates found so far.\<close>

record scan =
  sc_healthy :: nat
  sc_class_matches :: nat
  sc_with_capacity :: nat
  sc_candidates :: "Candidate list"

fun scan_devices :: "placement_externs \<Rightarrow> ObjectPlacementRequest \<Rightarrow> ClusterTopology \<Rightarrow> NodeRecord \<Rightarrow> DeviceRecord list \<Rightarrow> scan \<Rightarrow> scan" where
  "scan_devices x request t node [] acc = acc"
| "scan_devices x request t node (d # ds) acc =
     (if \<not> eligible_class request d \<or> \<not> device_accepts_new_placements (dv_state d)
      then scan_devices x request t node ds acc
      else
        let acc = acc\<lparr>sc_class_matches := sc_class_matches acc + 1\<rparr>
        in if \<not> has_capacity request t d then scan_devices x request t node ds acc
           else
             let acc = acc\<lparr>sc_with_capacity := sc_with_capacity acc + 1\<rparr>
             in if barred request node d then scan_devices x request t node ds acc
                else scan_devices x request t node ds
                       (acc\<lparr>sc_candidates := sc_candidates acc @ [candidate x node d request (request_scope request t)]\<rparr>))"

fun scan_nodes :: "placement_externs \<Rightarrow> ObjectPlacementRequest \<Rightarrow> ClusterTopology \<Rightarrow> NodeRecord list \<Rightarrow> scan \<Rightarrow> scan" where
  "scan_nodes x request t [] acc = acc"
| "scan_nodes x request t (n # ns) acc =
     (if \<not> node_accepts_new_replicas (nr_state n) then scan_nodes x request t ns acc
      else scan_nodes x request t ns
             (scan_devices x request t n (nr_devices n) (acc\<lparr>sc_healthy := sc_healthy acc + 1\<rparr>)))"

definition rank :: "Candidate \<Rightarrow> int \<times> NodeId \<times> DeviceId" where
  "rank c = (cd_score c, cd_node_id c, cd_device_id c)"

section \<open>The decision\<close>

definition occupy :: "str \<Rightarrow> (str, u32) table \<Rightarrow> (str, u32) table" where
  "occupy domain occupied = t_insert domain ((case t_get occupied domain of None \<Rightarrow> 0 | Some n \<Rightarrow> n) + 1) occupied"

fun occupy_targets :: "placement_externs \<Rightarrow> ClusterTopology \<Rightarrow> FailureDomainScope \<Rightarrow> (NodeId \<times> DeviceId) list \<Rightarrow> (str, u32) table \<Rightarrow> (str, u32) table" where
  "occupy_targets x t scope [] occupied = occupied"
| "occupy_targets x t scope ((node_id, device_id) # rest) occupied =
     occupy_targets x t scope rest
       (case topology_node t node_id of
          Some node \<Rightarrow> occupy (placement_domain x node device_id scope) occupied
        | None \<Rightarrow> occupied)"

fun occupy_nodes :: "placement_externs \<Rightarrow> ClusterTopology \<Rightarrow> FailureDomainScope \<Rightarrow> NodeId list \<Rightarrow> (str, u32) table \<Rightarrow> (str, u32) table" where
  "occupy_nodes x t scope [] occupied = occupied"
| "occupy_nodes x t scope (node_id # rest) occupied =
     occupy_nodes x t scope rest
       (case topology_node t node_id of
          Some node \<Rightarrow> occupy (node_domain_key (px_show x) node scope) occupied
        | None \<Rightarrow> occupied)"

text \<open>The first pass: one replica per failure domain.\<close>

fun spread :: "NodeId option \<Rightarrow> nat \<Rightarrow> Candidate list \<Rightarrow> (str, u32) table \<Rightarrow> PlacementTarget list \<Rightarrow> (str, u32) table \<times> PlacementTarget list" where
  "spread local_node wanted [] occupied targets = (occupied, targets)"
| "spread local_node wanted (c # cs) occupied targets =
     (if length targets \<ge> wanted then (occupied, targets)
      else if t_get occupied (cd_domain c) \<noteq> None then spread local_node wanted cs occupied targets
      else spread local_node wanted cs (t_insert (cd_domain c) 1 occupied) (targets @ [into_target c local_node]))"

text \<open>The second pass: domains are reused.\<close>

fun fill :: "NodeId option \<Rightarrow> nat \<Rightarrow> DeviceId btree_set \<Rightarrow> Candidate list \<Rightarrow> PlacementTarget list \<Rightarrow> bool \<Rightarrow> PlacementTarget list \<times> bool" where
  "fill local_node wanted selected [] targets reused = (targets, reused)"
| "fill local_node wanted selected (c # cs) targets reused =
     (if length targets \<ge> wanted then (targets, reused)
      else if in_set (cd_device_id c) selected then fill local_node wanted selected cs targets reused
      else fill local_node wanted selected cs (targets @ [into_target c local_node]) True)"

text \<open>\<open>targets[..=position].rotate_right(1)\<close> at the first target of the local node.\<close>

fun rotate_local :: "NodeId \<Rightarrow> PlacementTarget list \<Rightarrow> PlacementTarget list \<Rightarrow> PlacementTarget list option" where
  "rotate_local loc passed [] = None"
| "rotate_local loc passed (p # ps) =
     (if pt_node_id p = loc then Some (p # rev passed @ ps) else rotate_local loc (p # passed) ps)"

definition local_first :: "NodeId option \<Rightarrow> PlacementTarget list \<Rightarrow> PlacementTarget list" where
  "local_first local_node targets =
     (case local_node of
        None \<Rightarrow> targets
      | Some loc \<Rightarrow> (case rotate_local loc [] targets of None \<Rightarrow> targets | Some rotated \<Rightarrow> rotated))"

definition place :: "placement_externs \<Rightarrow> NodeId option \<Rightarrow> ObjectPlacementRequest \<Rightarrow> ClusterTopology \<Rightarrow> (PlacementError, PlacementPlan) result" where
  "place x local_node request t =
     rbind (ensure (pr_desired_replicas request \<noteq> 0)
              (InvalidRequest (lit ''desired replica count must be at least one''))) (\<lambda>_.
     rbind (ensure (\<not> (pr_required_acknowledgements request = 0
                        \<or> pr_required_acknowledgements request > pr_desired_replicas request))
              (InvalidRequest (lit ''required acknowledgements must be between one and the desired replica count''))) (\<lambda>_.
     let scope = request_scope request t;
         found = scan_nodes x request t (ct_nodes t)
           \<lparr>sc_healthy = 0, sc_class_matches = 0, sc_with_capacity = 0, sc_candidates = []\<rparr>;
         candidates = sort_key rank (sc_candidates found)
     in if candidates = []
        then Inl (NoEligibleDevices (pr_storage_class request) (sc_healthy found) (sc_class_matches found) (sc_with_capacity found))
        else
          let occupied = occupy_nodes x t scope (elements (pr_existing_nodes request))
                (occupy_targets x t scope (elements (pr_existing_targets request)) t_empty);
              existing_count = max (length (elements (pr_existing_targets request))) (length (elements (pr_existing_nodes request)));
              wanted = unat (pr_desired_replicas request) - existing_count;
              (occupied, targets) = spread local_node wanted candidates occupied [];
              distinct_domains = length (elements (btree_set (map cd_domain candidates)))
          in if length targets < wanted \<and> request_strict request t
             then Inl (InsufficientFailureDomains (scope_to_string scope) (pr_desired_replicas request)
                         (distinct_domains + length (t_iter occupied)))
             else
               let (targets, reused) =
                     (if length targets < wanted
                      then fill local_node wanted (btree_set (map pt_device_id targets)) candidates targets False
                      else (targets, False));
                   targets = local_first local_node targets;
                   total = length targets + existing_count
               in if total < unat (pr_required_acknowledgements request)
                  then Inl (InsufficientDurability (pr_required_acknowledgements request) total)
                  else Inr \<lparr>pl_epoch = ct_epoch t, pl_targets = targets,
                         pl_required_acknowledgements = pr_required_acknowledgements request,
                         pl_desired_replicas = pr_desired_replicas request, pl_failure_domains_reused = reused\<rparr>))"

section \<open>Explanations\<close>

datatype PlacementRejection =
    NodeNotAcceptingReplicas
  | DeviceNotActive
  | DeviceUnhealthy
  | WrongStorageClass
  | DeviceKindFiltered
  | AboveCapacityWatermark
  | InsufficientFreeSpace
  | NodeExcluded
  | DeviceExcluded
  | AlreadyHoldsReplica

record PlacementExclusion =
  px_node_id :: NodeId
  px_device_id :: DeviceId
  px_kind :: DeviceKind
  px_reason :: PlacementRejection

record PlacementCandidateExplanation =
  pc_node_id :: NodeId
  pc_device_id :: DeviceId
  pc_kind :: DeviceKind
  pc_domain :: str
  pc_effective_weight :: u128
  pc_score :: int
  pc_selected :: bool

record PlacementExplanation =
  pe_epoch :: u64
  pe_storage_class :: StorageClass
  pe_failure_domain :: FailureDomainScope
  pe_decision :: PlacementPlan
  pe_candidates :: "PlacementCandidateExplanation list"
  pe_excluded :: "PlacementExclusion list"

text \<open>The filters of the walk in their order; the first that applies is the reason given.\<close>

definition rejection :: "ObjectPlacementRequest \<Rightarrow> ClusterTopology \<Rightarrow> NodeRecord \<Rightarrow> DeviceRecord \<Rightarrow> PlacementRejection option" where
  "rejection request t node d =
     (if \<not> node_accepts_new_replicas (nr_state node) then Some NodeNotAcceptingReplicas
      else if dv_storage_class d \<noteq> pr_storage_class request then Some WrongStorageClass
      else if \<not> eligible_class request d then Some DeviceKindFiltered
      else if \<not> device_accepts_new_placements (dv_state d) then Some DeviceNotActive
      else if \<not> permits_placement (dv_health d) then Some DeviceUnhealthy
      else if device_level t d = LevelCritical \<or> \<not> level_accepts_new_replicas (device_level t d)
      then Some AboveCapacityWatermark
      else if \<not> device_eligible d (request_reservation request t) (device_reserve request t d)
      then Some InsufficientFreeSpace
      else if in_set (nr_node_id node) (pr_excluded_nodes request) then Some NodeExcluded
      else if in_set (dv_id d) (pr_excluded_devices request) then Some DeviceExcluded
      else if in_set (nr_node_id node) (pr_existing_nodes request)
           \<or> in_set (nr_node_id node, dv_id d) (pr_existing_targets request) then Some AlreadyHoldsReplica
      else None)"

definition candidate_explanation :: "DeviceId btree_set \<Rightarrow> Candidate \<Rightarrow> PlacementCandidateExplanation" where
  "candidate_explanation selected c =
     \<lparr>pc_node_id = cd_node_id c, pc_device_id = cd_device_id c, pc_kind = cd_kind c, pc_domain = cd_domain c,
      pc_effective_weight = cd_effective_weight c, pc_score = cd_score c,
      pc_selected = in_set (cd_device_id c) selected\<rparr>"

fun explain_devices :: "placement_externs \<Rightarrow> ObjectPlacementRequest \<Rightarrow> ClusterTopology \<Rightarrow> DeviceId btree_set \<Rightarrow> NodeRecord \<Rightarrow> DeviceRecord list
    \<Rightarrow> PlacementCandidateExplanation list \<Rightarrow> PlacementExclusion list \<Rightarrow> PlacementCandidateExplanation list \<times> PlacementExclusion list" where
  "explain_devices x request t selected node [] candidates excluded = (candidates, excluded)"
| "explain_devices x request t selected node (d # ds) candidates excluded =
     (case rejection request t node d of
        Some reason \<Rightarrow> explain_devices x request t selected node ds candidates
          (excluded @ [\<lparr>px_node_id = nr_node_id node, px_device_id = dv_id d, px_kind = dv_kind d, px_reason = reason\<rparr>])
      | None \<Rightarrow> explain_devices x request t selected node ds
          (candidates @ [candidate_explanation selected (candidate x node d request (request_scope request t))]) excluded)"

fun explain_nodes :: "placement_externs \<Rightarrow> ObjectPlacementRequest \<Rightarrow> ClusterTopology \<Rightarrow> DeviceId btree_set \<Rightarrow> NodeRecord list
    \<Rightarrow> PlacementCandidateExplanation list \<Rightarrow> PlacementExclusion list \<Rightarrow> PlacementCandidateExplanation list \<times> PlacementExclusion list" where
  "explain_nodes x request t selected [] candidates excluded = (candidates, excluded)"
| "explain_nodes x request t selected (n # ns) candidates excluded =
     (let (candidates, excluded) = explain_devices x request t selected n (nr_devices n) candidates excluded
      in explain_nodes x request t selected ns candidates excluded)"

definition explained_rank :: "PlacementCandidateExplanation \<Rightarrow> int \<times> NodeId \<times> DeviceId" where
  "explained_rank c = (pc_score c, pc_node_id c, pc_device_id c)"

definition explain :: "placement_externs \<Rightarrow> NodeId option \<Rightarrow> ObjectPlacementRequest \<Rightarrow> ClusterTopology \<Rightarrow> (PlacementError, PlacementExplanation) result" where
  "explain x local_node request t =
     rbind (place x local_node request t) (\<lambda>decision.
     let selected = btree_set (map pt_device_id (pl_targets decision));
         (candidates, excluded) = explain_nodes x request t selected (ct_nodes t) [] []
     in Inr \<lparr>pe_epoch = ct_epoch t, pe_storage_class = pr_storage_class request,
          pe_failure_domain = request_scope request t, pe_decision = decision,
          pe_candidates = sort_key explained_rank candidates,
          pe_excluded = sort_key (\<lambda>e. (px_node_id e, px_device_id e)) excluded\<rparr>)"

end
