(* ===== verification/Placement_Facts.thy ===== *)
theory Placement_Facts
  imports Placement "HOL-Library.Multiset"
begin

text \<open>
  What replica placement guarantees. The two passes are first shown to compute a selection that mentions neither
  the asking node nor the order of the topology; the properties are read off that selection.
\<close>

section \<open>Sets and scans\<close>

lemma in_set_elements: "in_set x s \<longleftrightarrow> x \<in> set (elements s)"
proof -
  have "in_set x s \<longleftrightarrow> (\<exists>v. (x, v) \<in> set (t_iter s))" by (simp add: in_set_def flip: t_get_iff)
  then show ?thesis by (force simp: elements_def)
qed

lemma distinct_elements [simp]: "distinct (elements s)"
  unfolding elements_def by (rule distinct_keys [OF t_iter_sorted])

lemma in_btree_set [simp]: "in_set x (btree_set xs) \<longleftrightarrow> x \<in> set xs"
  by (induction xs) (auto simp: in_set_def set_insert_def)

lemma set_elements_btree_set [simp]: "set (elements (btree_set xs)) = set xs"
  using in_btree_set in_set_elements by blast

lemma length_elements_btree_set: "length (elements (btree_set xs)) = card (set xs)"
  by (metis distinct_card distinct_elements set_elements_btree_set)

definition domains :: "(str, u32) table \<Rightarrow> str set" where
  "domains occupied = {k. t_get occupied k \<noteq> None}"

lemma domains_insert [simp]: "domains (t_insert k v t) = insert k (domains t)"
  by (auto simp: domains_def)

lemma domains_empty [simp]: "domains t_empty = {}"
  by (simp add: domains_def)

lemma t_get_domains: "t_get t k = None \<longleftrightarrow> k \<notin> domains t"
  by (auto simp: domains_def)

lemma domains_iter: "domains t = set (map fst (t_iter t))"
proof -
  have "domains t = {k. \<exists>v. (k, v) \<in> set (t_iter t)}" by (simp add: domains_def flip: t_get_iff)
  then show ?thesis by force
qed

lemma length_t_iter: "length (t_iter t) = card (domains t)"
  using distinct_card [OF distinct_keys [OF t_iter_sorted [of t]]] by (simp add: domains_iter)

definition chosen :: "ObjectPlacementRequest \<Rightarrow> ClusterTopology \<Rightarrow> NodeRecord \<Rightarrow> DeviceRecord \<Rightarrow> bool" where
  "chosen request t n d \<longleftrightarrow> eligible_class request d \<and> device_accepts_new_placements (dv_state d)
     \<and> has_capacity request t d \<and> \<not> barred request n d"

definition candidates_of :: "placement_externs \<Rightarrow> ObjectPlacementRequest \<Rightarrow> ClusterTopology \<Rightarrow> NodeRecord \<Rightarrow> Candidate list" where
  "candidates_of x request t n =
     (if node_accepts_new_replicas (nr_state n)
      then map (\<lambda>d. candidate x n d request (request_scope request t)) (filter (chosen request t n) (nr_devices n)) else [])"

definition all_candidates :: "placement_externs \<Rightarrow> ObjectPlacementRequest \<Rightarrow> ClusterTopology \<Rightarrow> Candidate list" where
  "all_candidates x request t = concat (map (candidates_of x request t) (ct_nodes t))"

definition matching :: "ObjectPlacementRequest \<Rightarrow> DeviceRecord \<Rightarrow> bool" where
  "matching request d \<longleftrightarrow> eligible_class request d \<and> device_accepts_new_placements (dv_state d)"

lemma scan_devices_eq:
  "scan_devices x request t n ds acc =
     acc\<lparr>sc_class_matches := sc_class_matches acc + length (filter (matching request) ds),
         sc_with_capacity := sc_with_capacity acc + length (filter (\<lambda>d. matching request d \<and> has_capacity request t d) ds),
         sc_candidates := sc_candidates acc @ map (\<lambda>d. candidate x n d request (request_scope request t)) (filter (chosen request t n) ds)\<rparr>"
  by (induction ds arbitrary: acc) (simp_all add: chosen_def matching_def Let_def)

definition tally :: "(NodeRecord \<Rightarrow> nat) \<Rightarrow> NodeRecord list \<Rightarrow> nat" where
  "tally f ns = sum_list (map (\<lambda>n. if node_accepts_new_replicas (nr_state n) then f n else 0) ns)"

lemma scan_nodes_eq:
  "scan_nodes x request t ns acc =
     \<lparr>sc_healthy = sc_healthy acc + tally (\<lambda>n. 1) ns,
      sc_class_matches = sc_class_matches acc + tally (\<lambda>n. length (filter (matching request) (nr_devices n))) ns,
      sc_with_capacity = sc_with_capacity acc
        + tally (\<lambda>n. length (filter (\<lambda>d. matching request d \<and> has_capacity request t d) (nr_devices n))) ns,
      sc_candidates = sc_candidates acc @ concat (map (candidates_of x request t) ns)\<rparr>"
  by (induction ns arbitrary: acc) (simp_all add: candidates_of_def scan_devices_eq tally_def)

section \<open>The two passes\<close>

fun fresh_picks :: "nat \<Rightarrow> str set \<Rightarrow> Candidate list \<Rightarrow> Candidate list" where
  "fresh_picks k taken [] = []"
| "fresh_picks k taken (c # cs) =
     (if k = 0 then [] else if cd_domain c \<in> taken then fresh_picks k taken cs
      else c # fresh_picks (k - 1) (insert (cd_domain c) taken) cs)"

definition selection :: "nat \<Rightarrow> str set \<Rightarrow> Candidate list \<Rightarrow> Candidate list" where
  "selection k taken cs =
     (let p = fresh_picks k taken cs
      in p @ take (k - length p) (filter (\<lambda>c. cd_device_id c \<notin> cd_device_id ` set p) cs))"

lemma spread_eq:
  assumes "spread l w cs occupied targets = (occupied', targets')"
  shows "targets' = targets @ map (\<lambda>c. into_target c l) (fresh_picks (w - length targets) (domains occupied) cs)
    \<and> domains occupied' = domains occupied \<union> cd_domain ` set (fresh_picks (w - length targets) (domains occupied) cs)"
  using assms
proof (induction cs arbitrary: occupied targets)
  case (Cons c cs)
  consider "w \<le> length targets" | "\<not> w \<le> length targets" "cd_domain c \<in> domains occupied"
    | "\<not> w \<le> length targets" "cd_domain c \<notin> domains occupied"
    by blast
  then show ?case
  proof cases
    case 1
    with Cons.prems show ?thesis by simp
  next
    case 2
    with Cons.prems Cons.IH [of occupied targets] show ?thesis by (simp add: t_get_domains)
  next
    case 3
    with Cons.prems Cons.IH [of "t_insert (cd_domain c) 1 occupied" "targets @ [into_target c l]"]
    show ?thesis by (simp add: t_get_domains)
  qed
qed simp

lemma fill_eq:
  "fill l w selected cs targets reused =
     (let more = take (w - length targets) (filter (\<lambda>c. \<not> in_set (cd_device_id c) selected) cs)
      in (targets @ map (\<lambda>c. into_target c l) more, reused \<or> more \<noteq> []))"
  by (induction cs arbitrary: targets reused) (auto simp: Let_def take_Cons' Suc_diff_le)

lemma fresh_picks_spec:
  "length (fresh_picks k taken cs) \<le> k \<and> set (fresh_picks k taken cs) \<subseteq> set cs
   \<and> distinct (map cd_domain (fresh_picks k taken cs)) \<and> cd_domain ` set (fresh_picks k taken cs) \<inter> taken = {}
   \<and> (length (fresh_picks k taken cs) < k \<longrightarrow> cd_domain ` set cs \<subseteq> taken \<union> cd_domain ` set (fresh_picks k taken cs))"
proof (induction k taken cs rule: fresh_picks.induct)
  case (2 k taken c cs)
  show ?case
  proof (cases "k = 0 \<or> cd_domain c \<in> taken")
    case True
    with 2 show ?thesis by auto
  next
    case False
    with "2.IH"(2) show ?thesis by auto
  qed
qed simp

lemma fresh_picks_distinct: "distinct (map f cs) \<Longrightarrow> distinct (map f (fresh_picks k taken cs))"
proof (induction k taken cs rule: fresh_picks.induct)
  case (2 k taken c cs)
  then show ?case using fresh_picks_spec [of "k - 1" "insert (cd_domain c) taken" cs] by auto
qed simp

lemma selection_spec:
  "length (selection k taken cs) \<le> k \<and> set (selection k taken cs) \<subseteq> set cs"
  using fresh_picks_spec [of k taken cs] by (auto simp: selection_def Let_def dest: in_set_takeD)

lemma disjoint_image: "(\<And>c. c \<in> A \<Longrightarrow> f c \<notin> B) \<Longrightarrow> B \<inter> f ` A = {}"
  by blast

lemma selection_distinct: "distinct (map cd_device_id cs) \<Longrightarrow> distinct (map cd_device_id (selection k taken cs))"
proof -
  assume d: "distinct (map cd_device_id cs)"
  define p where "p = fresh_picks k taken cs"
  let ?rest = "filter (\<lambda>c. cd_device_id c \<notin> cd_device_id ` set p) cs"
  have "distinct (map cd_device_id p)" using fresh_picks_distinct [OF d] by (simp add: p_def)
  moreover have "distinct (map cd_device_id (take n ?rest))" for n
    using d by (simp add: distinct_map_filter flip: take_map)
  moreover have "cd_device_id ` set p \<inter> cd_device_id ` set (take n ?rest) = {}" for n
    by (rule disjoint_image) (auto dest: in_set_takeD)
  ultimately show ?thesis by (simp add: selection_def Let_def flip: p_def)
qed

lemma rotate_local_mset: "rotate_local l before ts = Some r \<Longrightarrow> mset r = mset before + mset ts"
  by (induction l before ts rule: rotate_local.induct) (auto split: if_splits)

lemma local_first_mset [simp]: "mset (local_first l ts) = mset ts"
  by (auto simp: local_first_def dest: rotate_local_mset split: option.split)

lemma local_first_basics [simp]:
  "length (local_first l ts) = length ts" "set (local_first l ts) = set ts"
  "distinct (map f (local_first l ts)) = distinct (map f ts)"
proof -
  show "length (local_first l ts) = length ts" "set (local_first l ts) = set ts"
    using local_first_mset [of l ts] by (rule mset_eq_length, rule mset_eq_setD)
  have "mset (map f (local_first l ts)) = mset (map f ts)" by simp
  then show "distinct (map f (local_first l ts)) = distinct (map f ts)" by (rule mset_eq_imp_distinct_iff)
qed

section \<open>The decision in terms of the selection\<close>

definition held_domains :: "placement_externs \<Rightarrow> ObjectPlacementRequest \<Rightarrow> ClusterTopology \<Rightarrow> str set" where
  "held_domains x request t =
     {placement_domain x n d (request_scope request t) | i n d.
        in_set (i, d) (pr_existing_targets request) \<and> topology_node t i = Some n}
     \<union> {node_domain_key (px_show x) n (request_scope request t) | i n.
        in_set i (pr_existing_nodes request) \<and> topology_node t i = Some n}"

definition existing_count :: "ObjectPlacementRequest \<Rightarrow> nat" where
  "existing_count request = max (length (elements (pr_existing_targets request))) (length (elements (pr_existing_nodes request)))"

definition wanted :: "ObjectPlacementRequest \<Rightarrow> nat" where
  "wanted request = unat (pr_desired_replicas request) - existing_count request"

lemma domains_occupy [simp]: "domains (occupy k t) = insert k (domains t)"
  by (simp add: occupy_def)

lemma domains_occupy_targets:
  "domains (occupy_targets x t scope ps occupied) =
     domains occupied \<union> {placement_domain x n d scope | i n d. (i, d) \<in> set ps \<and> topology_node t i = Some n}"
  by (induction x t scope ps occupied rule: occupy_targets.induct) (auto split: option.split)

lemma domains_occupy_nodes:
  "domains (occupy_nodes x t scope is occupied) =
     domains occupied \<union> {node_domain_key (px_show x) n scope | i n. i \<in> set is \<and> topology_node t i = Some n}"
  by (induction x t scope "is" occupied rule: occupy_nodes.induct) (auto split: option.split)

definition ranked :: "placement_externs \<Rightarrow> ObjectPlacementRequest \<Rightarrow> ClusterTopology \<Rightarrow> Candidate list" where
  "ranked x request t = sort_key rank (all_candidates x request t)"

definition spread_out :: "placement_externs \<Rightarrow> ObjectPlacementRequest \<Rightarrow> ClusterTopology \<Rightarrow> Candidate list" where
  "spread_out x request t = fresh_picks (wanted request) (held_domains x request t) (ranked x request t)"

definition picked :: "placement_externs \<Rightarrow> ObjectPlacementRequest \<Rightarrow> ClusterTopology \<Rightarrow> Candidate list" where
  "picked x request t = selection (wanted request) (held_domains x request t) (ranked x request t)"

lemma picked_eq:
  "picked x request t = spread_out x request t
     @ take (wanted request - length (spread_out x request t))
         (filter (\<lambda>c. cd_device_id c \<notin> cd_device_id ` set (spread_out x request t)) (ranked x request t))"
  by (simp add: picked_def selection_def Let_def spread_out_def)

lemma set_ranked [simp]: "set (ranked x request t) = set (all_candidates x request t)"
  by (simp add: ranked_def)

lemma ranked_Nil [simp]: "ranked x request t = [] \<longleftrightarrow> all_candidates x request t = []"
  using set_ranked [of x request t] by (metis set_empty)

lemma into_target_fields [simp]:
  "pt_device_id (into_target c l) = cd_device_id c" "pt_node_id (into_target c l) = cd_node_id c"
  "pt_domain (into_target c l) = cd_domain c" "pt_rpc_address (into_target c l) = cd_rpc_address c"
  "pt_local (into_target c l) \<longleftrightarrow> l = Some (cd_node_id c)"
  by (simp_all add: into_target_def)

lemma place_eq:
  "place x l request t =
     (if pr_desired_replicas request = 0
      then Inl (InvalidRequest (lit ''desired replica count must be at least one''))
      else if pr_required_acknowledgements request = 0 \<or> pr_required_acknowledgements request > pr_desired_replicas request
      then Inl (InvalidRequest (lit ''required acknowledgements must be between one and the desired replica count''))
      else if all_candidates x request t = []
      then Inl (NoEligibleDevices (pr_storage_class request) (tally (\<lambda>n. 1) (ct_nodes t))
             (tally (\<lambda>n. length (filter (matching request) (nr_devices n))) (ct_nodes t))
             (tally (\<lambda>n. length (filter (\<lambda>d. matching request d \<and> has_capacity request t d) (nr_devices n))) (ct_nodes t)))
      else if length (spread_out x request t) < wanted request \<and> request_strict request t
      then Inl (InsufficientFailureDomains (scope_to_string (request_scope request t)) (pr_desired_replicas request)
             (card (cd_domain ` set (all_candidates x request t))
              + card (held_domains x request t \<union> cd_domain ` set (spread_out x request t))))
      else if length (picked x request t) + existing_count request < unat (pr_required_acknowledgements request)
      then Inl (InsufficientDurability (pr_required_acknowledgements request) (length (picked x request t) + existing_count request))
      else Inr \<lparr>pl_epoch = ct_epoch t, pl_targets = local_first l (map (\<lambda>c. into_target c l) (picked x request t)),
             pl_required_acknowledgements = pr_required_acknowledgements request,
             pl_desired_replicas = pr_desired_replicas request,
             pl_failure_domains_reused = (length (spread_out x request t) < length (picked x request t))\<rparr>)"
proof -
  let ?occupied = "occupy_nodes x t (request_scope request t) (elements (pr_existing_nodes request))
                (occupy_targets x t (request_scope request t) (elements (pr_existing_targets request)) t_empty)"
  have held: "domains ?occupied = held_domains x request t"
    by (simp add: domains_occupy_nodes domains_occupy_targets held_domains_def in_set_elements)
  obtain occupied' targets' where
    s: "spread l (wanted request) (ranked x request t) ?occupied [] = (occupied', targets')"
    by fastforce
  note spread = spread_eq [OF s, unfolded held append_Nil list.size(3) minus_nat.diff_0, folded spread_out_def]
  have found: "sc_candidates (scan_nodes x request t (ct_nodes t)
      \<lparr>sc_healthy = 0, sc_class_matches = 0, sc_with_capacity = 0, sc_candidates = []\<rparr>) = all_candidates x request t"
    by (simp add: scan_nodes_eq all_candidates_def)
  let ?into = "\<lambda>c. into_target c l"
  have filled: "fill l (wanted request) (btree_set (map pt_device_id targets')) (ranked x request t) targets' False
      = (map ?into (picked x request t), length (spread_out x request t) < length (picked x request t))"
    using spread by (auto simp: fill_eq picked_eq Let_def image_image)
  have whole: "\<not> length (spread_out x request t) < wanted request \<Longrightarrow> picked x request t = spread_out x request t"
    by (simp add: picked_eq)
  have lens: "length targets' = length (spread_out x request t)" "targets' = map ?into (spread_out x request t)"
    using spread by simp_all
  have counts: "length (elements (btree_set (map cd_domain (ranked x request t)))) = card (cd_domain ` set (all_candidates x request t))"
    "length (t_iter occupied') = card (held_domains x request t \<union> cd_domain ` set (spread_out x request t))"
    using spread by (simp_all add: length_elements_btree_set length_t_iter)
  note unfolded = place_def Let_def found existing_count_def [symmetric] wanted_def [symmetric] ranked_def [symmetric] s prod.case
    filled counts lens(1)
  have checked: "rbind (ensure b e) f = (if \<not> b then Inl e else f ())" for b and e :: PlacementError and f :: "unit \<Rightarrow> (PlacementError, PlacementPlan) result"
    by (simp add: ensure_def)
  have targets: "(if length (spread_out x request t) < wanted request
       then (map ?into (picked x request t), length (spread_out x request t) < length (picked x request t)) else (targets', False))
     = (map ?into (picked x request t), length (spread_out x request t) < length (picked x request t))"
    using whole lens(2) by simp
  show ?thesis
    unfolding unfolded targets checked
    by (simp only: scan_nodes_eq scan.simps add_0_left prod.case local_first_basics length_map ranked_Nil not_not)
qed

section \<open>Safety of a plan\<close>

lemma all_candidates_iff:
  "c \<in> set (all_candidates x request t) \<longleftrightarrow>
     (\<exists>n\<in>set (ct_nodes t). \<exists>d\<in>set (nr_devices n). node_accepts_new_replicas (nr_state n) \<and> chosen request t n d
        \<and> c = candidate x n d request (request_scope request t))"
  by (auto simp: all_candidates_def candidates_of_def)

lemma candidate_fields [simp]:
  "cd_node_id (candidate x n d request scope) = nr_node_id n" "cd_device_id (candidate x n d request scope) = dv_id d"
  by (simp_all add: candidate_def Let_def)

lemma distinct_concat_shrink:
  assumes "distinct (concat (map g ns))" "\<And>n. set (h n) \<subseteq> set (g n)" "\<And>n. distinct (g n) \<Longrightarrow> distinct (h n)"
  shows "distinct (concat (map h ns))"
  using assms(1)
proof (induction ns)
  case (Cons n ns)
  have "set (concat (map h ns)) \<subseteq> set (concat (map g ns))" using assms(2) by fastforce
  with Cons assms(2, 3) [of n] show ?case by fastforce
qed simp

definition device_ids :: "NodeRecord list \<Rightarrow> DeviceId list" where
  "device_ids ns = concat (map (\<lambda>n. map dv_id (nr_devices n)) ns)"

lemma distinct_all_candidates:
  assumes "distinct (device_ids (ct_nodes t))"
  shows "distinct (map cd_device_id (all_candidates x request t))"
proof -
  have "map cd_device_id (all_candidates x request t) = concat (map (\<lambda>n. map cd_device_id (candidates_of x request t n)) (ct_nodes t))"
    by (simp add: all_candidates_def map_concat comp_def)
  moreover have "distinct (concat (map (\<lambda>n. map cd_device_id (candidates_of x request t n)) (ct_nodes t)))"
    using assms unfolding device_ids_def
    by (rule distinct_concat_shrink) (auto simp: candidates_of_def comp_def distinct_map_filter)
  ultimately show ?thesis by simp
qed

lemma distinct_ranked:
  "distinct (device_ids (ct_nodes t)) \<Longrightarrow> distinct (map cd_device_id (ranked x request t))"
  using distinct_all_candidates [of t x request]
  by (metis mset_eq_imp_distinct_iff mset_map mset_sort ranked_def)

lemma placed:
  assumes "place x l request t = Inr plan"
  shows "pl_targets plan = local_first l (map (\<lambda>c. into_target c l) (picked x request t))"
    "pl_failure_domains_reused plan \<longleftrightarrow> length (spread_out x request t) < length (picked x request t)"
    "unat (pr_required_acknowledgements request) \<le> length (picked x request t) + existing_count request"
    "request_strict request t \<Longrightarrow> wanted request \<le> length (spread_out x request t)"
  using assms by (auto simp: place_eq split: if_splits)

lemma picked_candidates: "set (picked x request t) \<subseteq> set (all_candidates x request t)"
  using selection_spec [of "wanted request" "held_domains x request t" "ranked x request t"] by (simp add: picked_def)

text \<open>
  C35. Every target of a plan is an active device, in a condition that permits placement, of a healthy node, of
  the requested class, with the free space that the payload and the reserves need, and neither barred from the
  request nor already holding the payload; no device is used twice; together with the replicas that exist the
  plan reaches the required acknowledgements, and it never places more than what is missing.
\<close>

theorem placement_is_safe:
  assumes "place x l request t = Inr plan" and "distinct (device_ids (ct_nodes t))"
  shows "(\<forall>p\<in>set (pl_targets plan). \<exists>n\<in>set (ct_nodes t). \<exists>d\<in>set (nr_devices n).
            pt_node_id p = nr_node_id n \<and> pt_device_id p = dv_id d
            \<and> nr_state n = NodeHealthy \<and> dv_state d = DeviceActive \<and> permits_placement (dv_health d)
            \<and> eligible_class request d \<and> \<not> barred request n d
            \<and> dc_available_bytes (dv_capacity d) \<ge> saturating_add (request_reservation request t) (device_reserve request t d))
    \<and> distinct (map pt_device_id (pl_targets plan))
    \<and> unat (pr_required_acknowledgements request) \<le> length (pl_targets plan) + existing_count request
    \<and> length (pl_targets plan) \<le> unat (pr_desired_replicas request) - existing_count request"
proof (intro conjI ballI)
  note plan = placed [OF assms(1)]
  show "unat (pr_required_acknowledgements request) \<le> length (pl_targets plan) + existing_count request"
    using plan by simp
  show "length (pl_targets plan) \<le> unat (pr_desired_replicas request) - existing_count request"
    using selection_spec [of "wanted request" "held_domains x request t" "ranked x request t"] plan(1)
    by (simp add: picked_def wanted_def)
  show "distinct (map pt_device_id (pl_targets plan))"
    using selection_distinct [OF distinct_ranked [OF assms(2)]] plan(1) by (simp add: picked_def comp_def)
  fix p assume "p \<in> set (pl_targets plan)"
  then obtain c where c: "c \<in> set (all_candidates x request t)" "p = into_target c l"
    using plan(1) picked_candidates [of x request t] by auto
  from c(1) obtain n d where "n \<in> set (ct_nodes t)" "d \<in> set (nr_devices n)" "node_accepts_new_replicas (nr_state n)"
    "chosen request t n d" "c = candidate x n d request (request_scope request t)"
    by (auto simp: all_candidates_iff)
  with c(2) show "\<exists>n\<in>set (ct_nodes t). \<exists>d\<in>set (nr_devices n).
            pt_node_id p = nr_node_id n \<and> pt_device_id p = dv_id d
            \<and> nr_state n = NodeHealthy \<and> dv_state d = DeviceActive \<and> permits_placement (dv_health d)
            \<and> eligible_class request d \<and> \<not> barred request n d
            \<and> dc_available_bytes (dv_capacity d) \<ge> saturating_add (request_reservation request t) (device_reserve request t d)"
    by (auto simp: chosen_def has_capacity_def device_eligible_def node_accepts_new_replicas_def device_accepts_new_placements_def
        intro!: bexI [of _ n] bexI [of _ d])
qed

text \<open>
  C36. A plan keeps its replicas in failure domains that are pairwise different and different from those of the
  replicas that exist, exactly when it does not report domains as reused; it reuses a domain only when no
  candidate is left in a free one; a strict request is never answered with fewer targets than are missing, nor
  with a reused domain.
\<close>

theorem placement_spreads_over_domains:
  assumes "place x l request t = Inr plan"
  shows "(pl_failure_domains_reused plan \<longleftrightarrow>
            \<not> (distinct (map pt_domain (pl_targets plan)) \<and> pt_domain ` set (pl_targets plan) \<inter> held_domains x request t = {}))
    \<and> (pl_failure_domains_reused plan \<longrightarrow>
         cd_domain ` set (all_candidates x request t) \<subseteq> held_domains x request t \<union> pt_domain ` set (pl_targets plan))
    \<and> (request_strict request t \<longrightarrow>
         \<not> pl_failure_domains_reused plan
         \<and> length (pl_targets plan) = unat (pr_desired_replicas request) - existing_count request)"
proof -
  let ?p = "spread_out x request t" and ?all = "picked x request t" and ?held = "held_domains x request t"
  note plan = placed [OF assms]
  note spec = fresh_picks_spec [of "wanted request" ?held "ranked x request t", folded spread_out_def, unfolded set_ranked]
  define more where "more = take (wanted request - length ?p)
    (filter (\<lambda>c. cd_device_id c \<notin> cd_device_id ` set ?p) (ranked x request t))"
  have more: "?all = ?p @ more" "set more \<subseteq> set (all_candidates x request t)"
    "length ?p \<ge> wanted request \<Longrightarrow> more = []"
    using picked_eq [of x request t] picked_candidates [of x request t] by (simp_all add: more_def)
  have doms: "distinct (map pt_domain (pl_targets plan)) \<longleftrightarrow> distinct (map cd_domain ?all)"
    "pt_domain ` set (pl_targets plan) = cd_domain ` set ?all"
    using plan(1) by (auto simp: comp_def image_image)
  have short: "more \<noteq> [] \<Longrightarrow> length ?p < wanted request"
    using more(3) by fastforce
  have all: "more \<noteq> [] \<Longrightarrow> cd_domain ` set (all_candidates x request t) \<subseteq> ?held \<union> cd_domain ` set ?p"
    using short spec by blast
  have collide: "cd_domain c \<in> ?held \<union> cd_domain ` set ?p" if "c \<in> set more" for c
  proof -
    have "more \<noteq> []" "c \<in> set (all_candidates x request t)" using that more(2) by auto
    then show ?thesis using all by blast
  qed
  have "pl_failure_domains_reused plan \<longleftrightarrow> more \<noteq> []"
    using plan(2) more(1) by simp
  moreover have "more \<noteq> [] \<longleftrightarrow> \<not> (distinct (map cd_domain ?all) \<and> cd_domain ` set ?all \<inter> ?held = {})"
  proof (cases more)
    case Nil
    with spec more(1) show ?thesis by simp
  next
    case (Cons c cs)
    with collide [of c] more(1) show ?thesis by auto
  qed
  moreover have "more \<noteq> [] \<Longrightarrow> cd_domain ` set (all_candidates x request t) \<subseteq> ?held \<union> cd_domain ` set ?all"
    using all more(1) by auto
  moreover have "request_strict request t \<Longrightarrow> more = [] \<and> length (pl_targets plan) = wanted request"
    using plan(1) plan(4) more(1, 3) conjunct1 [OF spec] by simp
  ultimately show ?thesis unfolding doms wanted_def by blast
qed

section \<open>Every member computes the same plan\<close>

lemma find_unique:
  "distinct (map f xs) \<Longrightarrow> find (\<lambda>y. f y = k) xs = Some y \<longleftrightarrow> y \<in> set xs \<and> f y = k"
  by (induction xs) force+

lemma topology_node_iff:
  assumes "distinct (map nr_node_id (ct_nodes t))"
  shows "topology_node t i = Some n \<longleftrightarrow> n \<in> set (ct_nodes t) \<and> nr_node_id n = i"
  unfolding topology_node_def by (rule find_unique [OF assms])

lemma tally_mset: "mset ns = mset ns' \<Longrightarrow> tally f ns = tally f ns'"
proof -
  have "tally f ns = (\<Sum>n\<in>#mset ns. if node_accepts_new_replicas (nr_state n) then f n else 0)" for ns
    by (induction ns) (simp_all add: tally_def)
  then show "mset ns = mset ns' \<Longrightarrow> tally f ns = tally f ns'" by simp
qed

lemma concat_mset: "mset ns = mset ns' \<Longrightarrow> mset (concat (map f ns)) = mset (concat (map f ns'))"
proof -
  have "mset (concat (map f ns)) = (\<Sum>n\<in>#mset ns. mset (f n))" for ns
    by (induction ns) simp_all
  then show "mset ns = mset ns' \<Longrightarrow> mset (concat (map f ns)) = mset (concat (map f ns'))" by simp
qed

lemma renodes [simp]:
  "request_scope request (t\<lparr>ct_nodes := ns\<rparr>) = request_scope request t"
  "request_strict request (t\<lparr>ct_nodes := ns\<rparr>) = request_strict request t"
  "has_capacity request (t\<lparr>ct_nodes := ns\<rparr>) d = has_capacity request t d"
  by (auto simp: request_scope_def request_strict_def has_capacity_def device_level_def request_reservation_def
      device_reserve_def split: option.split)

lemma candidates_of_renodes [simp]:
  "candidates_of x request (t\<lparr>ct_nodes := ns\<rparr>) = candidates_of x request t"
proof -
  have "chosen request (t\<lparr>ct_nodes := ns\<rparr>) = chosen request t" by (intro ext) (simp add: chosen_def)
  then show ?thesis by (intro ext) (simp add: candidates_of_def)
qed

lemma ranked_renodes:
  assumes same: "mset ns = mset (ct_nodes t)" and ids: "distinct (device_ids (ct_nodes t))"
  shows "ranked x request (t\<lparr>ct_nodes := ns\<rparr>) = ranked x request t"
proof -
  have all: "mset (all_candidates x request (t\<lparr>ct_nodes := ns\<rparr>)) = mset (all_candidates x request t)"
    unfolding all_candidates_def using concat_mset [OF same] by simp
  have "inj_on cd_device_id (set (all_candidates x request t))"
    using distinct_all_candidates [OF ids] by (simp add: distinct_map)
  then have "inj_on rank (set (all_candidates x request (t\<lparr>ct_nodes := ns\<rparr>)))"
    using mset_eq_setD [OF all] by (auto simp: rank_def inj_on_def)
  then show ?thesis
    unfolding ranked_def using all by (intro sort_key_inj_key_eq) simp_all
qed

lemma held_renodes:
  assumes same: "mset ns = mset (ct_nodes t)" and ids: "distinct (map nr_node_id (ct_nodes t))"
  shows "held_domains x request (t\<lparr>ct_nodes := ns\<rparr>) = held_domains x request t"
proof -
  have "distinct (map nr_node_id ns)" using ids same by (metis mset_eq_imp_distinct_iff mset_map)
  then have "topology_node (t\<lparr>ct_nodes := ns\<rparr>) i = Some n \<longleftrightarrow> topology_node t i = Some n" for i n
    using mset_eq_setD [OF same] by (simp add: topology_node_iff [OF ids] topology_node_iff [of "t\<lparr>ct_nodes := ns\<rparr>"])
  then show ?thesis by (simp add: held_domains_def)
qed

definition outline :: "PlacementPlan \<Rightarrow> u64 \<times> (NodeId \<times> DeviceId \<times> str \<times> str) multiset \<times> u8 \<times> u8 \<times> bool" where
  "outline plan = (pl_epoch plan,
     mset (map (\<lambda>p. (pt_node_id p, pt_device_id p, pt_rpc_address p, pt_domain p)) (pl_targets plan)),
     pl_required_acknowledgements plan, pl_desired_replicas plan, pl_failure_domains_reused plan)"

text \<open>
  C37. The decision is a function of the committed state and the request alone: whichever node asks, and in
  whatever order it holds the nodes of the topology, it gets the same error or a plan with the same devices.
\<close>

theorem placement_does_not_depend_on_the_asker:
  assumes "mset ns = mset (ct_nodes t)" "distinct (map nr_node_id (ct_nodes t))" "distinct (device_ids (ct_nodes t))"
  shows "map_sum id outline (place x l request t) = map_sum id outline (place x l' request (t\<lparr>ct_nodes := ns\<rparr>))"
proof -
  let ?t = "t\<lparr>ct_nodes := ns\<rparr>"
  note same = ranked_renodes [OF assms(1, 3), of x request] held_renodes [OF assms(1, 2), of x request]
  have picks: "spread_out x request ?t = spread_out x request t" "picked x request ?t = picked x request t"
    using same by (simp_all add: spread_out_def picked_def)
  have all: "set (all_candidates x request ?t) = set (all_candidates x request t)"
    using same(1) by (metis set_ranked)
  have none: "all_candidates x request ?t = [] \<longleftrightarrow> all_candidates x request t = []"
    using all by (metis set_empty)
  show ?thesis
    by (simp add: place_eq picks all none same(2) outline_def tally_mset [OF assms(1)] image_mset.compositionality comp_def)
qed

section \<open>Errors of strict placement\<close>

text \<open>
  C38. When strict placement fails, the number of available domains in the error counts every domain of a
  candidate twice: it exceeds the number of domains that exist by the number of domains with a candidate, and so
  may be as large as the number required.
\<close>

theorem strict_error_overstates_the_domains:
  assumes "place x l request t = Inl (InsufficientFailureDomains scope required available)"
  shows "available = card (held_domains x request t \<union> cd_domain ` set (all_candidates x request t))
           + card (cd_domain ` set (all_candidates x request t))
    \<and> available > card (held_domains x request t \<union> cd_domain ` set (all_candidates x request t))"
proof -
  from assms have short: "length (spread_out x request t) < wanted request" "all_candidates x request t \<noteq> []"
    and a: "available = card (cd_domain ` set (all_candidates x request t))
       + card (held_domains x request t \<union> cd_domain ` set (spread_out x request t))"
    by (auto simp: place_eq split: if_splits)
  note spec = fresh_picks_spec [of "wanted request" "held_domains x request t" "ranked x request t", folded spread_out_def, unfolded set_ranked]
  have "held_domains x request t \<union> cd_domain ` set (spread_out x request t) = held_domains x request t \<union> cd_domain ` set (all_candidates x request t)"
    using spec short(1) by blast
  moreover have "card (cd_domain ` set (all_candidates x request t)) > 0"
    using short(2) by (simp add: card_gt_0_iff)
  ultimately show ?thesis using a by simp
qed

section \<open>A cluster of two nodes\<close>

definition sample_px :: placement_externs where
  "sample_px = \<lparr>px_sha = (\<lambda>m. []), px_race = (\<lambda>sample w. uint sample), px_show = (\<lambda>u. [ucast u])\<rparr>"

definition sample_node :: "NodeId \<Rightarrow> NodeRecord" where
  "sample_node i = (node_joining
     \<lparr>rg_node_id = i,
      rg_versions = \<lparr>nv_protocol = \<lparr>pv_major = 1, pv_minor = 1\<rparr>, nv_software = [], nv_storage_format = 1, nv_cluster_format = 1\<rparr>,
      rg_rpc_address = [], rg_s3_endpoint = None, rg_management_endpoint = None, rg_storage_class = default_storage_class,
      rg_failure_domain = t_empty, rg_capacity = no_capacity,
      rg_devices = [legacy_directory i None default_storage_class
        \<lparr>dc_raw_bytes = 0x10000000000, dc_usable_bytes = 0x10000000000, dc_allocated_bytes = 0, dc_reserved_bytes = 0,
         dc_available_bytes = 0x10000000000\<rparr>],
      rg_started_at = 0\<rparr> 0 True 0)\<lparr>nr_state := NodeHealthy\<rparr>"

definition sample_topology :: "bool \<Rightarrow> NodeId list \<Rightarrow> ClusterTopology" where
  "sample_topology strict is =
     \<lparr>ct_cluster_id = 9, ct_config = default_config\<lparr>cfg_failure_domain_scope := ScopeNode, cfg_strict_failure_domains := strict\<rparr>,
      ct_epoch = 0, ct_nodes = map sample_node is\<rparr>"

definition sample_request :: "u8 \<Rightarrow> ObjectPlacementRequest" where
  "sample_request n = (placement_request_new 7 n 1 default_storage_class)\<lparr>pr_size_hint := Some 100\<rparr>"

lemma sample_held: "held_domains x (sample_request n) t = {}"
  by (simp add: held_domains_def sample_request_def placement_request_new_def in_set_def)

lemma sample_wanted [simp]: "existing_count (sample_request n) = 0" "wanted (sample_request n) = unat n"
  by (simp_all add: existing_count_def wanted_def sample_request_def placement_request_new_def elements_def t_empty.rep_eq)

lemma sample_candidates_of:
  "candidates_of sample_px (sample_request n) (sample_topology strict js) (sample_node i) =
     [candidate sample_px (sample_node i) (hd (nr_devices (sample_node i))) (sample_request n) ScopeNode]"
  by (simp add: sample_topology_def candidates_of_def sample_node_def node_joining_def
      node_accepts_new_replicas_def chosen_def eligible_class_def sample_request_def placement_request_new_def
      legacy_directory_def device_accepts_new_placements_def has_capacity_def device_level_def default_config_def
      device_utilization_permille_def device_used_bytes_def watermark_level_def device_eligible_def barred_def in_set_def
      request_reservation_def device_reserve_def request_scope_def saturating_add_def saturating_sub_def clamp_u32_def permits_placement_def)

lemma sample_candidates:
  "all_candidates sample_px (sample_request n) (sample_topology strict is) =
     map (\<lambda>i. candidate sample_px (sample_node i) (hd (nr_devices (sample_node i))) (sample_request n) ScopeNode) is"
proof -
  have "ct_nodes (sample_topology strict is) = map sample_node is" by (simp add: sample_topology_def)
  then show ?thesis by (simp add: all_candidates_def sample_candidates_of comp_def)
qed

lemma sample_candidate [simp]:
  "rank (candidate sample_px (sample_node i) d (sample_request n) ScopeNode) = (0, i, dv_id d)"
  "cd_domain (candidate sample_px (sample_node i) d (sample_request n) ScopeNode) = lit ''node:'' @ [ucast i]"
  "nr_node_id (sample_node i) = i" "dv_id (hd (nr_devices (sample_node i))) = i"
  by (simp_all add: rank_def candidate_def Let_def sample_px_def sample_node_def node_joining_def placement_domain_def node_domain_key_def domain_key_def
      legacy_directory_def legacy_id_def)

lemma sample_ranked:
  "ranked sample_px (sample_request n) (sample_topology strict [1, 2]) =
     map (\<lambda>i. candidate sample_px (sample_node i) (hd (nr_devices (sample_node i))) (sample_request n) ScopeNode) [1, 2]"
  by (simp add: ranked_def sample_candidates)

lemma sample_spread:
  assumes "n \<in> {2, 3}"
  shows "spread_out sample_px (sample_request n) (sample_topology strict [1, 2]) = ranked sample_px (sample_request n) (sample_topology strict [1, 2])"
    "picked sample_px (sample_request n) (sample_topology strict [1, 2]) = ranked sample_px (sample_request n) (sample_topology strict [1, 2])"
proof -
  have "spread_out sample_px (sample_request n) (sample_topology strict [1, 2]) = ranked sample_px (sample_request n) (sample_topology strict [1, 2])"
    using assms by (auto simp add: spread_out_def sample_ranked sample_held)
  then show "spread_out sample_px (sample_request n) (sample_topology strict [1, 2]) = ranked sample_px (sample_request n) (sample_topology strict [1, 2])"
    "picked sample_px (sample_request n) (sample_topology strict [1, 2]) = ranked sample_px (sample_request n) (sample_topology strict [1, 2])"
    by (simp_all add: picked_eq sample_ranked)
qed

lemma sample_ids:
  "distinct (device_ids (ct_nodes (sample_topology strict [1, 2])))"
  "distinct (map nr_node_id (ct_nodes (sample_topology strict [1, 2])))"
  by (simp_all add: device_ids_def sample_topology_def sample_node_def node_joining_def legacy_directory_def legacy_id_def)

definition sample_plan :: "NodeId option \<Rightarrow> PlacementPlan" where
  "sample_plan l = \<lparr>pl_epoch = 0,
     pl_targets = local_first l (map (\<lambda>i. \<lparr>pt_node_id = i, pt_device_id = i, pt_rpc_address = [],
       pt_domain = lit ''node:'' @ [ucast i], pt_local = (l = Some i)\<rparr>) [1, 2]),
     pl_required_acknowledgements = 1, pl_desired_replicas = 2, pl_failure_domains_reused = False\<rparr>"

lemma sample_place: "place sample_px l (sample_request 2) (sample_topology False [1, 2]) = Inr (sample_plan l)"
  by (simp add: place_eq sample_spread sample_ranked sample_candidates sample_plan_def into_target_def)
    (simp add: sample_topology_def sample_request_def placement_request_new_def sample_node_def node_joining_def candidate_def Let_def request_strict_def)

lemma sample_strict: "place sample_px l (sample_request 3) (sample_topology True [1, 2])
    = Inl (InsufficientFailureDomains (lit ''node'') 3 4)"
  by (simp add: place_eq sample_spread sample_ranked sample_candidates sample_held)
    (simp add: sample_topology_def sample_request_def placement_request_new_def request_strict_def request_scope_def)

theorem placement_is_safe_witness:
  "place sample_px (Some 2) (sample_request 2) (sample_topology False [1, 2]) = Inr (sample_plan (Some 2))
   \<and> distinct (map pt_device_id (pl_targets (sample_plan (Some 2)))) \<and> length (pl_targets (sample_plan (Some 2))) \<le> 2"
  using placement_is_safe [OF sample_place sample_ids(1), of "Some 2"] by (simp add: sample_place, simp add: sample_request_def placement_request_new_def)

theorem placement_spreads_over_domains_witness:
  "place sample_px None (sample_request 2) (sample_topology False [1, 2]) = Inr (sample_plan None)
   \<and> distinct (map pt_domain (pl_targets (sample_plan None)))"
  using placement_spreads_over_domains [OF sample_place, of None] by (simp add: sample_place sample_plan_def)

theorem placement_does_not_depend_on_the_asker_witness:
  "map_sum id outline (place sample_px (Some 2) (sample_request 2) (sample_topology False [2, 1])) = Inr (outline (sample_plan None))"
proof -
  have "(sample_topology False [1, 2])\<lparr>ct_nodes := map sample_node [2, 1]\<rparr> = sample_topology False [2, 1]"
    by (simp add: sample_topology_def)
  then show ?thesis
    using placement_does_not_depend_on_the_asker [OF _ sample_ids(2, 1),
      of "map sample_node [2, 1]" False sample_px None "sample_request 2" "Some 2"]
      sample_place [of None]
    by (simp add: sample_topology_def)
qed

theorem strict_error_overstates_the_domains_witness:
  "place sample_px None (sample_request 3) (sample_topology True [1, 2]) = Inl (InsufficientFailureDomains (lit ''node'') 3 4)
   \<and> card (cd_domain ` set (all_candidates sample_px (sample_request 3) (sample_topology True [1, 2]))) = 2"
  using strict_error_overstates_the_domains [OF sample_strict] sample_strict by (simp add: sample_held)

end
