(* ===== verification/Explanations.thy ===== *)
theory Explanations
  imports Placement_Facts
begin

text \<open>
  The explanation of a placement decision: the walk that produces it applies the same filters as placement, so it
  describes the decision that placement makes.
\<close>

definition consistent :: "ObjectPlacementRequest \<Rightarrow> bool" where
  "consistent request = (case pr_policy request of None \<Rightarrow> True | Some p \<Rightarrow> sp_class p = pr_storage_class request)"

lemma with_policy_consistent: "consistent (with_policy policy request)"
  by (simp add: consistent_def with_policy_def Let_def split: option.split)

lemma rejection_None:
  "consistent request \<Longrightarrow> rejection request t n d = None \<longleftrightarrow> node_accepts_new_replicas (nr_state n) \<and> chosen request t n d"
  by (auto simp: rejection_def chosen_def has_capacity_def barred_def consistent_def eligible_class_def accepts_device_def device_eligible_def
      split: option.splits)

definition exclusion :: "ObjectPlacementRequest \<Rightarrow> ClusterTopology \<Rightarrow> NodeRecord \<Rightarrow> DeviceRecord \<Rightarrow> PlacementExclusion" where
  "exclusion request t n d = \<lparr>px_node_id = nr_node_id n, px_device_id = dv_id d, px_kind = dv_kind d,
     px_reason = the (rejection request t n d)\<rparr>"

definition rejected :: "ObjectPlacementRequest \<Rightarrow> ClusterTopology \<Rightarrow> NodeRecord \<Rightarrow> PlacementExclusion list" where
  "rejected request t n = map (exclusion request t n) (filter (\<lambda>d. rejection request t n d \<noteq> None) (nr_devices n))"

lemma explain_devices_eq:
  "explain_devices x request t selected n ds cs es =
     (cs @ map (\<lambda>d. candidate_explanation selected (candidate x n d request (request_scope request t)))
             (filter (\<lambda>d. rejection request t n d = None) ds),
      es @ map (exclusion request t n) (filter (\<lambda>d. rejection request t n d \<noteq> None) ds))"
  by (induction ds arbitrary: cs es) (simp_all add: exclusion_def split: option.split)

lemma accepted_candidates:
  assumes "consistent request"
  shows "map (\<lambda>d. candidate_explanation selected (candidate x n d request (request_scope request t)))
             (filter (\<lambda>d. rejection request t n d = None) (nr_devices n))
    = map (candidate_explanation selected) (candidates_of x request t n)"
  by (simp add: rejection_None [OF assms] candidates_of_def)

lemma explain_nodes_eq:
  assumes "consistent request"
  shows "explain_nodes x request t selected ns cs es =
     (cs @ map (candidate_explanation selected) (concat (map (candidates_of x request t) ns)),
      es @ concat (map (rejected request t) ns))"
  by (induction ns arbitrary: cs es) (simp_all add: explain_devices_eq accepted_candidates [OF assms] rejected_def)

lemma sort_key_map: "sort_key f (map g xs) = map g (sort_key (\<lambda>y. f (g y)) xs)"
proof -
  have "insort_key f (g y) (map g ys) = map g (insort_key (\<lambda>y. f (g y)) y ys)" for y ys
    by (induction ys) simp_all
  then show ?thesis by (induction xs) simp_all
qed

definition devices_of :: "NodeRecord list \<Rightarrow> (NodeId \<times> DeviceId) list" where
  "devices_of ns = concat (map (\<lambda>n. map (\<lambda>d. (nr_node_id n, dv_id d)) (nr_devices n)) ns)"

lemma mset_split: "mset (map g (filter P xs)) + mset (map g (filter (\<lambda>y. \<not> P y) xs)) = mset (map g xs)"
  by (induction xs) simp_all

lemma devices_partitioned:
  assumes "consistent request"
  shows "mset (map (\<lambda>c. (cd_node_id c, cd_device_id c)) (concat (map (candidates_of x request t) ns)))
     + mset (map (\<lambda>e. (px_node_id e, px_device_id e)) (concat (map (rejected request t) ns)))
    = mset (devices_of ns)"
proof (induction ns)
  case (Cons n ns)
  let ?g = "\<lambda>d. (nr_node_id n, dv_id d)" and ?P = "\<lambda>d. rejection request t n d = None"
  have "map (\<lambda>c. (cd_node_id c, cd_device_id c)) (candidates_of x request t n) = map ?g (filter ?P (nr_devices n))"
    by (simp add: candidates_of_def rejection_None [OF assms])
  moreover have "map (\<lambda>e. (px_node_id e, px_device_id e)) (rejected request t n) = map ?g (filter (\<lambda>d. \<not> ?P d) (nr_devices n))"
    by (simp add: rejected_def exclusion_def)
  ultimately show ?case
    using Cons mset_split [of ?g ?P "nr_devices n"] by (simp add: devices_of_def add_ac)
qed (simp add: devices_of_def)

lemma selected_are_picked:
  assumes "distinct (device_ids (ct_nodes t))"
  shows "mset (filter (\<lambda>c. cd_device_id c \<in> cd_device_id ` set (picked x request t)) (ranked x request t)) = mset (picked x request t)"
proof -
  have inj: "inj_on cd_device_id (set (all_candidates x request t))"
    using distinct_all_candidates [OF assms] by (simp add: distinct_map)
  have "distinct (picked x request t)" "distinct (ranked x request t)"
    using selection_distinct [OF distinct_ranked [OF assms]] distinct_ranked [OF assms]
    by (simp_all add: picked_def distinct_map)
  moreover have "set (filter (\<lambda>c. cd_device_id c \<in> cd_device_id ` set (picked x request t)) (ranked x request t)) = set (picked x request t)"
    using inj picked_candidates [of x request t] by (auto simp: inj_on_def)
  ultimately show ?thesis by (intro set_eq_iff_mset_eq_distinct [THEN iffD1]) simp_all
qed

text \<open>
  C39. An explanation describes the decision that placement makes: it carries that decision, lists exactly the
  candidates of the decision in the order in which they were considered, marks exactly the chosen ones as
  selected, and accounts for every device of the topology once, as a candidate or with the reason for its
  exclusion.
\<close>

theorem explanation_describes_the_decision:
  assumes "explain x l request t = Inr e" "distinct (device_ids (ct_nodes t))" "consistent request"
  shows "place x l request t = Inr (pe_decision e)
    \<and> map (\<lambda>c. (pc_node_id c, pc_device_id c)) (pe_candidates e) = map (\<lambda>c. (cd_node_id c, cd_device_id c)) (ranked x request t)
    \<and> mset (map (\<lambda>c. (pc_node_id c, pc_device_id c)) (filter pc_selected (pe_candidates e)))
        = mset (map (\<lambda>p. (pt_node_id p, pt_device_id p)) (pl_targets (pe_decision e)))
    \<and> mset (map (\<lambda>c. (pc_node_id c, pc_device_id c)) (pe_candidates e))
        + mset (map (\<lambda>c. (px_node_id c, px_device_id c)) (pe_excluded e)) = mset (devices_of (ct_nodes t))"
proof -
  obtain plan where plan: "place x l request t = Inr plan" "pe_decision e = plan"
    using assms(1) by (auto simp: explain_def rbind_Inr Let_def explain_nodes_eq [OF assms(3)])
  let ?s = "btree_set (map pt_device_id (pl_targets plan))"
  have ranks: "(\<lambda>c. explained_rank (candidate_explanation ?s c)) = rank"
    by (intro ext) (simp add: explained_rank_def rank_def candidate_explanation_def)
  have cands: "pe_candidates e = map (candidate_explanation ?s) (ranked x request t)"
    and excl: "mset (pe_excluded e) = mset (concat (map (rejected request t) (ct_nodes t)))"
    using assms(1) plan(1) by (auto simp: explain_def explain_nodes_eq [OF assms(3)] sort_key_map ranks ranked_def all_candidates_def)
  have ids: "pt_device_id ` set (pl_targets plan) = cd_device_id ` set (picked x request t)"
    using placed(1) [OF plan(1)] by (simp add: image_image)
  have pairs: "(\<lambda>c. (pc_node_id (candidate_explanation ?s c), pc_device_id (candidate_explanation ?s c))) = (\<lambda>c. (cd_node_id c, cd_device_id c))"
    by (simp add: candidate_explanation_def)
  have sel: "(\<lambda>c. pc_selected (candidate_explanation ?s c)) = (\<lambda>c. cd_device_id c \<in> cd_device_id ` set (picked x request t))"
    by (simp add: candidate_explanation_def ids)
  have order: "map (\<lambda>c. (pc_node_id c, pc_device_id c)) (pe_candidates e) = map (\<lambda>c. (cd_node_id c, cd_device_id c)) (ranked x request t)"
    by (simp add: cands comp_def pairs)
  have chosen: "mset (map (\<lambda>c. (pc_node_id c, pc_device_id c)) (filter pc_selected (pe_candidates e)))
      = mset (map (\<lambda>p. (pt_node_id p, pt_device_id p)) (pl_targets plan))"
  proof -
    let ?f = "\<lambda>c. (cd_node_id c, cd_device_id c)"
    have "map (\<lambda>c. (pc_node_id c, pc_device_id c)) (filter pc_selected (pe_candidates e))
        = map ?f (filter (\<lambda>c. cd_device_id c \<in> cd_device_id ` set (picked x request t)) (ranked x request t))"
      by (simp add: cands filter_map comp_def pairs sel)
    then have "mset (map (\<lambda>c. (pc_node_id c, pc_device_id c)) (filter pc_selected (pe_candidates e)))
        = image_mset ?f (mset (picked x request t))"
      using selected_are_picked [OF assms(2), of x request] by simp
    then show ?thesis using placed(1) [OF plan(1)] by (simp add: image_mset.compositionality comp_def)
  qed
  have "mset (ranked x request t) = mset (concat (map (candidates_of x request t) (ct_nodes t)))"
    by (simp add: ranked_def all_candidates_def)
  then have all: "mset (map (\<lambda>c. (pc_node_id c, pc_device_id c)) (pe_candidates e))
        + mset (map (\<lambda>c. (px_node_id c, px_device_id c)) (pe_excluded e)) = mset (devices_of (ct_nodes t))"
    using devices_partitioned [OF assms(3), of x t "ct_nodes t"] excl by (simp add: order)
  show ?thesis using plan order chosen all by simp
qed

theorem explanation_describes_the_decision_witness:
  "\<exists>e. explain sample_px None (sample_request 2) (sample_topology False [1, 2]) = Inr e \<and> pe_decision e = sample_plan None
     \<and> mset (map (\<lambda>c. (pc_node_id c, pc_device_id c)) (pe_candidates e))
       + mset (map (\<lambda>c. (px_node_id c, px_device_id c)) (pe_excluded e)) = {#(1, 1), (2, 2)#}"
proof -
  have "consistent (sample_request 2)" by (simp add: consistent_def sample_request_def placement_request_new_def)
  then obtain e where e: "explain sample_px None (sample_request 2) (sample_topology False [1, 2]) = Inr e"
    by (auto simp: explain_def sample_place Let_def explain_nodes_eq)
  with \<open>consistent (sample_request 2)\<close> have "place sample_px None (sample_request 2) (sample_topology False [1, 2]) = Inr (pe_decision e)
     \<and> mset (map (\<lambda>c. (pc_node_id c, pc_device_id c)) (pe_candidates e))
       + mset (map (\<lambda>c. (px_node_id c, px_device_id c)) (pe_excluded e)) = mset (devices_of (ct_nodes (sample_topology False [1, 2])))"
    using explanation_describes_the_decision [OF e sample_ids(1)] by blast
  moreover have "devices_of (ct_nodes (sample_topology False [1, 2])) = [(1, 1), (2, 2)]"
    by (simp add: devices_of_def sample_topology_def sample_node_def node_joining_def legacy_directory_def legacy_id_def)
  ultimately show ?thesis using e by (simp add: sample_place)
qed

end
