(* ===== verification/Cluster_Records.thy ===== *)
theory Cluster_Records
  imports Cluster_Topology Keys "HOL-Library.Product_Lexorder"
begin

text \<open>
  The records of the replicated cluster state and the operations on a single record
  (\<^verbatim>\<open>crates/record-store-cluster/src/{replica,tasks,credentials,command}.rs\<close>): replicas and placements,
  tombstones, movement tasks, long-running operations, join tokens and node credentials, the commands and their
  outcomes.

  The byte encodings of records are not modelled. An instant is unbounded: the code panics where a lease would
  end after the last instant of the calendar.
\<close>

section \<open>Replicas and placements\<close>

datatype ReplicaState =
    ReplicaPending | ReplicaHealthy | ReplicaRepairing | ReplicaStale | ReplicaMissing | ReplicaDeleting | ReplicaCorrupt

definition replica_durable :: "ReplicaState \<Rightarrow> bool" where
  "replica_durable s \<longleftrightarrow> s = ReplicaHealthy"

definition needs_repair :: "ReplicaState \<Rightarrow> bool" where
  "needs_repair s \<longleftrightarrow> s \<in> {ReplicaMissing, ReplicaCorrupt, ReplicaStale}"

record Replica =
  re_node_id :: NodeId
  re_device_id :: DeviceId
  re_state :: ReplicaState
  re_location :: str
  re_size :: u64
  re_checksum :: "Checksum option"
  re_created_at :: datetime
  re_verified_at :: "datetime option"
  re_generation :: u64

record PayloadPlacement =
  pp_object_id :: ObjectId
  pp_size :: u64
  pp_checksum :: Checksum
  pp_desired_replicas :: u8
  pp_storage_class :: StorageClass
  pp_epoch :: u64
  pp_replicas :: "Replica list"
  pp_created_at :: datetime
  pp_updated_at :: datetime

definition on_target :: "NodeId \<Rightarrow> DeviceId \<Rightarrow> Replica \<Rightarrow> bool" where
  "on_target node_id device_id r \<longleftrightarrow> re_node_id r = node_id \<and> re_device_id r = device_id"

text \<open>Writing through the first element that \<open>iter_mut().find\<close> returns.\<close>

fun update_first :: "('a \<Rightarrow> bool) \<Rightarrow> ('a \<Rightarrow> 'a) \<Rightarrow> 'a list \<Rightarrow> 'a list" where
  "update_first P f [] = []"
| "update_first P f (x # xs) = (if P x then f x # xs else x # update_first P f xs)"

definition upsert_replica :: "Replica \<Rightarrow> datetime \<Rightarrow> PayloadPlacement \<Rightarrow> PayloadPlacement" where
  "upsert_replica r now p =
     p\<lparr>pp_replicas :=
         (if find (on_target (re_node_id r) (re_device_id r)) (pp_replicas p) \<noteq> None
          then update_first (on_target (re_node_id r) (re_device_id r)) (\<lambda>_. r) (pp_replicas p)
          else sort_key (\<lambda>r. (re_node_id r, re_device_id r)) (pp_replicas p @ [r])),
       pp_updated_at := now\<rparr>"

definition remove_replica :: "NodeId \<Rightarrow> datetime \<Rightarrow> PayloadPlacement \<Rightarrow> bool \<times> PayloadPlacement" where
  "remove_replica node_id now p =
     (let kept = filter (\<lambda>r. re_node_id r \<noteq> node_id) (pp_replicas p);
          removed = (length kept \<noteq> length (pp_replicas p));
          p = p\<lparr>pp_replicas := kept\<rparr>
      in (removed, if removed then p\<lparr>pp_updated_at := now\<rparr> else p))"

definition remove_replica_on :: "NodeId \<Rightarrow> DeviceId \<Rightarrow> datetime \<Rightarrow> PayloadPlacement \<Rightarrow> bool \<times> PayloadPlacement" where
  "remove_replica_on node_id device_id now p =
     (let kept = filter (\<lambda>r. re_node_id r \<noteq> node_id \<or> re_device_id r \<noteq> device_id) (pp_replicas p);
          removed = (length kept \<noteq> length (pp_replicas p));
          p = p\<lparr>pp_replicas := kept\<rparr>
      in (removed, if removed then p\<lparr>pp_updated_at := now\<rparr> else p))"

record Durability =
  du_desired :: u32
  du_current :: u32
  du_healthy :: u32
  du_readable :: u32
  du_unavailable :: u32
  du_damaged :: u32

definition bump :: "bool \<Rightarrow> u32 \<Rightarrow> u32" where
  "bump b n = (if b then saturating_add n 1 else n)"

fun count_durability :: "ClusterTopology \<Rightarrow> Replica list \<Rightarrow> Durability \<Rightarrow> Durability" where
  "count_durability t [] d = d"
| "count_durability t (r # rs) d =
     (let counts = device_contributes_durability t (re_node_id r) (re_device_id r)
      in count_durability t rs
        (d\<lparr>du_current := saturating_add (du_current d) 1,
           du_healthy := bump (replica_durable (re_state r) \<and> counts) (du_healthy d),
           du_readable := bump (replica_durable (re_state r) \<and> topology_serves_reads t (re_node_id r)
             \<and> (case topology_device t (re_device_id r) of
                  None \<Rightarrow> False | Some (n, dev) \<Rightarrow> health_contributes_durability (dv_health dev))) (du_readable d),
           du_unavailable := bump (\<not> counts) (du_unavailable d),
           du_damaged := bump (counts \<and> needs_repair (re_state r)) (du_damaged d)\<rparr>))"

definition durability :: "PayloadPlacement \<Rightarrow> ClusterTopology \<Rightarrow> Durability" where
  "durability p t =
     count_durability t (pp_replicas p)
       \<lparr>du_desired = ucast (pp_desired_replicas p), du_current = 0, du_healthy = 0, du_readable = 0, du_unavailable = 0,
        du_damaged = 0\<rparr>"

definition under_replicated :: "Durability \<Rightarrow> bool" where
  "under_replicated d \<longleftrightarrow> du_healthy d < du_desired d"

definition durability_unavailable :: "Durability \<Rightarrow> bool" where
  "durability_unavailable d \<longleftrightarrow> du_healthy d = 0"

record Tombstone =
  ts_object_id :: ObjectId
  ts_created_at :: datetime
  ts_pending_nodes :: "NodeId list"
  ts_completed_nodes :: "NodeId list"
  ts_completed_at :: "datetime option"

text \<open>The two node sets are kept as lists without order.\<close>

definition tombstone_new :: "ObjectId \<Rightarrow> NodeId list \<Rightarrow> datetime \<Rightarrow> Tombstone" where
  "tombstone_new object_id nodes now =
     \<lparr>ts_object_id = object_id, ts_created_at = now, ts_pending_nodes = nodes, ts_completed_nodes = [],
      ts_completed_at = (if nodes = [] then Some now else None)\<rparr>"

definition acknowledge :: "NodeId \<Rightarrow> datetime \<Rightarrow> Tombstone \<Rightarrow> Tombstone" where
  "acknowledge node_id now t =
     (let pending = filter (\<lambda>n. n \<noteq> node_id) (ts_pending_nodes t)
      in t\<lparr>ts_pending_nodes := pending,
           ts_completed_nodes := List.insert node_id (ts_completed_nodes t),
           ts_completed_at := (if pending = [] \<and> ts_completed_at t = None then Some now else ts_completed_at t)\<rparr>)"

section \<open>Movement tasks\<close>

datatype ReplicaTaskKind =
    TaskRepair | TaskRepairCorrupt | TaskDrain | TaskDeviceFailed | TaskRebalance | TaskRebalanceDomain | TaskDelete

datatype ReplicaTaskPriority =
    PriorityUnavailable | PriorityCritical | PriorityHigh | PriorityNormal | PriorityLow

fun priority_rank :: "ReplicaTaskPriority \<Rightarrow> u8" where
  "priority_rank PriorityUnavailable = 0"
| "priority_rank PriorityCritical = 1"
| "priority_rank PriorityHigh = 2"
| "priority_rank PriorityNormal = 3"
| "priority_rank PriorityLow = 4"

datatype ReplicaTaskState =
    TaskQueued
  | TaskRunning NodeId datetime datetime
  | TaskCompleted datetime
  | TaskParked datetime str
  | TaskCancelled datetime str

fun task_active :: "ReplicaTaskState \<Rightarrow> bool" where
  "task_active TaskQueued = True"
| "task_active (TaskRunning n s e) = True"
| "task_active _ = False"

record ReplicaTask =
  rt_id :: uuid
  rt_object_id :: ObjectId
  rt_kind :: ReplicaTaskKind
  rt_priority :: ReplicaTaskPriority
  rt_source_node :: "NodeId option"
  rt_source_device :: "DeviceId option"
  rt_target_node :: "NodeId option"
  rt_target_device :: "DeviceId option"
  rt_operation_id :: "uuid option"
  rt_size :: u64
  rt_fence :: u64
  rt_state :: ReplicaTaskState
  rt_attempts :: u32
  rt_last_error :: "str option"
  rt_created_at :: datetime
  rt_updated_at :: datetime

definition task_queued :: "uuid \<Rightarrow> ObjectId \<Rightarrow> ReplicaTaskKind \<Rightarrow> ReplicaTaskPriority \<Rightarrow> u64 \<Rightarrow> datetime \<Rightarrow> ReplicaTask" where
  "task_queued fresh object_id kind priority sz now =
     \<lparr>rt_id = fresh, rt_object_id = object_id, rt_kind = kind, rt_priority = priority, rt_source_node = None,
      rt_source_device = None, rt_target_node = None, rt_target_device = None, rt_operation_id = None, rt_size = sz,
      rt_fence = 0, rt_state = TaskQueued, rt_attempts = 0, rt_last_error = None, rt_created_at = now, rt_updated_at = now\<rparr>"

text \<open>\<open>i64::try_from(seconds).unwrap_or(600)\<close> and \<open>TimeDelta::try_seconds\<close>, in nanoseconds.\<close>

definition lease_nanos :: "u64 \<Rightarrow> int" where
  "lease_nanos seconds =
     (let s = (if uint seconds < 2 ^ 63 then uint seconds else 600)
      in if s \<le> (2 ^ 63 - 1) div 1000 then s * 1000000000 else 0)"

definition claim :: "NodeId \<Rightarrow> u64 \<Rightarrow> datetime \<Rightarrow> ReplicaTask \<Rightarrow> ReplicaTask" where
  "claim node_id lease_seconds now t =
     t\<lparr>rt_fence := saturating_add (rt_fence t) 1,
       rt_state := TaskRunning node_id now (now + lease_nanos lease_seconds), rt_updated_at := now\<rparr>"

definition holds_claim :: "ReplicaTask \<Rightarrow> NodeId \<Rightarrow> u64 \<Rightarrow> bool" where
  "holds_claim t node_id fence \<longleftrightarrow>
     rt_fence t = fence \<and> fence \<noteq> 0
     \<and> (case rt_state t of TaskRunning owner s e \<Rightarrow> owner = node_id | _ \<Rightarrow> False)"

definition task_requeue :: "str option \<Rightarrow> datetime \<Rightarrow> ReplicaTask \<Rightarrow> ReplicaTask" where
  "task_requeue reason now t =
     t\<lparr>rt_state := TaskQueued, rt_last_error := (if reason \<noteq> None then reason else rt_last_error t), rt_updated_at := now\<rparr>"

definition task_fail :: "str \<Rightarrow> u32 \<Rightarrow> datetime \<Rightarrow> ReplicaTask \<Rightarrow> ReplicaTask" where
  "task_fail reason maximum_attempts now t =
     (let attempts = saturating_add (rt_attempts t) 1
      in t\<lparr>rt_attempts := attempts, rt_last_error := Some reason, rt_updated_at := now,
           rt_state := (if attempts \<ge> maximum_attempts then TaskParked now reason else TaskQueued)\<rparr>)"

definition task_complete :: "datetime \<Rightarrow> ReplicaTask \<Rightarrow> ReplicaTask" where
  "task_complete now t = t\<lparr>rt_state := TaskCompleted now, rt_updated_at := now\<rparr>"

definition task_cancel :: "str \<Rightarrow> datetime \<Rightarrow> ReplicaTask \<Rightarrow> ReplicaTask" where
  "task_cancel reason now t = t\<lparr>rt_state := TaskCancelled now reason, rt_updated_at := now\<rparr>"

section \<open>Operations, tokens and credentials\<close>

datatype ClusterOperationKind = OperationDrain | OperationRebalance | OperationDecommission

datatype ClusterOperationState =
    OperationPlanning | OperationMoving | OperationVerifying | OperationPaused | OperationCompleted | OperationCancelled
  | OperationFailed

definition operation_active :: "ClusterOperationState \<Rightarrow> bool" where
  "operation_active s \<longleftrightarrow> s \<in> {OperationPlanning, OperationMoving, OperationVerifying, OperationPaused}"

record OperationProgress =
  op_objects_remaining :: u64
  op_bytes_remaining :: u64
  op_objects_moved :: u64
  op_bytes_moved :: u64
  op_replicas_moving :: u32
  op_tasks_parked :: u32

record ClusterOperation =
  co_id :: uuid
  co_kind :: ClusterOperationKind
  co_node_id :: "NodeId option"
  co_state :: ClusterOperationState
  co_progress :: OperationProgress
  co_started_at :: datetime
  co_updated_at :: datetime
  co_completed_at :: "datetime option"
  co_message :: "str option"

record NodeCredential =
  cr_id :: uuid
  cr_node_id :: NodeId
  cr_secret_digest :: bytes
  cr_created_at :: datetime
  cr_rotated_at :: "datetime option"
  cr_disabled :: bool

record JoinToken =
  jt_id :: uuid
  jt_token_digest :: bytes
  jt_created_at :: datetime
  jt_expires_at :: datetime
  jt_maximum_uses :: u32
  jt_uses :: u32
  jt_revoked :: bool
  jt_description :: str

definition token_consume :: "JoinToken \<Rightarrow> JoinToken" where
  "token_consume t = t\<lparr>jt_uses := saturating_add (jt_uses t) 1\<rparr>"

definition token_spent :: "JoinToken \<Rightarrow> datetime \<Rightarrow> bool" where
  "token_spent t now \<longleftrightarrow> jt_revoked t \<or> jt_uses t \<ge> jt_maximum_uses t \<or> now \<ge> jt_expires_at t"

section \<open>Commands and outcomes\<close>

record ClusterIdentity =
  ci_cluster_id :: ClusterId
  ci_cluster_format_version :: u32
  ci_created_at :: datetime
  ci_recovery_generation :: u32
  ci_recovery_id :: "uuid option"
  ci_recovered_at :: "datetime option"

datatype (plugins only: code) ClusterCommand =
    InitializeCluster ClusterIdentity ClusterConfig
  | RecordRecovery uuid str datetime
  | UpdateConfig ClusterConfig datetime
  | RegisterNode NodeRegistration datetime
  | Heartbeat NodeId NodeCapacity NodeActivity datetime
  | UpdateNodeDescriptor NodeId str "str option" "str option" NodeVersions StorageClass FailureDomain datetime datetime
  | SetNodeState NodeId NodeState "str option" datetime
  | RegisterDevice NodeId DeviceRecord datetime
  | PutStoragePolicy StoragePolicy datetime
  | DeleteStoragePolicy StorageClass datetime
  | SetDeviceState NodeId DeviceId DeviceState datetime
  | SetNodeMetadataVoter NodeId bool datetime
  | ForgetNode NodeId
  | PutPlacement PayloadPlacement
  | UpsertReplica ObjectId Replica datetime
  | SetReplicaState ObjectId NodeId ReplicaState "Checksum option" bool datetime
  | SetReplicaStateOnDevice ObjectId NodeId DeviceId ReplicaState "Checksum option" bool datetime
  | RemoveReplica ObjectId NodeId datetime
  | RemoveReplicaFromDevice ObjectId NodeId DeviceId datetime
  | SetDesiredReplicas ObjectId u8 datetime
  | DeletePlacement ObjectId datetime
  | AcknowledgeTombstone ObjectId NodeId datetime
  | PurgeTombstone ObjectId
  | EnqueueTask ReplicaTask
  | ClaimTask uuid NodeId u64 datetime
  | CompleteTask uuid "NodeId option" u64 datetime
  | FailTask uuid "NodeId option" u64 str u32 datetime
  | RequeueTask uuid "str option" datetime
  | CancelTask uuid str datetime
  | PurgeTask uuid
  | StartOperation ClusterOperation
  | UpdateOperation uuid ClusterOperationState OperationProgress "str option" datetime
  | IssueJoinToken JoinToken
  | ConsumeJoinToken uuid datetime
  | RevokeJoinToken uuid datetime
  | PurgeJoinToken uuid
  | PutNodeCredential NodeCredential
  | SetNodeCredentialDisabled NodeId bool datetime

datatype ClusterOutcome =
    OutcomeNone
  | OutcomeNode NodeRecord
  | OutcomeDevice DeviceRecord
  | OutcomePolicy StoragePolicy
  | OutcomeRegistration NodeRecord RaftNodeId bool
  | OutcomePlacement PayloadPlacement
  | OutcomeTask ReplicaTask
  | OutcomeOperation ClusterOperation
  | OutcomeConfig ClusterConfig
  | OutcomeIdentity ClusterIdentity
  | OutcomeChanged bool

end
