(* ===== verification/Cluster_Catalog.thy ===== *)
theory Cluster_Catalog
  imports Cluster_Records
begin

text \<open>
  The replicated cluster catalog and its commands
  (\<^verbatim>\<open>crates/record-store-cluster/src/catalog/{schema,keys,codec,error,commands}.rs\<close>). The catalog is one record with
  a field per table; a table keyed by one identifier is keyed by that identifier, the composite keys are the bytes
  the code builds. A command takes the catalog and returns an error or its outcome and the new catalog; an error
  abandons the transaction. Failures of the storage engine abandon it as well and are not modelled.
\<close>

section \<open>State\<close>

text \<open>The names of the counters. A counter that was never written reads as zero.\<close>

datatype cluster_counter =
    NextMemberId | PlacementCount | LogicalBytes | PhysicalBytes | TombstoneCount | ActiveTasks | ParkedTasks
  | UnderReplicated | UnavailablePayloads | ClusterMapEpoch

record cluster =
  cl_identity :: "ClusterIdentity option"
  cl_config :: "ClusterConfig option"
  cl_nodes :: "(NodeId, NodeRecord) table"
  cl_node_by_member :: "(u64, NodeId) table"
  cl_counters :: "cluster_counter \<Rightarrow> u64"
  cl_placements :: "(ObjectId, PayloadPlacement) table"
  cl_node_replicas :: "(bytes, u8) table"
  cl_tombstones :: "(ObjectId, Tombstone) table"
  cl_tasks :: "(uuid, ReplicaTask) table"
  cl_task_queue :: "(bytes, uuid) table"
  cl_task_by_object :: "(bytes, uuid) table"
  cl_operations :: "(uuid, ClusterOperation) table"
  cl_join_tokens :: "(uuid, JoinToken) table"
  cl_node_credentials :: "(NodeId, NodeCredential) table"
  cl_storage_policies :: "(StorageClass, StoragePolicy) table"

definition empty_cluster :: cluster where
  "empty_cluster = \<lparr>cl_identity = None, cl_config = None, cl_nodes = t_empty, cl_node_by_member = t_empty,
     cl_counters = (\<lambda>_. 0), cl_placements = t_empty, cl_node_replicas = t_empty, cl_tombstones = t_empty,
     cl_tasks = t_empty, cl_task_queue = t_empty, cl_task_by_object = t_empty, cl_operations = t_empty,
     cl_join_tokens = t_empty, cl_node_credentials = t_empty, cl_storage_policies = t_empty\<rparr>"

datatype ClusterCatalogError =
    NotInitialized
  | AlreadyInitialized ClusterId
  | NodeNotFound NodeId
  | DeviceNotFound NodeId DeviceId
  | PlacementNotFound ObjectId
  | ReplicaNotFound ObjectId NodeId
  | TombstoneNotFound ObjectId
  | TaskNotFound uuid
  | OperationNotFound uuid
  | JoinTokenNotFound uuid
  | CredentialNotFound NodeId
  | TopologyFailure TopologyError
  | DeviceFailure DeviceError
  | Configuration ClusterConfigError
  | PolicyRefused StoragePolicyError
  | DatabaseRefused str str

type_synonym 'a cluster_result = "(ClusterCatalogError, 'a \<times> cluster) result"

section \<open>Keys\<close>

fun task_kind_code :: "ReplicaTaskKind \<Rightarrow> u8" where
  "task_kind_code TaskRepair = 0"
| "task_kind_code TaskRepairCorrupt = 1"
| "task_kind_code TaskDrain = 2"
| "task_kind_code TaskRebalance = 3"
| "task_kind_code TaskRebalanceDomain = 4"
| "task_kind_code TaskDelete = 5"
| "task_kind_code TaskDeviceFailed = 6"

fun replica_state_code :: "ReplicaState \<Rightarrow> u8" where
  "replica_state_code ReplicaPending = 0"
| "replica_state_code ReplicaHealthy = 1"
| "replica_state_code ReplicaRepairing = 2"
| "replica_state_code ReplicaStale = 3"
| "replica_state_code ReplicaMissing = 4"
| "replica_state_code ReplicaDeleting = 5"
| "replica_state_code ReplicaCorrupt = 6"

definition ordered_timestamp :: "datetime \<Rightarrow> bytes" where
  "ordered_timestamp v = be_bytes 8 (unat (xor (word_of_int (v div 1000000) :: u64) (2 ^ 63)))"

definition task_queue_key :: "ReplicaTask \<Rightarrow> bytes" where
  "task_queue_key t = priority_rank (rt_priority t) # ordered_timestamp (rt_created_at t) @ uuid_bytes (rt_id t)"

definition task_object_key :: "ObjectId \<Rightarrow> ReplicaTaskKind \<Rightarrow> bytes" where
  "task_object_key object_id kind = uuid_bytes object_id @ [task_kind_code kind]"

definition node_replica_key :: "NodeId \<Rightarrow> ObjectId \<Rightarrow> DeviceId \<Rightarrow> bytes" where
  "node_replica_key node_id object_id device_id = uuid_bytes node_id @ uuid_bytes object_id @ uuid_bytes device_id"

section \<open>Counters and required records\<close>

definition set_cluster_counter :: "cluster_counter \<Rightarrow> u64 \<Rightarrow> cluster \<Rightarrow> cluster" where
  "set_cluster_counter k v s = s\<lparr>cl_counters := (cl_counters s)(k := v)\<rparr>"

definition adjust_cluster_counter :: "cluster_counter \<Rightarrow> int \<Rightarrow> cluster \<Rightarrow> cluster" where
  "adjust_cluster_counter k delta s =
     (let v = max (uint (cl_counters s k) + delta) 0
      in set_cluster_counter k (if v < 2 ^ 64 then word_of_int v else - 1) s)"

definition require_node :: "cluster \<Rightarrow> NodeId \<Rightarrow> (ClusterCatalogError, NodeRecord) result" where
  "require_node s node_id = ok_or (t_get (cl_nodes s) node_id) (NodeNotFound node_id)"

definition require_placement :: "cluster \<Rightarrow> ObjectId \<Rightarrow> (ClusterCatalogError, PayloadPlacement) result" where
  "require_placement s object_id = ok_or (t_get (cl_placements s) object_id) (PlacementNotFound object_id)"

definition require_task :: "cluster \<Rightarrow> uuid \<Rightarrow> (ClusterCatalogError, ReplicaTask) result" where
  "require_task s task_id = ok_or (t_get (cl_tasks s) task_id) (TaskNotFound task_id)"

definition require_config :: "cluster \<Rightarrow> (ClusterCatalogError, ClusterConfig) result" where
  "require_config s = ok_or (cl_config s) NotInitialized"

definition read_nodes :: "cluster \<Rightarrow> NodeRecord list" where
  "read_nodes s = map snd (t_iter (cl_nodes s))"

definition count_voters :: "cluster \<Rightarrow> u32" where
  "count_voters s =
     (let n = length (filter (\<lambda>n. nr_metadata_voter n \<and> \<not> node_is_terminal (nr_state n)) (read_nodes s))
      in if n < 2 ^ 32 then of_nat n else - 1)"

definition next_member_id :: "cluster \<Rightarrow> RaftNodeId \<times> cluster" where
  "next_member_id s =
     (let current = max (cl_counters s NextMemberId) 1
      in (current, set_cluster_counter NextMemberId (saturating_add current 1) s))"

definition put_node :: "NodeId \<Rightarrow> NodeRecord \<Rightarrow> cluster \<Rightarrow> cluster" where
  "put_node node_id n s = s\<lparr>cl_nodes := t_insert node_id n (cl_nodes s)\<rparr>"

definition put_task :: "uuid \<Rightarrow> ReplicaTask \<Rightarrow> cluster \<Rightarrow> cluster" where
  "put_task task_id t s = s\<lparr>cl_tasks := t_insert task_id t (cl_tasks s)\<rparr>"

section \<open>Helpers of the commands\<close>

definition advance_cluster_map_epoch :: "cluster \<Rightarrow> cluster" where
  "advance_cluster_map_epoch s =
     set_cluster_counter ClusterMapEpoch (saturating_add (max (cl_counters s ClusterMapEpoch) 1) 1) s"

definition occupies_space :: "ReplicaState \<Rightarrow> bool" where
  "occupies_space st \<longleftrightarrow> st \<in> {ReplicaHealthy, ReplicaPending, ReplicaRepairing, ReplicaStale, ReplicaCorrupt}"

fun sum_sizes :: "u64 \<Rightarrow> Replica list \<Rightarrow> u64" where
  "sum_sizes acc [] = acc"
| "sum_sizes acc (r # rs) = sum_sizes (saturating_add acc (re_size r)) rs"

definition physical_bytes :: "PayloadPlacement \<Rightarrow> u64" where
  "physical_bytes p = sum_sizes 0 (filter (\<lambda>r. occupies_space (re_state r)) (pp_replicas p))"

fun index_replicas :: "ObjectId \<Rightarrow> (Replica \<Rightarrow> u8) \<Rightarrow> Replica list \<Rightarrow> (bytes, u8) table \<Rightarrow> (bytes, u8) table" where
  "index_replicas object_id code [] t = t"
| "index_replicas object_id code (r # rs) t =
     index_replicas object_id code rs (t_insert (node_replica_key (re_node_id r) object_id (re_device_id r)) (code r) t)"

definition write_placement :: "PayloadPlacement \<Rightarrow> u64 \<Rightarrow> cluster \<Rightarrow> cluster" where
  "write_placement p physical_before s =
     (let s = adjust_cluster_counter PhysicalBytes (uint (physical_bytes p) - uint physical_before) s;
          s = s\<lparr>cl_placements := t_insert (pp_object_id p) p (cl_placements s)\<rparr>
      in s\<lparr>cl_node_replicas := index_replicas (pp_object_id p) (\<lambda>r. replica_state_code (re_state r)) (pp_replicas p) (cl_node_replicas s)\<rparr>)"

text \<open>The saturating counts of \<open>recount_durability\<close>.\<close>

fun count_payloads :: "(PayloadPlacement \<Rightarrow> bool) \<Rightarrow> PayloadPlacement list \<Rightarrow> u64 \<Rightarrow> u64" where
  "count_payloads P [] n = n"
| "count_payloads P (p # ps) n = count_payloads P ps (if P p then saturating_add n 1 else n)"

definition recount_durability :: "cluster \<Rightarrow> (ClusterCatalogError, cluster) result" where
  "recount_durability s =
     (case cl_identity s of
        None \<Rightarrow> Inr s
      | Some identity \<Rightarrow>
          rbind (require_config s) (\<lambda>config.
          let topology = topology_new (ci_cluster_id identity) config (read_nodes s);
              payloads = map snd (t_iter (cl_placements s));
              s = set_cluster_counter UnderReplicated (count_payloads (\<lambda>p. under_replicated (durability p topology)) payloads 0) s
          in Inr (set_cluster_counter UnavailablePayloads
                   (count_payloads (\<lambda>p. durability_unavailable (durability p topology)) payloads 0) s)))"

definition insert_task_queue_entry :: "ReplicaTask \<Rightarrow> cluster \<Rightarrow> cluster" where
  "insert_task_queue_entry t s =
     (if \<not> task_active (rt_state t) then s
      else s\<lparr>cl_task_queue := t_insert (task_queue_key t) (rt_id t) (cl_task_queue s)\<rparr>)"

definition remove_task_queue_entry :: "ReplicaTask \<Rightarrow> cluster \<Rightarrow> cluster" where
  "remove_task_queue_entry t s = s\<lparr>cl_task_queue := t_remove (task_queue_key t) (cl_task_queue s)\<rparr>"

definition remove_task_object_entry :: "ReplicaTask \<Rightarrow> cluster \<Rightarrow> cluster" where
  "remove_task_object_entry t s =
     (let key = task_object_key (rt_object_id t) (rt_kind t)
      in if t_get (cl_task_by_object s) key = Some (rt_id t)
         then s\<lparr>cl_task_by_object := t_remove key (cl_task_by_object s)\<rparr> else s)"

definition remove_node_replica :: "NodeId \<Rightarrow> ObjectId \<Rightarrow> cluster \<Rightarrow> cluster" where
  "remove_node_replica node_id object_id s =
     (let p = uuid_bytes node_id @ uuid_bytes object_id;
          keys = map fst (t_range (cl_node_replicas s) p (prefix_successor p))
      in s\<lparr>cl_node_replicas := t_remove_all keys (cl_node_replicas s)\<rparr>)"

definition remove_device_replica :: "NodeId \<Rightarrow> DeviceId \<Rightarrow> ObjectId \<Rightarrow> cluster \<Rightarrow> cluster" where
  "remove_device_replica node_id device_id object_id s =
     s\<lparr>cl_node_replicas := t_remove (node_replica_key node_id object_id device_id) (cl_node_replicas s)\<rparr>"

definition node_replica_entries :: "NodeId \<Rightarrow> cluster \<Rightarrow> (bytes \<times> u8) list" where
  "node_replica_entries node_id s =
     t_range (cl_node_replicas s) (uuid_bytes node_id) (prefix_successor (uuid_bytes node_id))"

text \<open>The two counts saturate; only whether they are zero is ever asked.\<close>

definition device_replica_count :: "NodeId \<Rightarrow> DeviceId \<Rightarrow> cluster \<Rightarrow> nat" where
  "device_replica_count node_id device_id s =
     min (length (filter (\<lambda>e. length (fst e) = 48 \<and> take 16 (drop 32 (fst e)) = uuid_bytes device_id) (node_replica_entries node_id s)))
       (2 ^ 64 - 1)"

definition node_replica_count :: "NodeId \<Rightarrow> cluster \<Rightarrow> nat" where
  "node_replica_count node_id s = min (length (node_replica_entries node_id s)) (2 ^ 64 - 1)"

section \<open>Membership commands\<close>

definition initialize_cluster :: "ClusterIdentity \<Rightarrow> ClusterConfig \<Rightarrow> cluster \<Rightarrow> ClusterOutcome cluster_result" where
  "initialize_cluster identity config s =
     rbind (map_err Configuration (config_validate config)) (\<lambda>_.
     case cl_identity s of
       Some existing \<Rightarrow>
         if ci_cluster_id existing = ci_cluster_id identity then Inr (OutcomeIdentity existing, s)
         else Inl (AlreadyInitialized (ci_cluster_id existing))
     | None \<Rightarrow>
         let s = s\<lparr>cl_identity := Some identity, cl_config := Some config\<rparr>;
             s = set_cluster_counter NextMemberId 1 s
         in Inr (OutcomeIdentity identity, set_cluster_counter ClusterMapEpoch 1 s))"

definition record_recovery :: "uuid \<Rightarrow> datetime \<Rightarrow> cluster \<Rightarrow> ClusterOutcome cluster_result" where
  "record_recovery recovery_id at s =
     rbind (ok_or (cl_identity s) NotInitialized) (\<lambda>identity.
     let identity = identity\<lparr>ci_recovery_generation := saturating_add (ci_recovery_generation identity) 1,
           ci_recovery_id := Some recovery_id, ci_recovered_at := Some at\<rparr>
     in Inr (OutcomeIdentity identity, advance_cluster_map_epoch (s\<lparr>cl_identity := Some identity\<rparr>)))"

definition update_config :: "ClusterConfig \<Rightarrow> cluster \<Rightarrow> ClusterOutcome cluster_result" where
  "update_config config s =
     rbind (map_err Configuration (config_validate config)) (\<lambda>_.
     Inr (OutcomeConfig config, advance_cluster_map_epoch (s\<lparr>cl_config := Some config\<rparr>)))"

definition redeclare :: "NodeRegistration \<Rightarrow> datetime \<Rightarrow> NodeRecord \<Rightarrow> NodeRecord" where
  "redeclare r at n =
     n\<lparr>nr_protocol := nv_protocol (rg_versions r), nr_software_version := nv_software (rg_versions r),
       nr_storage_format_version := nv_storage_format (rg_versions r), nr_rpc_address := rg_rpc_address r,
       nr_s3_endpoint := rg_s3_endpoint r, nr_storage_class := rg_storage_class r,
       nr_failure_domain := rg_failure_domain r, nr_capacity := rg_capacity r,
       nr_devices := (if rg_devices r \<noteq> [] then rg_devices r else nr_devices n),
       nr_started_at := rg_started_at r, nr_last_heartbeat_at := Some at\<rparr>"

definition register_node :: "NodeRegistration \<Rightarrow> datetime \<Rightarrow> cluster \<Rightarrow> ClusterOutcome cluster_result" where
  "register_node r at s =
     (case t_get (cl_nodes s) (rg_node_id r) of
        Some n \<Rightarrow>
          let existing = redeclare r at n
          in rbind (if nr_state existing \<in> {NodeOffline, NodeUnreachable, NodeSuspect}
                    then map_err TopologyFailure (node_transition existing NodeJoining (Some (lit ''node restarted'')) at)
                    else Inr (False, existing)) (\<lambda>(changed, existing).
             Inr (OutcomeRegistration existing (nr_raft_id existing) False,
                  advance_cluster_map_epoch (put_node (rg_node_id r) existing s)))
      | None \<Rightarrow>
          let (raft_id, s) = next_member_id s;
              voters = count_voters s
          in rbind (require_config s) (\<lambda>config.
             let voter = (voters < ucast (cfg_metadata_voter_target config));
                 n = node_joining r raft_id voter at;
                 s = advance_cluster_map_epoch (put_node (rg_node_id r) n s)
             in Inr (OutcomeRegistration n raft_id True,
                     s\<lparr>cl_node_by_member := t_insert raft_id (rg_node_id r) (cl_node_by_member s)\<rparr>)))"

definition heartbeat :: "NodeId \<Rightarrow> NodeCapacity \<Rightarrow> NodeActivity \<Rightarrow> datetime \<Rightarrow> cluster \<Rightarrow> ClusterOutcome cluster_result" where
  "heartbeat node_id capacity activity at s =
     rbind (require_node s node_id) (\<lambda>n.
     let n = n\<lparr>nr_capacity := capacity, nr_activity := activity, nr_last_heartbeat_at := Some at\<rparr>
     in Inr (OutcomeNode n, put_node node_id n s))"

definition update_node_descriptor :: "NodeId \<Rightarrow> str \<Rightarrow> str option \<Rightarrow> str option \<Rightarrow> NodeVersions \<Rightarrow> StorageClass \<Rightarrow> FailureDomain
    \<Rightarrow> datetime \<Rightarrow> datetime \<Rightarrow> cluster \<Rightarrow> ClusterOutcome cluster_result" where
  "update_node_descriptor node_id rpc_address s3_endpoint management_endpoint versions cls domain started_at at s =
     rbind (require_node s node_id) (\<lambda>n.
     let n = n\<lparr>nr_rpc_address := rpc_address, nr_s3_endpoint := s3_endpoint, nr_management_endpoint := management_endpoint,
           nr_protocol := nv_protocol versions, nr_software_version := nv_software versions,
           nr_storage_format_version := nv_storage_format versions, nr_storage_class := cls, nr_failure_domain := domain,
           nr_started_at := started_at, nr_last_heartbeat_at := Some at\<rparr>
     in Inr (OutcomeNode n, advance_cluster_map_epoch (put_node node_id n s)))"

definition set_node_state :: "NodeId \<Rightarrow> NodeState \<Rightarrow> str option \<Rightarrow> datetime \<Rightarrow> cluster \<Rightarrow> ClusterOutcome cluster_result" where
  "set_node_state node_id st reason at s =
     rbind (require_node s node_id) (\<lambda>n.
     rbind (map_err TopologyFailure (node_transition n st reason at)) (\<lambda>(changed, n).
     let n = (if st = NodeDecommissioned then n\<lparr>nr_metadata_voter := False\<rparr> else n);
         s = put_node node_id n s
     in rbind (if changed then recount_durability (advance_cluster_map_epoch s) else Inr s) (\<lambda>s.
        Inr (OutcomeNode n, s))))"

definition register_device :: "NodeId \<Rightarrow> DeviceRecord \<Rightarrow> cluster \<Rightarrow> ClusterOutcome cluster_result" where
  "register_device node_id d s =
     rbind (require_node s node_id) (\<lambda>n.
     rbind (ensure (dv_node_id d = node_id) (DeviceFailure (WrongNode (dv_id d) node_id (dv_node_id d)))) (\<lambda>_.
     rbind (map_err DeviceFailure (capacity_validate (dv_capacity d))) (\<lambda>_.
     let n = ensure_legacy_device n;
         d = (case node_device n (dv_id d) of Some existing \<Rightarrow> d\<lparr>dv_state := dv_state existing\<rparr> | None \<Rightarrow> d);
         devices = (if node_device n (dv_id d) \<noteq> None then replace_device (dv_id d) d (nr_devices n) else nr_devices n @ [d]);
         devices = sort_key dv_id devices;
         n = n\<lparr>nr_devices := devices, nr_capacity := capacity_from_devices devices\<rparr>
     in Inr (OutcomeDevice d, advance_cluster_map_epoch (put_node node_id n s)))))"

definition put_storage_policy :: "StoragePolicy \<Rightarrow> cluster \<Rightarrow> ClusterOutcome cluster_result" where
  "put_storage_policy policy s =
     rbind (map_err PolicyRefused (policy_validate policy)) (\<lambda>_.
     Inr (OutcomePolicy policy,
          advance_cluster_map_epoch (s\<lparr>cl_storage_policies := t_insert (sp_class policy) policy (cl_storage_policies s)\<rparr>)))"

definition delete_storage_policy :: "StorageClass \<Rightarrow> cluster \<Rightarrow> ClusterOutcome cluster_result" where
  "delete_storage_policy cls s =
     rbind (ensure (cls \<noteq> default_storage_class)
              (DatabaseRefused (lit ''delete storage policy'') (lit ''the default storage policy cannot be removed''))) (\<lambda>_.
     Inr (OutcomeNone, advance_cluster_map_epoch (s\<lparr>cl_storage_policies := t_remove cls (cl_storage_policies s)\<rparr>)))"

definition set_device_state :: "NodeId \<Rightarrow> DeviceId \<Rightarrow> DeviceState \<Rightarrow> cluster \<Rightarrow> ClusterOutcome cluster_result" where
  "set_device_state node_id device_id st s =
     rbind (require_node s node_id) (\<lambda>n.
     rbind (ensure (\<not> (st = DeviceSafeToRemove \<and> device_replica_count node_id device_id s > 0))
              (DatabaseRefused (lit ''mark device safe to remove'')
                (lit ''device still owns replica records; evacuation is incomplete''))) (\<lambda>_.
     rbind (ok_or (node_device n device_id) (DeviceNotFound node_id device_id)) (\<lambda>d.
     rbind (map_err DeviceFailure (device_transition d st)) (\<lambda>(changed, d).
     let s = put_node node_id (n\<lparr>nr_devices := replace_device device_id d (nr_devices n)\<rparr>) s
     in rbind (if changed then recount_durability (advance_cluster_map_epoch s) else Inr s) (\<lambda>s.
        Inr (OutcomeDevice d, s))))))"

definition set_node_metadata_voter :: "NodeId \<Rightarrow> bool \<Rightarrow> cluster \<Rightarrow> ClusterOutcome cluster_result" where
  "set_node_metadata_voter node_id voter s =
     rbind (require_node s node_id) (\<lambda>n.
     let n = n\<lparr>nr_metadata_voter := voter\<rparr> in Inr (OutcomeNode n, put_node node_id n s))"

definition forget_node :: "NodeId \<Rightarrow> cluster \<Rightarrow> ClusterOutcome cluster_result" where
  "forget_node node_id s =
     (case t_get (cl_nodes s) node_id of
        None \<Rightarrow> Inr (OutcomeChanged False, s)
      | Some n \<Rightarrow>
          rbind (ensure (nr_state n = NodeDecommissioned)
                   (TopologyFailure (InvalidNodeTransition (nr_state n) NodeDecommissioned))) (\<lambda>_.
          rbind (ensure (\<not> node_replica_count node_id s > 0)
                   (DatabaseRefused (lit ''forget node'') (lit ''node still owns replica records''))) (\<lambda>_.
          Inr (OutcomeChanged True,
               advance_cluster_map_epoch
                 (s\<lparr>cl_nodes := t_remove node_id (cl_nodes s),
                    cl_node_by_member := t_remove (nr_raft_id n) (cl_node_by_member s),
                    cl_node_credentials := t_remove node_id (cl_node_credentials s)\<rparr>)))))"

section \<open>Placement commands\<close>

definition put_placement :: "PayloadPlacement \<Rightarrow> cluster \<Rightarrow> ClusterOutcome cluster_result" where
  "put_placement p s =
     (let existing = t_get (cl_placements s) (pp_object_id p);
          physical_before = (case existing of None \<Rightarrow> 0 | Some q \<Rightarrow> physical_bytes q);
          s = (case existing of
                 None \<Rightarrow> adjust_cluster_counter LogicalBytes (uint (pp_size p)) (adjust_cluster_counter PlacementCount 1 s)
               | Some q \<Rightarrow> adjust_cluster_counter LogicalBytes (uint (pp_size p) - uint (pp_size q)) s)
      in Inr (OutcomePlacement p, write_placement p physical_before s))"

definition upsert_replica_tx :: "ObjectId \<Rightarrow> Replica \<Rightarrow> datetime \<Rightarrow> cluster \<Rightarrow> ClusterOutcome cluster_result" where
  "upsert_replica_tx object_id r at s =
     rbind (require_placement s object_id) (\<lambda>p.
     let q = upsert_replica r at p in Inr (OutcomePlacement q, write_placement q (physical_bytes p) s))"

definition report_replica :: "ReplicaState \<Rightarrow> Checksum option \<Rightarrow> bool \<Rightarrow> datetime \<Rightarrow> Replica \<Rightarrow> Replica" where
  "report_replica st checksum verified at r =
     (let promoted = (re_state r \<noteq> ReplicaHealthy \<and> st = ReplicaHealthy)
      in r\<lparr>re_state := st, re_checksum := (if checksum \<noteq> None then checksum else re_checksum r),
           re_verified_at := (if verified then Some at else re_verified_at r),
           re_generation := (if promoted then saturating_add (re_generation r) 1 else re_generation r)\<rparr>)"

definition set_replica_state :: "(Replica \<Rightarrow> bool) \<Rightarrow> ObjectId \<Rightarrow> NodeId \<Rightarrow> ReplicaState \<Rightarrow> Checksum option \<Rightarrow> bool \<Rightarrow> datetime
    \<Rightarrow> cluster \<Rightarrow> ClusterOutcome cluster_result" where
  "set_replica_state which object_id node_id st checksum verified at s =
     rbind (require_placement s object_id) (\<lambda>p.
     rbind (ensure (find which (pp_replicas p) \<noteq> None) (ReplicaNotFound object_id node_id)) (\<lambda>_.
     let q = p\<lparr>pp_replicas := update_first which (report_replica st checksum verified at) (pp_replicas p), pp_updated_at := at\<rparr>
     in Inr (OutcomePlacement q, write_placement q (physical_bytes p) s)))"

definition remove_replica_tx :: "ObjectId \<Rightarrow> NodeId \<Rightarrow> datetime \<Rightarrow> cluster \<Rightarrow> ClusterOutcome cluster_result" where
  "remove_replica_tx object_id node_id at s =
     rbind (require_placement s object_id) (\<lambda>p.
     let (removed, q) = remove_replica node_id at p;
         s = (if removed then remove_node_replica node_id object_id s else s)
     in Inr (OutcomePlacement q, write_placement q (physical_bytes p) s))"

definition remove_replica_from_device :: "ObjectId \<Rightarrow> NodeId \<Rightarrow> DeviceId \<Rightarrow> datetime \<Rightarrow> cluster \<Rightarrow> ClusterOutcome cluster_result" where
  "remove_replica_from_device object_id node_id device_id at s =
     rbind (require_placement s object_id) (\<lambda>p.
     let (removed, q) = remove_replica_on node_id device_id at p;
         s = (if removed then remove_device_replica node_id device_id object_id s else s)
     in Inr (OutcomePlacement q, write_placement q (physical_bytes p) s))"

definition set_desired_replicas :: "ObjectId \<Rightarrow> u8 \<Rightarrow> datetime \<Rightarrow> cluster \<Rightarrow> ClusterOutcome cluster_result" where
  "set_desired_replicas object_id desired at s =
     rbind (require_placement s object_id) (\<lambda>p.
     let q = p\<lparr>pp_desired_replicas := desired, pp_updated_at := at\<rparr>
     in Inr (OutcomePlacement q, write_placement q (physical_bytes p) s))"

definition delete_placement :: "ObjectId \<Rightarrow> datetime \<Rightarrow> cluster \<Rightarrow> ClusterOutcome cluster_result" where
  "delete_placement object_id at s =
     (case t_get (cl_placements s) object_id of
        None \<Rightarrow> Inr (OutcomeChanged False, s)
      | Some p \<Rightarrow>
          let marker = tombstone_new object_id (remdups (map re_node_id (pp_replicas p))) at;
              fresh = (t_get (cl_tombstones s) object_id = None);
              s = s\<lparr>cl_tombstones := t_insert object_id marker (cl_tombstones s)\<rparr>;
              s = (if fresh then adjust_cluster_counter TombstoneCount 1 s else s);
              s = adjust_cluster_counter PlacementCount (- 1) s;
              s = adjust_cluster_counter LogicalBytes (- uint (pp_size p)) s;
              s = adjust_cluster_counter PhysicalBytes (- uint (physical_bytes p)) s;
              s = s\<lparr>cl_placements := t_remove object_id (cl_placements s)\<rparr>
          in Inr (OutcomeChanged True,
                  s\<lparr>cl_node_replicas := index_replicas object_id (\<lambda>_. replica_state_code ReplicaDeleting) (pp_replicas p) (cl_node_replicas s)\<rparr>))"

definition acknowledge_tombstone :: "ObjectId \<Rightarrow> NodeId \<Rightarrow> datetime \<Rightarrow> cluster \<Rightarrow> ClusterOutcome cluster_result" where
  "acknowledge_tombstone object_id node_id at s =
     rbind (ok_or (t_get (cl_tombstones s) object_id) (TombstoneNotFound object_id)) (\<lambda>marker.
     let marker = acknowledge node_id at marker;
         s = remove_node_replica node_id object_id s
     in Inr (OutcomeChanged (ts_completed_at marker \<noteq> None),
             s\<lparr>cl_tombstones := t_insert object_id marker (cl_tombstones s)\<rparr>))"

definition purge_tombstone :: "ObjectId \<Rightarrow> cluster \<Rightarrow> ClusterOutcome cluster_result" where
  "purge_tombstone object_id s =
     (let removed = (t_get (cl_tombstones s) object_id \<noteq> None);
          s = s\<lparr>cl_tombstones := t_remove object_id (cl_tombstones s)\<rparr>
      in Inr (OutcomeChanged removed, if removed then adjust_cluster_counter TombstoneCount (- 1) s else s))"

section \<open>Task commands\<close>

definition enqueue_task :: "ReplicaTask \<Rightarrow> cluster \<Rightarrow> ClusterOutcome cluster_result" where
  "enqueue_task t s =
     (let key = task_object_key (rt_object_id t) (rt_kind t);
          existing = Option.bind (Option.bind (t_get (cl_task_by_object s) key) (t_get (cl_tasks s)))
            (\<lambda>e. if task_active (rt_state e) then Some e else None)
      in case existing of
           Some e \<Rightarrow> Inr (OutcomeTask e, s)
         | None \<Rightarrow>
             let s = put_task (rt_id t) t s;
                 s = s\<lparr>cl_task_by_object := t_insert key (rt_id t) (cl_task_by_object s)\<rparr>;
                 s = insert_task_queue_entry t s
             in Inr (OutcomeTask t, adjust_cluster_counter ActiveTasks 1 s))"

definition claim_task :: "uuid \<Rightarrow> NodeId \<Rightarrow> u64 \<Rightarrow> datetime \<Rightarrow> cluster \<Rightarrow> ClusterOutcome cluster_result" where
  "claim_task task_id node_id lease_seconds at s =
     rbind (require_task s task_id) (\<lambda>t.
     if rt_state t \<noteq> TaskQueued then Inr (OutcomeChanged False, s)
     else
       let s = remove_task_queue_entry t s;
           t = claim node_id lease_seconds at t;
           s = insert_task_queue_entry t s
       in Inr (OutcomeTask t, put_task task_id t s))"

definition stale_report :: "ReplicaTask \<Rightarrow> NodeId option \<Rightarrow> u64 \<Rightarrow> bool" where
  "stale_report t reporter fence = (case reporter of None \<Rightarrow> False | Some n \<Rightarrow> \<not> holds_claim t n fence)"

definition complete_task :: "uuid \<Rightarrow> NodeId option \<Rightarrow> u64 \<Rightarrow> datetime \<Rightarrow> cluster \<Rightarrow> ClusterOutcome cluster_result" where
  "complete_task task_id reporter fence at s =
     rbind (require_task s task_id) (\<lambda>t.
     if stale_report t reporter fence then Inr (OutcomeChanged False, s)
     else
       let s = remove_task_queue_entry t s;
           was_active = task_active (rt_state t);
           t = task_complete at t;
           s = put_task task_id t s;
           s = remove_task_object_entry t s
       in Inr (OutcomeTask t, if was_active then adjust_cluster_counter ActiveTasks (- 1) s else s))"

definition fail_task :: "uuid \<Rightarrow> NodeId option \<Rightarrow> u64 \<Rightarrow> str \<Rightarrow> u32 \<Rightarrow> datetime \<Rightarrow> cluster \<Rightarrow> ClusterOutcome cluster_result" where
  "fail_task task_id reporter fence reason maximum_attempts at s =
     rbind (require_task s task_id) (\<lambda>t.
     if stale_report t reporter fence then Inr (OutcomeChanged False, s)
     else
       let s = remove_task_queue_entry t s;
           was_active = task_active (rt_state t);
           t = task_fail reason maximum_attempts at t;
           s = (if task_active (rt_state t) then insert_task_queue_entry t s
                else
                  let s = remove_task_object_entry t s;
                      s = (if was_active then adjust_cluster_counter ActiveTasks (- 1) s else s)
                  in adjust_cluster_counter ParkedTasks 1 s)
       in Inr (OutcomeTask t, put_task task_id t s))"

definition requeue_task :: "uuid \<Rightarrow> str option \<Rightarrow> datetime \<Rightarrow> cluster \<Rightarrow> ClusterOutcome cluster_result" where
  "requeue_task task_id reason at s =
     rbind (require_task s task_id) (\<lambda>t.
     let s = remove_task_queue_entry t s;
         was_active = task_active (rt_state t);
         t = task_requeue reason at t;
         s = insert_task_queue_entry t s;
         s = put_task task_id t s
     in Inr (OutcomeTask t,
             if \<not> was_active then adjust_cluster_counter ParkedTasks (- 1) (adjust_cluster_counter ActiveTasks 1 s) else s))"

definition cancel_task :: "uuid \<Rightarrow> str \<Rightarrow> datetime \<Rightarrow> cluster \<Rightarrow> ClusterOutcome cluster_result" where
  "cancel_task task_id reason at s =
     rbind (require_task s task_id) (\<lambda>t.
     let s = remove_task_queue_entry t s;
         was_active = task_active (rt_state t);
         t = task_cancel reason at t;
         s = put_task task_id t s;
         s = remove_task_object_entry t s
     in Inr (OutcomeTask t, if was_active then adjust_cluster_counter ActiveTasks (- 1) s else s))"

definition purge_task :: "uuid \<Rightarrow> cluster \<Rightarrow> ClusterOutcome cluster_result" where
  "purge_task task_id s =
     (case t_get (cl_tasks s) task_id of
        None \<Rightarrow> Inr (OutcomeChanged False, s)
      | Some t \<Rightarrow>
          if task_active (rt_state t) then Inr (OutcomeChanged False, s)
          else
            let s = (case rt_state t of TaskParked parked_at reason \<Rightarrow> adjust_cluster_counter ParkedTasks (- 1) s | _ \<Rightarrow> s)
            in Inr (OutcomeChanged True, s\<lparr>cl_tasks := t_remove task_id (cl_tasks s)\<rparr>))"

section \<open>Operations, tokens and credentials\<close>

definition start_operation :: "ClusterOperation \<Rightarrow> cluster \<Rightarrow> ClusterOutcome cluster_result" where
  "start_operation op s = Inr (OutcomeOperation op, s\<lparr>cl_operations := t_insert (co_id op) op (cl_operations s)\<rparr>)"

definition update_operation :: "uuid \<Rightarrow> ClusterOperationState \<Rightarrow> OperationProgress \<Rightarrow> str option \<Rightarrow> datetime \<Rightarrow> cluster
    \<Rightarrow> ClusterOutcome cluster_result" where
  "update_operation operation_id st progress message at s =
     rbind (ok_or (t_get (cl_operations s) operation_id) (OperationNotFound operation_id)) (\<lambda>op.
     let op = op\<lparr>co_state := st, co_progress := progress, co_updated_at := at,
           co_message := (if message \<noteq> None then message else co_message op),
           co_completed_at := (if \<not> operation_active st \<and> co_completed_at op = None then Some at else co_completed_at op)\<rparr>
     in Inr (OutcomeOperation op, s\<lparr>cl_operations := t_insert operation_id op (cl_operations s)\<rparr>))"

definition put_join_token :: "uuid \<Rightarrow> JoinToken \<Rightarrow> cluster \<Rightarrow> cluster" where
  "put_join_token token_id t s = s\<lparr>cl_join_tokens := t_insert token_id t (cl_join_tokens s)\<rparr>"

definition consume_join_token :: "uuid \<Rightarrow> datetime \<Rightarrow> cluster \<Rightarrow> ClusterOutcome cluster_result" where
  "consume_join_token token_id at s =
     rbind (ok_or (t_get (cl_join_tokens s) token_id) (JoinTokenNotFound token_id)) (\<lambda>t.
     rbind (ensure (\<not> token_spent t at) (JoinTokenNotFound token_id)) (\<lambda>_.
     Inr (OutcomeChanged True, put_join_token token_id (token_consume t) s)))"

definition revoke_join_token :: "uuid \<Rightarrow> cluster \<Rightarrow> ClusterOutcome cluster_result" where
  "revoke_join_token token_id s =
     rbind (ok_or (t_get (cl_join_tokens s) token_id) (JoinTokenNotFound token_id)) (\<lambda>t.
     Inr (OutcomeChanged True, put_join_token token_id (t\<lparr>jt_revoked := True\<rparr>) s))"

definition purge_join_token :: "uuid \<Rightarrow> cluster \<Rightarrow> ClusterOutcome cluster_result" where
  "purge_join_token token_id s =
     Inr (OutcomeChanged (t_get (cl_join_tokens s) token_id \<noteq> None), s\<lparr>cl_join_tokens := t_remove token_id (cl_join_tokens s)\<rparr>)"

definition set_node_credential_disabled :: "NodeId \<Rightarrow> bool \<Rightarrow> datetime \<Rightarrow> cluster \<Rightarrow> ClusterOutcome cluster_result" where
  "set_node_credential_disabled node_id disabled at s =
     rbind (ok_or (t_get (cl_node_credentials s) node_id) (CredentialNotFound node_id)) (\<lambda>c.
     let c = c\<lparr>cr_disabled := disabled, cr_rotated_at := Some at\<rparr>
     in Inr (OutcomeChanged True, s\<lparr>cl_node_credentials := t_insert node_id c (cl_node_credentials s)\<rparr>))"

section \<open>The command dispatch\<close>

fun apply_cluster_command :: "ClusterCommand \<Rightarrow> cluster \<Rightarrow> ClusterOutcome cluster_result" where
  "apply_cluster_command (InitializeCluster identity config) s = initialize_cluster identity config s"
| "apply_cluster_command (RecordRecovery recovery_id reason at) s = record_recovery recovery_id at s"
| "apply_cluster_command (UpdateConfig config at) s = update_config config s"
| "apply_cluster_command (RegisterNode r at) s = register_node r at s"
| "apply_cluster_command (Heartbeat n capacity activity at) s = heartbeat n capacity activity at s"
| "apply_cluster_command (UpdateNodeDescriptor n rpc s3 management versions cls domain started_at at) s =
     update_node_descriptor n rpc s3 management versions cls domain started_at at s"
| "apply_cluster_command (SetNodeState n st reason at) s = set_node_state n st reason at s"
| "apply_cluster_command (RegisterDevice n d at) s = register_device n d s"
| "apply_cluster_command (PutStoragePolicy policy at) s = put_storage_policy policy s"
| "apply_cluster_command (DeleteStoragePolicy cls at) s = delete_storage_policy cls s"
| "apply_cluster_command (SetDeviceState n d st at) s = set_device_state n d st s"
| "apply_cluster_command (SetNodeMetadataVoter n voter at) s = set_node_metadata_voter n voter s"
| "apply_cluster_command (ForgetNode n) s = forget_node n s"
| "apply_cluster_command (PutPlacement p) s = put_placement p s"
| "apply_cluster_command (UpsertReplica object_id r at) s = upsert_replica_tx object_id r at s"
| "apply_cluster_command (SetReplicaState object_id n st checksum verified at) s =
     set_replica_state (\<lambda>r. re_node_id r = n) object_id n st checksum verified at s"
| "apply_cluster_command (SetReplicaStateOnDevice object_id n d st checksum verified at) s =
     set_replica_state (on_target n d) object_id n st checksum verified at s"
| "apply_cluster_command (RemoveReplica object_id n at) s = remove_replica_tx object_id n at s"
| "apply_cluster_command (RemoveReplicaFromDevice object_id n d at) s = remove_replica_from_device object_id n d at s"
| "apply_cluster_command (SetDesiredReplicas object_id desired at) s = set_desired_replicas object_id desired at s"
| "apply_cluster_command (DeletePlacement object_id at) s = delete_placement object_id at s"
| "apply_cluster_command (AcknowledgeTombstone object_id n at) s = acknowledge_tombstone object_id n at s"
| "apply_cluster_command (PurgeTombstone object_id) s = purge_tombstone object_id s"
| "apply_cluster_command (EnqueueTask t) s = enqueue_task t s"
| "apply_cluster_command (ClaimTask task_id n lease_seconds at) s = claim_task task_id n lease_seconds at s"
| "apply_cluster_command (CompleteTask task_id reporter fence at) s = complete_task task_id reporter fence at s"
| "apply_cluster_command (FailTask task_id reporter fence reason maximum_attempts at) s =
     fail_task task_id reporter fence reason maximum_attempts at s"
| "apply_cluster_command (RequeueTask task_id reason at) s = requeue_task task_id reason at s"
| "apply_cluster_command (CancelTask task_id reason at) s = cancel_task task_id reason at s"
| "apply_cluster_command (PurgeTask task_id) s = purge_task task_id s"
| "apply_cluster_command (StartOperation op) s = start_operation op s"
| "apply_cluster_command (UpdateOperation operation_id st progress message at) s =
     update_operation operation_id st progress message at s"
| "apply_cluster_command (IssueJoinToken t) s = Inr (OutcomeNone, put_join_token (jt_id t) t s)"
| "apply_cluster_command (ConsumeJoinToken token_id at) s = consume_join_token token_id at s"
| "apply_cluster_command (RevokeJoinToken token_id at) s = revoke_join_token token_id s"
| "apply_cluster_command (PurgeJoinToken token_id) s = purge_join_token token_id s"
| "apply_cluster_command (PutNodeCredential c) s =
     Inr (OutcomeNone, s\<lparr>cl_node_credentials := t_insert (cr_node_id c) c (cl_node_credentials s)\<rparr>)"
| "apply_cluster_command (SetNodeCredentialDisabled n disabled at) s = set_node_credential_disabled n disabled at s"

end
