(* ===== verification/Spec2Isabelle.thy ===== *)
theory Spec2Isabelle
  imports Journal Quotas Samples Writer References Audit_Query Explanations Cluster_Catalog
begin

text \<open>
  Record Store keeps objects in buckets. Placeholder of the full header.
\<close>

section \<open>The catalog over every run of commands\<close>

text \<open>
  C5. The tables of the catalog that index the same things agree after every admissible run: the version
  order, the null versions, the current objects and delete markers, the bucket names, the uploads and their
  parts, and the locks, which only versions of buckets with Object Lock hold.
\<close>

theorem index_is_consistent: "admissible cs \<Longrightarrow> index_inv (after ext cs)"
  using books_after [of cs ext] by (simp add: books_def)

theorem index_is_consistent_witness: "index_inv (after sample_ext sample_run)"
  by (rule index_is_consistent [OF sample_admissible])

text \<open>
  C3. The usage record of every bucket is exact after every admissible run: its word-sized fields, which the
  code updates with wrapping arithmetic, are the number and the bytes of the versions, of the current objects
  and of the parts of the open uploads that the bucket really has.
\<close>

theorem usage_is_exact:
  assumes "admissible cs" and "s = after ext cs"
  shows "uint (bu_versions (read_bucket_usage s b)) = n_versions s ((=) b)
    \<and> uint (bu_version_bytes (read_bucket_usage s b)) = n_version_bytes s ((=) b)
    \<and> uint (bu_current_objects (read_bucket_usage s b)) = n_objects s ((=) b)
    \<and> uint (bu_logical_bytes (read_bucket_usage s b)) = n_object_bytes s ((=) b)
    \<and> uint (bu_multipart_bytes (read_bucket_usage s b)) = n_part_bytes s ((=) b)"
  using usage_exact [of s b] books_after [OF assms(1), of ext] assms(2) by (simp add: books_def)

theorem usage_is_exact_witness:
  "n_versions (after sample_ext sample_run) ((=) 7) = 2 \<and> n_version_bytes (after sample_ext sample_run) ((=) 7) = 80"
proof -
  have u: "bu_versions (read_bucket_usage (after sample_ext sample_run) 7) = 2"
    "bu_version_bytes (read_bucket_usage (after sample_ext sample_run) 7) = 80"
    by (simp_all add: run_eval samples)
  from usage_is_exact [OF sample_admissible refl, of sample_ext 7, unfolded u] show ?thesis by simp
qed

text \<open>
  C6. The global counters are exact after every admissible run: object, version and bucket counts, logical,
  version, physical and multipart bytes are the totals of the tables.
\<close>

theorem counters_are_exact:
  assumes "admissible cs" and "s = after ext cs"
  shows "ctr s OBJECT_COUNT = n_objects s (\<lambda>_. True) \<and> ctr s LOGICAL_BYTES = n_object_bytes s (\<lambda>_. True)
    \<and> ctr s VERSION_COUNT = n_versions s (\<lambda>_. True) \<and> ctr s VERSION_BYTES = n_version_bytes s (\<lambda>_. True)
    \<and> ctr s PHYSICAL_BYTES = n_version_bytes s (\<lambda>_. True) \<and> ctr s MULTIPART_BYTES = n_part_bytes s (\<lambda>_. True)
    \<and> ctr s BUCKET_COUNT = n_buckets s"
  using books_after [OF assms(1), of ext] assms(2) by (simp add: books_def accounted_def)

theorem counters_are_exact_witness:
  "ctr (after sample_ext sample_run) VERSION_COUNT = n_versions (after sample_ext sample_run) (\<lambda>_. True)"
  using counters_are_exact [OF sample_admissible refl, of sample_ext] by simp

text \<open>
  C4. Byte quotas hold after every admissible run: the bytes of the versions and of the uploaded parts of a
  bucket together never exceed the limit its quota sets.
\<close>

theorem byte_quota_holds:
  assumes "admissible cs" and "s = after ext cs"
    and "read_bucket s i = Some b" and "quota_bytes (quota b) = BytesLimit q" and "q \<noteq> - 1"
  shows "n_version_bytes s ((=) i) + n_part_bytes s ((=) i) \<le> uint q"
proof -
  have "within_quota empty_catalog" by (simp add: within_quota_def read_bucket_def empty_catalog_def)
  with books_empty qt.run_inv [OF _ admitted_after [OF assms(1)]] have "within_quota s" unfolding assms(2) by blast
  from within_quotaD [OF this assms(3-5)] show ?thesis by (simp add: occupied_def)
qed

theorem byte_quota_holds_witness:
  "n_version_bytes (after sample_ext sample_run) ((=) 7) + n_part_bytes (after sample_ext sample_run) ((=) 7) \<le> 100"
proof -
  have "read_bucket (after sample_ext sample_run) 7 = Some sample_bucket" by (simp add: run_eval samples)
  from byte_quota_holds [OF sample_admissible refl this, of 100] show ?thesis by (simp add: sample_bucket_def)
qed

text \<open>
  C2. No command removes a version that is protected. A recorded version stays as it is unless the command
  releases it: then it had no lock, or the command deletes this very version and the lock allows it at the
  time and with the bypass the command carries. The payload of a removed version is queued for cleanup.
\<close>

theorem version_leaves_only_released:
  assumes "admissible (cs @ [c])" and "ver (after ext cs) v = Some r"
  shows "ver (after ext (cs @ [c])) v = Some r
    \<or> ver (after ext (cs @ [c])) v = None \<and> released (read_object_lock (after ext cs) v) v c
      \<and> payload_queued (after ext (cs @ [c])) r"
proof -
  have b: "books (after ext cs)" by (rule books_after [OF admissible_append [OF assms(1)]])
  have ok: "command_ok (after ext cs) c" using admitted_later [OF assms(1)] by simp
  show ?thesis
  proof (cases "apply_command_tx ext (after ext cs) c")
    case (Inr p)
    then obtain x s' where "apply_command_tx ext (after ext cs) c = Inr (x, s')" by (cases p) simp
    moreover from fate_step [OF _ ok command_effectD [OF b this] assms(2)] b have "fate (after ext cs) s' v r c"
      by (simp add: books_def)
    ultimately show ?thesis using assms(2) by (auto simp: after_snoc attempt_def fate_def kept_def)
  qed (simp add: after_snoc attempt_def assms(2))
qed

theorem version_leaves_only_released_witness:
  "ver (after sample_ext (sample_run @ [DeleteObjectVersion 7 (lit ''a/b'') 1 (sample_release 5000000)])) 1
     = Some (ObjectRecord (sample_object 1 2000) False)"
proof -
  have "admissible (sample_run @ [DeleteObjectVersion 7 (lit ''a/b'') 1 (sample_release 5000000)])"
    using sample_admissible by (simp add: admissible_def)
  from version_leaves_only_released [OF this sample_versions(1)] show ?thesis
    by (simp add: sample_versions(2)) (simp add: released_def sample_lock_def is_unlocked_def releasable_def is_active_at_def
        timestamp_micros_def sample_release_def lock_release_new_def)
qed

text \<open>
  C1. A version under compliance retention cannot be lost before its date. Whatever admissible commands
  follow, as long as lock changes and version deletions are decided before the date, the version record is
  unchanged and still under compliance retention until at least that date.
\<close>

theorem compliance_retention_holds:
  assumes "admissible (cs @ ds)" and "ver (after ext cs) v = Some r"
    and "lock_retention (read_object_lock (after ext cs) v) = Some c" and "ret_mode c = Compliance"
    and "list_all (decided_before (retain_until c)) ds"
  shows "ver (after ext (cs @ ds)) v = Some r
    \<and> (\<exists>c'. lock_retention (read_object_lock (after ext (cs @ ds)) v) = Some c' \<and> ret_mode c' = Compliance
         \<and> retain_until c \<le> retain_until c')"
proof -
  have "books (after ext cs) \<and> sealed (retain_until c) v r (after ext cs)"
    using books_after [OF admissible_append [OF assms(1)]] assms(2-4) by (simp add: sealed_def)
  moreover have "admitted (\<lambda>s d. command_ok s d \<and> decided_before (retain_until c) d) (apply_command_tx ext) (after ext cs) ds"
    using admitted_later [OF assms(1)] assms(5) by (simp add: admitted_conj)
  ultimately have "sealed (retain_until c) v r (after ext (cs @ ds))"
    using worm.run_inv unfolding run_append by blast
  then show ?thesis by (simp add: sealed_def)
qed

theorem compliance_retention_holds_witness:
  "ver (after sample_ext (sample_run @ [DeleteObject 7 (lit ''a/b'') \<lparr>nm_version = 3, nm_created_at = 4000\<rparr>,
       DeleteObjectVersion 7 (lit ''a/b'') 1 (sample_release 5000000)])) 1
     = Some (ObjectRecord (sample_object 1 2000) False)"
proof -
  let ?ds = "[DeleteObject 7 (lit ''a/b'') \<lparr>nm_version = 3, nm_created_at = 4000\<rparr>,
      DeleteObjectVersion 7 (lit ''a/b'') 1 (sample_release 5000000)]"
  have a: "admissible (sample_run @ ?ds)"
    by (simp add: admissible_def samples object_key_new_def validate_object_key_def KEY_MAX_LENGTH_def lit_def starts_with_def)
  have l: "lock_retention (read_object_lock (after sample_ext sample_run) 1) = Some \<lparr>ret_mode = Compliance, retain_until = 9000000\<rparr>"
    by (simp add: sample_versions(2) sample_lock_def)
  show ?thesis
    using compliance_retention_holds [OF a sample_versions(1) l] by (simp add: timestamp_micros_def samples)
qed

text \<open>
  C7. The event journal has no gap after any admissible run: it holds exactly the sequence numbers above
  some floor up to the sequence counter, each event stored under its own number with the identifier derived
  from its contents.
\<close>

theorem journal_has_no_gap:
  assumes "admissible cs"
  shows "\<exists>lo \<ge> 0. journal_from ext lo (after ext cs)"
proof -
  have "books empty_catalog \<and> journal_ok ext empty_catalog"
    using books_empty journal_empty by (auto simp: journal_ok_def)
  from jn.run_inv [OF this admitted_after [OF assms]] show ?thesis by (simp add: journal_ok_def)
qed

theorem journal_has_no_gap_witness: "\<exists>lo. lo \<ge> 0 \<and> journal_from sample_ext lo (after sample_ext sample_run)"
  using journal_has_no_gap [OF sample_admissible, of sample_ext] by blast

text \<open>
  C8. The clock watermark never moves back: once a command has recorded an instant, every later state of
  an admissible run has a watermark at least as late.
\<close>

theorem watermark_never_moves_back:
  assumes "admissible (cs @ ds)" and "watermark (after ext cs) = Some m"
  shows "\<exists>m'. watermark (after ext (cs @ ds)) = Some m' \<and> m \<le> m'"
proof -
  have "books (after ext cs) \<and> not_before m (after ext cs)"
    using books_after [OF admissible_append [OF assms(1)]] assms(2) by (simp add: not_before_def)
  from ck.run_inv [OF this admitted_later [OF assms(1)]] show ?thesis by (simp add: run_append not_before_def)
qed

theorem watermark_never_moves_back_witness:
  "\<exists>m'. watermark (after sample_ext ([ObserveClock (sample_release 5000)] @ [ObserveClock (sample_release 3000)])) = Some m' \<and> 5 \<le> m'"
proof (rule watermark_never_moves_back)
  show "admissible ([ObserveClock (sample_release 5000)] @ [ObserveClock (sample_release 3000)])" by (simp add: admissible_def)
  show "watermark (after sample_ext [ObserveClock (sample_release 5000)]) = Some 5"
    by (simp add: run_eval samples observe_clock_def watermark_def timestamp_micros_def)
qed

end
